(* ===== verification/Prelude.thy ===== *)
theory Prelude
  imports Main "HOL-Library.Word"
begin

text \<open>
  Shared vocabulary of the development: the result type of fallible Rust code with its
  sequencing combinator (the \<^verbatim>\<open>?\<close> operator), the bounds of the machine integers the
  sources convert between, row-set helpers that the SQL statements of the model are written
  with (\<^verbatim>\<open>UPDATE ... WHERE\<close>, \<^verbatim>\<open>DELETE ... WHERE\<close>, row counts), and the lemma
  collections the component theories extend.
\<close>

named_theorems result_simps "equations that run fallible steps"
named_theorems sql_simps "equations that run SQL statements of the model"
named_theorems frame_simps "what an operation leaves unchanged"

section \<open>Results\<close>

type_synonym ('e, 'a) result = "'e + 'a"

text \<open>The \<^verbatim>\<open>?\<close> operator: stop at the first error.\<close>

definition rbind :: "('e, 'a) result \<Rightarrow> ('a \<Rightarrow> ('e, 'b) result) \<Rightarrow> ('e, 'b) result" where
  "rbind r f = (case r of Inl e \<Rightarrow> Inl e | Inr x \<Rightarrow> f x)"

lemma rbind_simps [simp, result_simps]:
  "rbind (Inl e) f = Inl e"
  "rbind (Inr x) f = f x"
  by (simp_all add: rbind_def)

lemma rbind_eq_Inr: "rbind r f = Inr y \<longleftrightarrow> (\<exists>x. r = Inr x \<and> f x = Inr y)"
  by (cases r) auto

lemma rbind_eq_Inl: "rbind r f = Inl e \<longleftrightarrow> r = Inl e \<or> (\<exists>x. r = Inr x \<and> f x = Inl e)"
  by (cases r) auto

lemma run_fst: "fst p = r \<Longrightarrow> p = (r, snd p)"
  by (cases p) simp

lemma run_case: "(case fst p of Inl _ \<Rightarrow> False | Inr x \<Rightarrow> P x) \<Longrightarrow> \<exists>x. p = (Inr x, snd p) \<and> P x"
  by (cases p) (auto split: sum.splits)

text \<open>\<^verbatim>\<open>Option::ok_or\<close>.\<close>

definition ok_or :: "'a option \<Rightarrow> 'e \<Rightarrow> ('e, 'a) result" where
  "ok_or x e = (case x of None \<Rightarrow> Inl e | Some y \<Rightarrow> Inr y)"

lemma ok_or_simps [simp, result_simps]:
  "ok_or None e = Inl e"
  "ok_or (Some x) e = Inr x"
  by (simp_all add: ok_or_def)

lemma ok_or_eq_Inr: "ok_or x e = Inr y \<longleftrightarrow> x = Some y"
  by (cases x) auto

text \<open>
  Running a fallible conversion over a list and collecting into
  \<^verbatim>\<open>Result<Vec<_>, _>\<close>: the first error wins.
\<close>

fun collect_results :: "('e, 'a) result list \<Rightarrow> ('e, 'a list) result" where
  "collect_results [] = Inr []"
| "collect_results (Inl e # rs) = Inl e"
| "collect_results (Inr x # rs) = rbind (collect_results rs) (\<lambda>xs. Inr (x # xs))"

lemma collect_results_Inr_iff: "collect_results rs = Inr xs \<longleftrightarrow> rs = map Inr xs"
proof (induction rs arbitrary: xs rule: collect_results.induct)
  case (3 x rs)
  show ?case
    by (cases xs) (auto simp: rbind_eq_Inr 3)
qed auto

lemma collect_results_Inl: "collect_results rs = Inl e \<Longrightarrow> Inl e \<in> set rs"
  by (induction rs rule: collect_results.induct) (auto simp: rbind_eq_Inl)

section \<open>Machine integers\<close>

text \<open>
  Columns of type \<^verbatim>\<open>INTEGER\<close> and Rust's \<^verbatim>\<open>i32\<close> are integers in the range below.
  Arithmetic on them is written on \<open>int\<close> and every conversion that can fail is an explicit
  branch. A \<^verbatim>\<open>usize\<close> is a \<open>nat\<close> below \<open>usize_max\<close> (64-bit targets).
\<close>

definition i32_max :: int where "i32_max = 2147483647"
definition i32_min :: int where "i32_min = - 2147483648"
definition i64_max :: int where "i64_max = 9223372036854775807"
definition usize_max :: nat where "usize_max = 18446744073709551615"

definition in_i32 :: "int \<Rightarrow> bool" where
  "in_i32 x \<longleftrightarrow> i32_min \<le> x \<and> x \<le> i32_max"

text \<open>\<^verbatim>\<open>i32::try_from\<close>.\<close>

definition i32_try_from :: "int \<Rightarrow> int option" where
  "i32_try_from x = (if in_i32 x then Some x else None)"

text \<open>\<^verbatim>\<open>usize::checked_add\<close>.\<close>

definition usize_checked_add :: "nat \<Rightarrow> nat \<Rightarrow> nat option" where
  "usize_checked_add a b = (if a + b \<le> usize_max then Some (a + b) else None)"

lemma i32_try_from_Some: "i32_try_from x = Some y \<longleftrightarrow> y = x \<and> in_i32 x"
  by (auto simp: i32_try_from_def)

lemma usize_checked_add_Some: "usize_checked_add a b = Some c \<longleftrightarrow> c = a + b \<and> a + b \<le> usize_max"
  by (auto simp: usize_checked_add_def)

section \<open>Row sets\<close>

text \<open>\<^verbatim>\<open>UPDATE ... SET f WHERE P\<close> on a table kept as a list of rows.\<close>

definition update_where :: "('a \<Rightarrow> bool) \<Rightarrow> ('a \<Rightarrow> 'a) \<Rightarrow> 'a list \<Rightarrow> 'a list" where
  "update_where P f rows = map (\<lambda>r. if P r then f r else r) rows"

text \<open>\<^verbatim>\<open>DELETE ... WHERE P\<close>.\<close>

definition delete_where :: "('a \<Rightarrow> bool) \<Rightarrow> 'a list \<Rightarrow> 'a list" where
  "delete_where P rows = filter (\<lambda>r. \<not> P r) rows"

text \<open>The affected-row count a statement reports.\<close>

definition count_where :: "('a \<Rightarrow> bool) \<Rightarrow> 'a list \<Rightarrow> nat" where
  "count_where P rows = length (filter P rows)"

lemma update_where_simps [simp]:
  "update_where P f [] = []"
  "update_where P f (r # rs) = (if P r then f r else r) # update_where P f rs"
  by (simp_all add: update_where_def)

lemma length_update_where [simp]: "length (update_where P f rows) = length rows"
  by (simp add: update_where_def)

lemma set_update_where:
  "set (update_where P f rows) = {r. r \<in> set rows \<and> \<not> P r} \<union> f ` {r. r \<in> set rows \<and> P r}"
  by (auto simp: update_where_def)

lemma update_where_in: "r \<in> set rows \<Longrightarrow> P r \<Longrightarrow> f r \<in> set (update_where P f rows)"
  by (auto simp: set_update_where)

lemma update_where_frame: "r \<in> set rows \<Longrightarrow> \<not> P r \<Longrightarrow> r \<in> set (update_where P f rows)"
  by (auto simp: set_update_where)

lemma map_update_where:
  "(\<And>r. P r \<Longrightarrow> k (f r) = k r) \<Longrightarrow> map k (update_where P f rows) = map k rows"
  by (induction rows) auto

lemma update_where_none: "\<forall>r \<in> set rows. \<not> P r \<Longrightarrow> update_where P f rows = rows"
  by (induction rows) auto

lemma count_where_zero: "count_where P rows = 0 \<longleftrightarrow> (\<forall>r \<in> set rows. \<not> P r)"
  by (auto simp: count_where_def filter_empty_conv)

lemma update_where_count_zero: "count_where P rows = 0 \<Longrightarrow> update_where P f rows = rows"
  by (simp add: count_where_zero update_where_none)

lemma update_where_cong:
  "(\<And>r. r \<in> set rows \<Longrightarrow> P r \<longleftrightarrow> Q r) \<Longrightarrow> update_where P f rows = update_where Q f rows"
  by (simp add: update_where_def)

lemma count_where_cong:
  "(\<And>r. r \<in> set rows \<Longrightarrow> P r \<longleftrightarrow> Q r) \<Longrightarrow> count_where P rows = count_where Q rows"
  unfolding count_where_def by (metis filter_cong)

lemma set_delete_where [simp]: "set (delete_where P rows) = {r. r \<in> set rows \<and> \<not> P r}"
  by (auto simp: delete_where_def)

lemma length_delete_where: "length (delete_where P rows) + count_where P rows = length rows"
  by (induction rows) (auto simp: delete_where_def count_where_def)

lemma count_where_le_length: "count_where P rows \<le> length rows"
  by (simp add: count_where_def)

lemma length_filter_take_filter: "length (filter P (take n (filter Q xs))) \<le> length (filter P xs)"
proof -
  have "length (filter P (take n (filter Q xs))) \<le> length (filter P (filter Q xs))"
    by (metis append_take_drop_id filter_append le_add1 length_append)
  also have "\<dots> \<le> length (filter P xs)"
    by (induction xs) (auto intro: le_SucI)
  finally show ?thesis .
qed

lemma distinct_map_filter_keep: "distinct (map k rows) \<Longrightarrow> distinct (map k (filter P rows))"
  by (induction rows) auto

text \<open>Rows of a table with a key column are determined by their key.\<close>

lemma distinct_key_unique:
  "distinct (map k rows) \<Longrightarrow> r \<in> set rows \<Longrightarrow> s \<in> set rows \<Longrightarrow> k r = k s \<Longrightarrow> r = s"
  by (meson distinct_map inj_onD)

lemma count_where_key_le_1:
  assumes "distinct (map k rows)" and "\<And>r. P r \<Longrightarrow> k r = x"
  shows "count_where P rows \<le> 1"
proof -
  have "set (filter P rows) \<subseteq> {r \<in> set rows. k r = x}" using assms(2) by auto
  moreover have "card {r \<in> set rows. k r = x} \<le> 1"
    by (rule card_le_Suc0_iff_eq [THEN iffD2, simplified One_nat_def [symmetric]])
       (use assms(1) in \<open>auto dest: distinct_key_unique\<close>)
  moreover have "distinct (filter P rows)"
    using assms(1) by (simp add: distinct_map)
  ultimately show ?thesis
    unfolding count_where_def
    by (metis (no_types, lifting) List.finite_set card_mono distinct_card finite_subset
        le_trans mem_Collect_eq subsetI)
qed

lemma count_where_member_le:
  assumes "distinct rows"
  shows "count_where (\<lambda>r. r \<in> set cs) rows \<le> length cs"
proof -
  have "count_where (\<lambda>r. r \<in> set cs) rows = card (set (filter (\<lambda>r. r \<in> set cs) rows))"
    unfolding count_where_def using assms by (intro distinct_card [symmetric]) simp
  also have "\<dots> \<le> card (set cs)" by (rule card_mono) auto
  also have "\<dots> \<le> length cs" by (rule card_length)
  finally show ?thesis .
qed

lemma count_where_member:
  assumes "distinct rows" and "distinct cs" and "set cs \<subseteq> set rows"
  shows "count_where (\<lambda>r. r \<in> set cs) rows = length cs"
proof -
  have "count_where (\<lambda>r. r \<in> set cs) rows = card (set (filter (\<lambda>r. r \<in> set cs) rows))"
    unfolding count_where_def using assms(1) by (intro distinct_card [symmetric]) simp
  also have "set (filter (\<lambda>r. r \<in> set cs) rows) = set cs" using assms(3) by auto
  finally show ?thesis using assms(2) by (simp add: distinct_card)
qed

section \<open>Polling\<close>

text \<open>
  \<^verbatim>\<open>std::task::Poll\<close>, and a stream as the function that polls its state in a world: pending,
  ended (\<open>PollReady None\<close>), or an item.
\<close>

datatype 'a poll = PollPending | PollReady 'a

type_synonym ('s, 'w, 'i) stream = "'s \<Rightarrow> 'w \<Rightarrow> 'i option poll \<times> 's \<times> 'w"

section \<open>Duplicates\<close>

text \<open>The elements of a list in first-occurrence order, each once.\<close>

fun first_occurrences :: "'a list \<Rightarrow> 'a list \<Rightarrow> 'a list" where
  "first_occurrences seen [] = []"
| "first_occurrences seen (x # xs) =
     (if x \<in> set seen then first_occurrences seen xs
      else x # first_occurrences (x # seen) xs)"

lemma set_first_occurrences: "set (first_occurrences seen xs) = set xs - set seen"
  by (induction seen xs rule: first_occurrences.induct) auto

lemma distinct_first_occurrences: "distinct (first_occurrences seen xs)"
  by (induction seen xs rule: first_occurrences.induct) (auto simp: set_first_occurrences)

end
