(* ===== verification/Errors.thy ===== *)
theory Errors
  imports Prelude
begin

text \<open>
  The error type of the crate (\<^verbatim>\<open>src/error.rs\<close>): every variant of \<^verbatim>\<open>Error\<close>, the
  constructor helpers that fill its fields, the \<^verbatim>\<open>Display\<close> text that is persisted when a row
  is quarantined, the hint attached to database errors, and the classification of errors that
  prove a rejected \<^verbatim>\<open>COMMIT\<close>. Errors of other crates (\<^verbatim>\<open>BoxDynError\<close>, pool errors,
  \<^verbatim>\<open>serde_json\<close> errors) are carried as their message.
\<close>

section \<open>Database errors as Diesel reports them\<close>

datatype db_kind =
    UniqueViolation | ForeignKeyViolation | UnableToSendCommand | SerializationFailure
  | ReadOnlyTransaction | RestrictViolation | NotNullViolation | CheckViolation
  | ExclusionViolation | ClosedConnection | UnknownKind

record db_info =
  message :: string
  table_name :: "string option"
  constraint_name :: "string option"

text \<open>\<open>OtherDiesel\<close> stands for the variants that carry no server report.\<close>

datatype diesel_error = DatabaseError db_kind db_info | OtherDiesel string

section \<open>The error enum\<close>

datatype error =
    SinkFailed
  | Database (operation: string) (database_source: diesel_error)
  | Pool string
  | Blocking string
  | ClaimOutcomeUnknown string error
  | Migration string
  | Row string
  | InvalidArgument string
  | IdempotencyConflict (conflict_job_type: string) (conflicting_keys: "string list")
      (conflict_total: nat)
  | Decode string
  | Json string
  | MissingField string
  | AlreadyRegistered string string
  | TaskNotFound string string string string
  | StaleAcknowledgement string string string
  | ClaimLost string string string
  | AlreadyAcknowledged string string string
  | WorkerNotRegistered string string string string
  | NotifyListener string
  | SinkBufferFull nat
  | PollStrategyExhausted string
  | WorkerRetired string

section \<open>Labels and helpers\<close>

text \<open>The label of errors that reach \<^verbatim>\<open>transaction()\<close> itself.\<close>

definition op_unlabeled :: string where
  "op_unlabeled = ''diesel transaction begin/commit/rollback (unlabeled '' @
     [CHR 0xE2, CHR 0x80, CHR 0x94] @ '' use map_err inside the closure)''"

definition error_from_diesel :: "diesel_error \<Rightarrow> error" where
  "error_from_diesel source = Database op_unlabeled source"

definition error_database :: "string \<Rightarrow> diesel_error \<Rightarrow> error" where
  "error_database op source = Database op source"

definition task_not_found :: "string \<Rightarrow> string \<Rightarrow> string option \<Rightarrow> string \<Rightarrow> error" where
  "task_not_found op task_id queue hint =
     TaskNotFound op task_id
       (case queue of Some q \<Rightarrow> q | None \<Rightarrow> ''<not constrained>'') hint"

definition stale_acknowledgement :: "string \<Rightarrow> string \<Rightarrow> string \<Rightarrow> error" where
  "stale_acknowledgement task_id queue worker_id = StaleAcknowledgement task_id queue worker_id"

definition claim_lost :: "string \<Rightarrow> string \<Rightarrow> string \<Rightarrow> error" where
  "claim_lost task_id queue worker_id = ClaimLost task_id queue worker_id"

definition already_acknowledged :: "string \<Rightarrow> string \<Rightarrow> string \<Rightarrow> error" where
  "already_acknowledged task_id queue worker_id = AlreadyAcknowledged task_id queue worker_id"

definition worker_not_registered :: "string \<Rightarrow> string \<Rightarrow> string \<Rightarrow> string \<Rightarrow> error" where
  "worker_not_registered op worker_id queue hint = WorkerNotRegistered op worker_id queue hint"

definition already_registered :: "string \<Rightarrow> string \<Rightarrow> error" where
  "already_registered worker_id queue = AlreadyRegistered worker_id queue"

definition idempotency_conflict :: "string \<Rightarrow> string list \<Rightarrow> nat \<Rightarrow> error" where
  "idempotency_conflict job_type keys n = IdempotencyConflict job_type keys n"

lemmas error_ctor_defs =
  error_from_diesel_def error_database_def task_not_found_def stale_acknowledgement_def
  claim_lost_def already_acknowledged_def worker_not_registered_def already_registered_def
  idempotency_conflict_def

section \<open>The hint of a database error\<close>

text \<open>\<^verbatim>\<open>str::contains\<close>.\<close>

fun contains :: "string \<Rightarrow> string \<Rightarrow> bool" where
  "contains [] pat = (pat = [])"
| "contains (c # cs) pat = (take (length pat) (c # cs) = pat \<or> contains cs pat)"

definition hint_register :: string where
  "hint_register = ''; register the worker for this queue before locking or acknowledging jobs''"

definition hint_setup :: string where
  "hint_setup = ''; run apalis_diesel_postgres::setup(&pool).await before using the storage''"

definition fk_names :: "string list" where
  "fk_names = [''jobs_lock_by_worker_type_fkey'', ''jobs_lock_by_fkey'']"

definition database_hint :: "diesel_error \<Rightarrow> string" where
  "database_hint e = (case e of
     DatabaseError k info \<Rightarrow>
       (let is_lock_by_fk = (case constraint_name info of Some n \<Rightarrow> n \<in> set fk_names | None \<Rightarrow> False);
            ruled_out = (case table_name info of Some n \<Rightarrow> n \<noteq> ''jobs'' | None \<Rightarrow> False);
            m = message info
        in if is_lock_by_fk \<and> \<not> ruled_out then hint_register
           else if contains m ''apalis.jobs'' \<and> (contains m ''does not exist'' \<or> contains m ''relation'')
             then hint_setup
           else if contains m ''foreign key'' \<or> contains m ''jobs_lock_by_worker_type_fkey''
                   \<or> contains m ''jobs_lock_by_fkey''
             then hint_register
           else '''')
   | OtherDiesel _ \<Rightarrow> '''')"

section \<open>Display\<close>

text \<open>
  The \<^verbatim>\<open>#[error(...)]\<close> texts. Parameters: \<open>dbg\<close> renders a list of keys with
  \<^verbatim>\<open>{:?}\<close>, \<open>dec\<close> a number in decimal, \<open>src\<close> a Diesel error.
\<close>

primrec error_display ::
    "(string list \<Rightarrow> string) \<Rightarrow> (nat \<Rightarrow> string) \<Rightarrow> (diesel_error \<Rightarrow> string) \<Rightarrow> error \<Rightarrow> string" where
  "error_display dbg dec src SinkFailed =
     ''the task sink previously failed to flush; use a fresh sink after reconciling the failed batch''"
| "error_display dbg dec src (Database op e) =
     ''database error while '' @ op @ '': '' @ src e @ database_hint e"
| "error_display dbg dec src (Pool m) =
     ''failed to acquire PostgreSQL connection from r2d2 pool: '' @ m @
     ''; check that DATABASE_URL points to a reachable PostgreSQL server and that the pool has enough connections''"
| "error_display dbg dec src (Blocking m) = ''blocking task failed: '' @ m"
| "error_display dbg dec src (ClaimOutcomeUnknown op e) =
     ''claim outcome is unknown while '' @ op @ '': '' @ error_display dbg dec src e @
     ''; retire this worker and allow orphan recovery before restarting with fresh storage''"
| "error_display dbg dec src (Migration m) = ''failed to run embedded migrations: '' @ m"
| "error_display dbg dec src (Row m) =
     ''failed to convert database row into an Apalis task: '' @ m"
| "error_display dbg dec src (InvalidArgument m) = ''invalid argument: '' @ m"
| "error_display dbg dec src (IdempotencyConflict jt keys n) =
     ''idempotency_key conflict in queue `'' @ jt @ ''`: keys '' @ dbg keys @
     '' collided with the unique constraint; '' @ dec n @
     '' task(s) in the batch were all rolled back''"
| "error_display dbg dec src (Decode m) =
     ''failed to decode task payload or result with the configured codec: '' @ m"
| "error_display dbg dec src (Json m) = ''json error: '' @ m"
| "error_display dbg dec src (MissingField f) =
     ''task metadata is missing required field `'' @ f @
     ''`; this usually means the task did not go through the expected poll/lock/ack lifecycle''"
| "error_display dbg dec src (AlreadyRegistered w q) =
     ''worker `'' @ w @ ''` is already registered for queue `'' @ q @
     ''`, or is being registered concurrently''"
| "error_display dbg dec src (TaskNotFound op t q h) =
     ''task not found while '' @ op @ '' (task_id: '' @ t @ '', queue: '' @ q @ ''); '' @ h"
| "error_display dbg dec src (StaleAcknowledgement t q w) =
     ''stale acknowledgement for task '' @ t @ '' in queue '' @ q @ '' by worker '' @ w @
     ''; the task no longer holds that claim: the same lock owner, attempt, and lock timestamp''"
| "error_display dbg dec src (ClaimLost t q w) =
     ''claim of task '' @ t @ '' in queue '' @ q @ '' by worker '' @ w @
     '' was lost before the task started; it was recovered or taken over and runs elsewhere''"
| "error_display dbg dec src (AlreadyAcknowledged t q w) =
     ''task '' @ t @ '' in queue '' @ q @ '' was already acknowledged by worker '' @ w @
     '' for its current claim; the database retry budget schedules any further attempt, so an in-process re-dispatch is refused''"
| "error_display dbg dec src (WorkerNotRegistered op w q h) =
     ''worker not registered while '' @ op @ '' (worker_id: '' @ w @ '', queue: '' @ q @ ''); '' @ h"
| "error_display dbg dec src (NotifyListener m) =
     ''PostgreSQL notification listener failed: '' @ m @
     ''; polling fallback can still fetch jobs, but LISTEN/NOTIFY wakeups are disabled until the stream is recreated''"
| "error_display dbg dec src (SinkBufferFull n) =
     ''sink buffer is full; call poll_ready before start_send (capacity: '' @ dec n @ '')''"
| "error_display dbg dec src (PollStrategyExhausted q) =
     ''polling strategy for queue `'' @ q @
     ''` ended; use with_poll_strategy_factory for independent workers or provide a fresh Config; no automatic polling is started''"
| "error_display dbg dec src (WorkerRetired w) =
     ''worker `'' @ w @
     ''` has retired its local lease; claims and heartbeats have stopped so orphan recovery can proceed; create fresh storage with a fresh Config or poll strategy factory to restart''"

declare error_display.simps [simp del]

section \<open>Classification of commit failures\<close>

text \<open>
  \<^verbatim>\<open>known_commit_rejection\<close> of \<^verbatim>\<open>src/queries/fetch.rs\<close>: the server rejection kinds that
  establish that a \<^verbatim>\<open>COMMIT\<close> was refused.
\<close>

definition rejection_kinds :: "db_kind list" where
  "rejection_kinds =
     [UniqueViolation, ForeignKeyViolation, SerializationFailure, ReadOnlyTransaction,
      NotNullViolation, CheckViolation, RestrictViolation, ExclusionViolation]"

fun known_commit_rejection :: "error \<Rightarrow> bool" where
  "known_commit_rejection (Database _ (DatabaseError kind _)) = (kind \<in> set rejection_kinds)"
| "known_commit_rejection _ = False"

definition claim_outcome :: "(error, 'a) result \<Rightarrow> bool \<Rightarrow> string \<Rightarrow> (error, 'a) result" where
  "claim_outcome result claimed op =
     (case result of
        Inl source \<Rightarrow>
          if claimed \<and> \<not> known_commit_rejection source then Inl (ClaimOutcomeUnknown op source)
          else Inl source
      | Inr x \<Rightarrow> Inr x)"

lemma claim_outcome_Inr [simp]: "claim_outcome (Inr x) c op = Inr x"
  by (simp add: claim_outcome_def)

lemma claim_outcome_eq_Inr: "claim_outcome r c op = Inr x \<longleftrightarrow> r = Inr x"
  by (cases r) (auto simp: claim_outcome_def)

lemma claim_outcome_unclaimed [simp]: "claim_outcome r False op = r"
  by (cases r) (auto simp: claim_outcome_def)

end
