(* ===== verification/Database.thy ===== *)
theory Database
  imports Errors "HOL-Library.Product_Lexorder" "HOL-Library.List_Lexorder" "HOL-Library.Char_ord"
begin

text \<open>
  The two tables the crate works on (\<^verbatim>\<open>src/schema.rs\<close>, \<^verbatim>\<open>src/models.rs\<close>) with the
  constraints of the final schema, and the execution model of SQL: a connection \<open>pg\<close> with
  the visible tables, the server clock, the rows other sessions hold locked, and a script of
  the environment's decisions (clock advance, statement failures, commit failures with unknown
  outcome, pool and executor failures). One transaction runs against one version of the tables:
  the row locks the statements take (\<^verbatim>\<open>FOR UPDATE\<close>, \<^verbatim>\<open>FOR KEY SHARE\<close>) serialise the
  transactions that touch the same rows, and \<^verbatim>\<open>SKIP LOCKED\<close> reads the locked rows from the
  connection. Within one statement the clock functions read one instant.
\<close>

section \<open>Rows\<close>

type_synonym compact = "8 word list"
type_synonym timestamp = int \<comment> \<open>microseconds since the Unix epoch\<close>

datatype status = Pending | Queued | Running | Done | Failed | Killed

datatype json = JNull | JBool bool | JNumber int | JString string | JArray "json list"
  | JObject "(string \<times> json) list"

text \<open>\<^verbatim>\<open>json!({ "Err": message })\<close>.\<close>

definition json_err :: "string \<Rightarrow> json" where
  "json_err m = JObject [(''Err'', JString m)]"

record job_row =
  j_job :: compact
  j_id :: string
  j_job_type :: string
  j_status :: status
  j_attempts :: int
  j_max_attempts :: int
  j_run_at :: timestamp
  j_last_result :: "json option"
  j_lock_at :: "timestamp option"
  j_lock_by :: "string option"
  j_done_at :: "timestamp option"
  j_priority :: int
  j_metadata :: "json option"
  j_idempotency_key :: "string option"

record worker_row =
  w_id :: string
  w_worker_type :: string
  w_storage_name :: string
  w_layers :: string
  w_last_seen :: timestamp
  w_started_at :: "timestamp option"
  w_lease_token :: "string option"

record db =
  jobs :: "job_row list"
  workers :: "worker_row list"

section \<open>Constraints of the schema\<close>

definition is_active :: "status \<Rightarrow> bool" where
  "is_active s \<longleftrightarrow> s = Queued \<or> s = Running"

lemma is_active_simps [simp]:
  "is_active Pending = False" "is_active Queued = True" "is_active Running = True"
  "is_active Done = False" "is_active Failed = False" "is_active Killed = False"
  by (simp_all add: is_active_def)

text \<open>
  The check constraints \<^verbatim>\<open>jobs_attempts_check\<close>, \<^verbatim>\<open>jobs_max_attempts_check\<close>,
  \<^verbatim>\<open>jobs_attempts_lte_max_attempts_check\<close>, \<^verbatim>\<open>jobs_priority_check\<close>,
  \<^verbatim>\<open>jobs_active_owner_check\<close>, \<^verbatim>\<open>jobs_state_shape_check\<close>, with the column types
  \<^verbatim>\<open>INTEGER\<close>.
\<close>

definition job_checks :: "job_row \<Rightarrow> bool" where
  "job_checks j \<longleftrightarrow>
     0 \<le> j_attempts j \<and> 0 < j_max_attempts j \<and> j_attempts j \<le> j_max_attempts j \<and>
     j_max_attempts j \<le> i32_max \<and> 0 \<le> j_priority j \<and> j_priority j \<le> i32_max \<and>
     (is_active (j_status j) \<longrightarrow> j_lock_by j \<noteq> None \<and> j_lock_at j \<noteq> None) \<and>
     (j_status j = Pending \<longrightarrow> j_lock_by j = None \<and> j_lock_at j = None)"

text \<open>The foreign key \<^verbatim>\<open>jobs_lock_by_worker_type_fkey\<close> (\<^verbatim>\<open>MATCH SIMPLE\<close>).\<close>

definition worker_key :: "worker_row \<Rightarrow> string \<times> string" where
  "worker_key w = (w_id w, w_worker_type w)"

definition job_fk :: "worker_row list \<Rightarrow> job_row \<Rightarrow> bool" where
  "job_fk ws j \<longleftrightarrow>
     (case j_lock_by j of None \<Rightarrow> True | Some w \<Rightarrow> (w, j_job_type j) \<in> set (map worker_key ws))"

text \<open>The partial unique index on \<^verbatim>\<open>(job_type, idempotency_key)\<close>.\<close>

definition idem_keys :: "job_row list \<Rightarrow> (string \<times> string option) list" where
  "idem_keys js = map (\<lambda>j. (j_job_type j, j_idempotency_key j))
                    (filter (\<lambda>j. j_idempotency_key j \<noteq> None) js)"

definition db_ok :: "db \<Rightarrow> bool" where
  "db_ok d \<longleftrightarrow>
     distinct (map j_id (jobs d)) \<and> distinct (map worker_key (workers d)) \<and>
     distinct (idem_keys (jobs d)) \<and>
     (\<forall>j \<in> set (jobs d). job_checks j \<and> job_fk (workers d) j)"

section \<open>Statements on the tables\<close>

text \<open>Constraint violations as the server reports them.\<close>

definition check_violation :: diesel_error where
  "check_violation = DatabaseError CheckViolation
     \<lparr>message = '''', table_name = Some ''jobs'', constraint_name = None\<rparr>"

definition fk_violation :: diesel_error where
  "fk_violation = DatabaseError ForeignKeyViolation
     \<lparr>message = '''', table_name = Some ''jobs'',
      constraint_name = Some ''jobs_lock_by_worker_type_fkey''\<rparr>"

definition unique_violation :: diesel_error where
  "unique_violation = DatabaseError UniqueViolation
     \<lparr>message = '''', table_name = Some ''jobs'', constraint_name = Some ''jobs_pkey''\<rparr>"

text \<open>
  \<^verbatim>\<open>UPDATE apalis.jobs SET f WHERE P\<close>: the new version of every matched row is checked; a
  violation fails the statement and changes nothing. No statement of the crate updates \<open>id\<close>,
  \<open>job_type\<close> or \<open>idempotency_key\<close>, so the unique indexes are not consulted.
\<close>

definition update_jobs ::
    "(job_row \<Rightarrow> bool) \<Rightarrow> (job_row \<Rightarrow> job_row) \<Rightarrow> db \<Rightarrow> (diesel_error, nat) result \<times> db" where
  "update_jobs P f d =
     (let new = map f (filter P (jobs d)) in
      if \<not> list_all job_checks new then (Inl check_violation, d)
      else if \<not> list_all (job_fk (workers d)) new then (Inl fk_violation, d)
      else (Inr (count_where P (jobs d)), d\<lparr>jobs := update_where P f (jobs d)\<rparr>))"

definition delete_jobs :: "(job_row \<Rightarrow> bool) \<Rightarrow> db \<Rightarrow> (diesel_error, nat) result \<times> db" where
  "delete_jobs P d =
     (Inr (count_where P (jobs d)), d\<lparr>jobs := delete_where P (jobs d)\<rparr>)"

definition update_workers ::
    "(worker_row \<Rightarrow> bool) \<Rightarrow> (worker_row \<Rightarrow> worker_row) \<Rightarrow> db \<Rightarrow> (diesel_error, nat) result \<times> db" where
  "update_workers P f d =
     (Inr (count_where P (workers d)), d\<lparr>workers := update_where P f (workers d)\<rparr>)"

text \<open>Deleting a registration that a job still names violates the foreign key.\<close>

definition delete_workers :: "(worker_row \<Rightarrow> bool) \<Rightarrow> db \<Rightarrow> (diesel_error, nat) result \<times> db" where
  "delete_workers P d =
     (if list_all (job_fk (delete_where P (workers d))) (jobs d)
      then (Inr (count_where P (workers d)), d\<lparr>workers := delete_where P (workers d)\<rparr>)
      else (Inl fk_violation, d))"

text \<open>\<^verbatim>\<open>INSERT INTO apalis.workers ... ON CONFLICT (id, worker_type) DO UPDATE SET f\<close>.\<close>

definition upsert_worker ::
    "worker_row \<Rightarrow> (worker_row \<Rightarrow> worker_row) \<Rightarrow> db \<Rightarrow> (diesel_error, nat) result \<times> db" where
  "upsert_worker w f d =
     (if worker_key w \<in> set (map worker_key (workers d))
      then (Inr 1, d\<lparr>workers := update_where (\<lambda>v. worker_key v = worker_key w) f (workers d)\<rparr>)
      else (Inr 1, d\<lparr>workers := workers d @ [w]\<rparr>))"

section \<open>Connections\<close>

text \<open>
  One decision of the environment for the next statement: how far the clock advanced, and
  whether the statement fails. A failure carries whether the server had applied the statement
  before the failure was reported (a lost connection after \<^verbatim>\<open>COMMIT\<close>).
\<close>

record step =
  step_tick :: nat
  step_fault :: "(diesel_error \<times> bool) option"

text \<open>
  One decision for the next \<^verbatim>\<open>with_conn\<close>: a connection is handed out, the pool refuses,
  or the executor loses the blocking task (before or after its closure ran).
\<close>

datatype pool_step = Checkout | NoConnection string | ExecutorLost string bool

text \<open>
  The connection, with two cells of process memory that operations write through it and that a
  rollback does not reset: the claimed flag of \<^verbatim>\<open>with_claim_conn\<close>, and the address of the
  next claim record.
\<close>

record pg =
  pg_db :: db
  pg_now :: timestamp
  pg_script :: "step list"
  pg_pool :: "pool_step list"
  pg_locked_jobs :: "string list"
  pg_locked_workers :: "(string \<times> string) list"
  pg_advisory_busy :: "(string \<times> string) list"
  pg_claimed :: bool
  pg_next_claim :: nat

type_synonym 'a sql = "pg \<Rightarrow> (error, 'a) result \<times> pg"
type_synonym 'a body = "pg \<Rightarrow> (diesel_error, 'a) result \<times> db"

definition next_step :: "pg \<Rightarrow> (diesel_error \<times> bool) option \<times> pg" where
  "next_step g = (case pg_script g of
     [] \<Rightarrow> (None, g)
   | s # rest \<Rightarrow> (step_fault s, g\<lparr>pg_now := pg_now g + int (step_tick s), pg_script := rest\<rparr>))"

text \<open>One statement, with the operation label of \<^verbatim>\<open>Error::database\<close>.\<close>

definition stmt :: "string \<Rightarrow> 'a body \<Rightarrow> 'a sql" where
  "stmt op body g =
     (let (fault, g1) = next_step g; (r, d) = body g1 in
      case fault of
        None \<Rightarrow> (case r of Inl e \<Rightarrow> (Inl (error_database op e), g1)
                        | Inr x \<Rightarrow> (Inr x, g1\<lparr>pg_db := d\<rparr>))
      | Some (e, applied) \<Rightarrow>
          (Inl (error_database op e),
           if applied \<and> (case r of Inl _ \<Rightarrow> False | Inr _ \<Rightarrow> True) then g1\<lparr>pg_db := d\<rparr> else g1))"

definition sreturn :: "'a \<Rightarrow> 'a sql" where
  "sreturn x g = (Inr x, g)"

definition sthrow :: "error \<Rightarrow> 'a sql" where
  "sthrow e g = (Inl e, g)"

definition sbind :: "'a sql \<Rightarrow> ('a \<Rightarrow> 'b sql) \<Rightarrow> 'b sql" where
  "sbind m f g = (case m g of (Inl e, g1) \<Rightarrow> (Inl e, g1) | (Inr x, g1) \<Rightarrow> f x g1)"

text \<open>
  \<^verbatim>\<open>conn.transaction(f)\<close>: \<^verbatim>\<open>BEGIN\<close> (or \<^verbatim>\<open>SAVEPOINT\<close>), the closure, then
  \<^verbatim>\<open>COMMIT\<close>. An error of the closure rolls the tables back. A failed \<^verbatim>\<open>COMMIT\<close>
  leaves the tables as the environment says it was applied or not.
\<close>

definition begin_txn :: "unit sql" where
  "begin_txn g = (case next_step g of
     (None, g1) \<Rightarrow> (Inr (), g1)
   | (Some (e, _), g1) \<Rightarrow> (Inl (error_from_diesel e), g1))"

definition transaction :: "'a sql \<Rightarrow> 'a sql" where
  "transaction f g = (case begin_txn g of
     (Inl e, g1) \<Rightarrow> (Inl e, g1)
   | (Inr _, g1) \<Rightarrow> (case f g1 of
       (Inl e, g2) \<Rightarrow> (Inl e, g2\<lparr>pg_db := pg_db g1\<rparr>)
     | (Inr x, g2) \<Rightarrow> (case next_step g2 of
         (None, g3) \<Rightarrow> (Inr x, g3)
       | (Some (e, applied), g3) \<Rightarrow>
           (Inl (error_from_diesel e), if applied then g3 else g3\<lparr>pg_db := pg_db g1\<rparr>))))"

text \<open>
  \<^verbatim>\<open>with_conn\<close> of \<^verbatim>\<open>src/queries/mod.rs\<close> over \<^verbatim>\<open>run_blocking\<close> of
  \<^verbatim>\<open>src/runtime.rs\<close>: check a connection out, run the closure on the blocking pool.
\<close>

definition with_conn :: "'a sql \<Rightarrow> 'a sql" where
  "with_conn work g = (case pg_pool g of
     [] \<Rightarrow> work g
   | Checkout # rest \<Rightarrow> work (g\<lparr>pg_pool := rest\<rparr>)
   | NoConnection m # rest \<Rightarrow> (Inl (Pool m), g\<lparr>pg_pool := rest\<rparr>)
   | ExecutorLost m finished # rest \<Rightarrow>
       (Inl (Blocking m),
        if finished then snd (work (g\<lparr>pg_pool := rest\<rparr>)) else g\<lparr>pg_pool := rest\<rparr>))"

text \<open>A connection on which nothing fails: every later step succeeds at the current instant.\<close>

definition quiet :: "pg \<Rightarrow> bool" where
  "quiet g \<longleftrightarrow> pg_script g = [] \<and> pg_pool g = []"

text \<open>
  PostgreSQL's contract for rejected commits, as \<^verbatim>\<open>known_commit_rejection\<close> relies on it: a
  step reported with one of those error kinds was not applied.
\<close>

definition script_ok :: "pg \<Rightarrow> bool" where
  "script_ok g \<longleftrightarrow>
     list_all (\<lambda>s. case step_fault s of
        Some (DatabaseError k _, applied) \<Rightarrow> k \<in> set rejection_kinds \<longrightarrow> \<not> applied
      | _ \<Rightarrow> True) (pg_script g)"

definition now_trunc :: "timestamp \<Rightarrow> timestamp" where
  "now_trunc t = (t div 1000000) * 1000000" \<comment> \<open>\<^verbatim>\<open>date_trunc('second', t)\<close>\<close>

definition to_timestamp :: "int \<Rightarrow> timestamp" where
  "to_timestamp secs = secs * 1000000"

text \<open>
  \<^verbatim>\<open>EXTRACT(EPOCH FROM (now - last_seen)) >= secs\<close>, with the window, a Rust
  \<^verbatim>\<open>Duration\<close>, in nanoseconds.
\<close>

type_synonym duration = nat

definition stale :: "timestamp \<Rightarrow> duration \<Rightarrow> timestamp \<Rightarrow> bool" where
  "stale now window last_seen \<longleftrightarrow> int window \<le> (now - last_seen) * 1000"

lemma stale_mono: "stale now w t \<Longrightarrow> now \<le> now' \<Longrightarrow> stale now' w t"
  by (simp add: stale_def)

end
