(* ===== verification/Contracts.thy ===== *)
theory Contracts
  imports Database "HOL-Library.Sublist"
begin

text \<open>
  Reasoning about the SQL execution model. The first part inverts successful runs: whatever the
  environment's script does, a statement, transaction or pooled call that returns a value ran
  its body on the caller's tables at some later instant. The second part is the contract shared
  by every operation of the crate, as a locale: a reflexive and transitive relation between the
  tables before and after, which the combinators of the execution model keep whenever each
  statement keeps it, rollbacks, unconfirmed commits and lost executors included.
\<close>

section \<open>Successful runs\<close>

text \<open>The same connection at a later instant: same tables, same foreign locks.\<close>

definition later :: "pg \<Rightarrow> pg \<Rightarrow> bool" where
  "later g g1 \<longleftrightarrow> pg_db g1 = pg_db g \<and> pg_locked_jobs g1 = pg_locked_jobs g \<and>
     pg_locked_workers g1 = pg_locked_workers g \<and> pg_advisory_busy g1 = pg_advisory_busy g \<and>
     pg_now g \<le> pg_now g1"

lemma later_refl [simp, intro!]: "later g g"
  by (simp add: later_def)

lemma later_trans [trans]: "later a b \<Longrightarrow> later b c \<Longrightarrow> later a c"
  by (simp add: later_def)

lemma laterD:
  assumes "later g g1"
  shows "pg_db g1 = pg_db g" "pg_locked_jobs g1 = pg_locked_jobs g"
    "pg_locked_workers g1 = pg_locked_workers g" "pg_advisory_busy g1 = pg_advisory_busy g"
    "pg_now g \<le> pg_now g1"
  using assms by (simp_all add: later_def)

lemma next_step_later: "next_step g = (r, g1) \<Longrightarrow> later g g1"
  by (auto simp: next_step_def later_def split: list.splits)

lemma next_step_quiet [simp]: "pg_script g = [] \<Longrightarrow> next_step g = (None, g)"
  by (simp add: next_step_def)

lemma stmt_InrE:
  assumes "stmt op body g = (Inr x, g')"
  obtains g1 d where "later g g1" "body g1 = (Inr x, d)" "g' = g1\<lparr>pg_db := d\<rparr>"
  using assms
  by (auto simp: stmt_def Let_def split: prod.splits option.splits sum.splits dest: next_step_later)

lemma stmt_InlE:
  assumes "stmt op body g = (Inl e, g')"
  obtains g1 de where "later g g1" "e = error_database op de"
    "pg_db g' = pg_db g \<or> (\<exists>x. body g1 = (Inr x, pg_db g'))"
  using assms
  by (auto simp: stmt_def Let_def split: prod.splits option.splits sum.splits if_splits
      dest: next_step_later simp: laterD)

lemma stmt_quiet:
  "pg_script g = [] \<Longrightarrow> stmt op body g = (case body g of
     (Inl e, d) \<Rightarrow> (Inl (error_database op e), g) | (Inr x, d) \<Rightarrow> (Inr x, g\<lparr>pg_db := d\<rparr>))"
  by (auto simp: stmt_def split: prod.splits sum.splits)

lemma begin_txn_Inr: "begin_txn g = (Inr u, g1) \<Longrightarrow> later g g1"
  by (auto simp: begin_txn_def split: prod.splits option.splits dest: next_step_later)

lemma begin_txn_Inl: "begin_txn g = (Inl e, g1) \<Longrightarrow> later g g1"
  by (auto simp: begin_txn_def split: prod.splits option.splits dest: next_step_later)

lemma transaction_InrE:
  assumes "transaction f g = (Inr x, g')"
  obtains g1 g2 where "later g g1" "f g1 = (Inr x, g2)" "pg_db g' = pg_db g2"
  using assms
  by (auto simp: transaction_def split: prod.splits sum.splits option.splits if_splits
      dest!: begin_txn_Inr next_step_later simp: laterD)

text \<open>A failed transaction left the tables alone, or its commit was applied unconfirmed.\<close>

lemma transaction_InlE:
  assumes "transaction f g = (Inl e, g')"
  obtains (unchanged) "pg_db g' = pg_db g"
  | (applied) g1 x g2 de where "later g g1" "f g1 = (Inr x, g2)" "pg_db g' = pg_db g2"
      "e = error_from_diesel de"
proof -
  consider (b) "begin_txn g = (Inl e, g')"
    | (f) g1 g2 where "begin_txn g = (Inr (), g1)" "f g1 = (Inl e, g2)" "g' = g2\<lparr>pg_db := pg_db g1\<rparr>"
    | (c) g1 g2 x de ap g3 where "begin_txn g = (Inr (), g1)" "f g1 = (Inr x, g2)"
        "next_step g2 = (Some (de, ap), g3)" "e = error_from_diesel de"
        "g' = (if ap then g3 else g3\<lparr>pg_db := pg_db g1\<rparr>)"
    using assms by (auto simp: transaction_def split: prod.splits sum.splits option.splits)
  then show thesis
  proof cases
    case b
    then show ?thesis using unchanged by (auto dest: begin_txn_Inl simp: laterD)
  next
    case f
    then show ?thesis using unchanged by (auto dest: begin_txn_Inr simp: laterD)
  next
    case c
    then have "later g g1" "pg_db g3 = pg_db g2"
      by (auto dest: begin_txn_Inr next_step_later simp: laterD)
    with c show ?thesis using applied unchanged by (cases ap) (auto simp: laterD)
  qed
qed

text \<open>An error that is not Diesel's own came from the closure, and everything was rolled back.\<close>

lemma transaction_closure_error:
  assumes "transaction f g = (Inl e, g')" and "\<And>de. e \<noteq> error_from_diesel de"
  obtains g1 g2 where "later g g1" "f g1 = (Inl e, g2)" "pg_db g' = pg_db g"
proof -
  from assms obtain g1 g2 where "begin_txn g = (Inr (), g1)" "f g1 = (Inl e, g2)" "g' = g2\<lparr>pg_db := pg_db g1\<rparr>"
    by (auto simp: transaction_def begin_txn_def split: prod.splits sum.splits option.splits)
  then show thesis using that [of g1 g2] laterD(1) [OF begin_txn_Inr [of g "()" g1]] begin_txn_Inr by auto
qed

lemma with_conn_InrE:
  assumes "with_conn f g = (Inr x, g')"
  obtains g1 where "later g g1" "f g1 = (Inr x, g')"
proof -
  from assms consider "f g = (Inr x, g')" | p where "f (g\<lparr>pg_pool := p\<rparr>) = (Inr x, g')"
    by (auto simp: with_conn_def split: list.splits pool_step.splits)
  then show thesis
    by cases (use that [of g] that [of "g\<lparr>pg_pool := p\<rparr>" for p] in \<open>auto simp: later_def\<close>)
qed

lemma conn_txn_InrE:
  assumes "with_conn (transaction f) g = (Inr x, g')"
  obtains g1 g2 where "later g g1" "f g1 = (Inr x, g2)" "pg_db g' = pg_db g2"
  using assms by (elim with_conn_InrE transaction_InrE) (blast intro: later_trans)

lemma with_conn_quiet [simp]: "pg_pool g = [] \<Longrightarrow> with_conn f g = f g"
  by (simp add: with_conn_def)

lemma transaction_quiet:
  "pg_script g = [] \<Longrightarrow> pg_script (snd (f g)) = [] \<Longrightarrow>
   transaction f g = (case f g of
     (Inl e, g2) \<Rightarrow> (Inl e, g2\<lparr>pg_db := pg_db g\<rparr>) | (Inr x, g2) \<Rightarrow> (Inr x, g2))"
  by (auto simp: transaction_def begin_txn_def split: prod.splits sum.splits)

lemma sbind_InrE:
  assumes "sbind m f g = (Inr y, g')"
  obtains x g1 where "m g = (Inr x, g1)" "f x g1 = (Inr y, g')"
  using assms by (auto simp: sbind_def split: prod.splits sum.splits)

lemma sbind_Inr [simp]: "m g = (Inr x, g1) \<Longrightarrow> sbind m f g = f x g1"
  by (simp add: sbind_def)

lemma sbind_Inl [simp]: "m g = (Inl e, g1) \<Longrightarrow> sbind m f g = (Inl e, g1)"
  by (simp add: sbind_def)

lemma sreturn_simps [simp]: "sreturn x g = (Inr x, g)"
  by (simp add: sreturn_def)

lemma sthrow_simps [simp]: "sthrow e g = (Inl e, g)"
  by (simp add: sthrow_def)

section \<open>The contract of database operations\<close>

definition ensures :: "(db \<Rightarrow> db \<Rightarrow> bool) \<Rightarrow> 'a sql \<Rightarrow> bool" where
  "ensures R f \<longleftrightarrow> (\<forall>g. R (pg_db g) (pg_db (snd (f g))))"

lemma ensuresD: "ensures R f \<Longrightarrow> R (pg_db g) (pg_db (snd (f g)))"
  by (simp add: ensures_def)

lemma ensuresD_run: "ensures R f \<Longrightarrow> f g = (r, g') \<Longrightarrow> R (pg_db g) (pg_db g')"
  by (metis ensuresD snd_conv)

locale db_relation =
  fixes R :: "db \<Rightarrow> db \<Rightarrow> bool"
  assumes refl: "R d d"
    and trans: "R a b \<Longrightarrow> R b c \<Longrightarrow> R a c"
begin

lemma ensures_sreturn: "ensures R (sreturn x)"
  by (simp add: ensures_def refl)

lemma ensures_sthrow: "ensures R (sthrow e)"
  by (simp add: ensures_def refl)

lemma stmt_at:
  assumes "\<And>g1 x d. later g g1 \<Longrightarrow> body g1 = (Inr x, d) \<Longrightarrow> R (pg_db g) d"
  shows "R (pg_db g) (pg_db (snd (stmt op body g)))"
proof -
  obtain r g' where run: "stmt op body g = (r, g')" by fastforce
  show ?thesis
  proof (cases r)
    case (Inl e)
    with run obtain g1 where "later g g1" "pg_db g' = pg_db g \<or> (\<exists>x. body g1 = (Inr x, pg_db g'))"
      by (auto elim: stmt_InlE)
    with run show ?thesis using assms refl by (metis snd_conv)
  next
    case (Inr x)
    with run obtain g1 d where "later g g1" "body g1 = (Inr x, d)" "g' = g1\<lparr>pg_db := d\<rparr>"
      by (auto elim: stmt_InrE)
    then show ?thesis using run assms by simp
  qed
qed

lemma ensures_stmt:
  assumes "\<And>g x d. body g = (Inr x, d) \<Longrightarrow> R (pg_db g) d"
  shows "ensures R (stmt op body)"
  unfolding ensures_def
proof
  show "R (pg_db g) (pg_db (snd (stmt op body g)))" for g
    by (rule stmt_at) (metis assms laterD(1))
qed

lemma ensures_sbind:
  assumes "ensures R m" and "\<And>x. ensures R (f x)"
  shows "ensures R (sbind m f)"
  unfolding ensures_def
proof
  fix g
  obtain r g1 where run: "m g = (r, g1)" by fastforce
  with assms(1) have 1: "R (pg_db g) (pg_db g1)" by (metis ensuresD_run)
  show "R (pg_db g) (pg_db (snd (sbind m f g)))"
  proof (cases r)
    case (Inl e)
    with run 1 show ?thesis by simp
  next
    case (Inr x)
    with run have "sbind m f g = f x g1" by simp
    with 1 assms(2) show ?thesis by (metis ensuresD trans)
  qed
qed

lemma ensures_transaction:
  assumes "ensures R f"
  shows "ensures R (transaction f)"
  unfolding ensures_def
proof
  fix g
  obtain r g' where run: "transaction f g = (r, g')" by fastforce
  have "R (pg_db g) (pg_db g')"
  proof (cases r)
    case (Inl e)
    with run have "transaction f g = (Inl e, g')" by simp
    then show ?thesis
      by (rule transaction_InlE) (use assms refl in \<open>metis ensuresD_run laterD(1)\<close>)+
  next
    case (Inr x)
    with run have "transaction f g = (Inr x, g')" by simp
    then show ?thesis
      by (rule transaction_InrE) (use assms in \<open>metis ensuresD_run laterD(1)\<close>)
  qed
  with run show "R (pg_db g) (pg_db (snd (transaction f g)))" by simp
qed

lemma ensures_with_conn:
  assumes "ensures R f"
  shows "ensures R (with_conn f)"
  unfolding ensures_def with_conn_def
proof
  fix g
  have "R (pg_db g) (pg_db (snd (f (g\<lparr>pg_pool := p\<rparr>))))" for p
    using ensuresD [OF assms, of "g\<lparr>pg_pool := p\<rparr>"] by simp
  moreover have "R (pg_db g) (pg_db (snd (f g)))"
    using ensuresD [OF assms] by simp
  ultimately show "R (pg_db g) (pg_db (snd (case pg_pool g of
       [] \<Rightarrow> f g
     | Checkout # rest \<Rightarrow> f (g\<lparr>pg_pool := rest\<rparr>)
     | NoConnection m # rest \<Rightarrow> (Inl (Pool m), g\<lparr>pg_pool := rest\<rparr>)
     | ExecutorLost m finished # rest \<Rightarrow> (Inl (Blocking m),
         if finished then snd (f (g\<lparr>pg_pool := rest\<rparr>)) else g\<lparr>pg_pool := rest\<rparr>))))"
    by (simp add: refl split: list.splits pool_step.splits)
qed

lemma ensures_if:
  "ensures R f \<Longrightarrow> ensures R h \<Longrightarrow> ensures R (\<lambda>g. if b g then f g else h g)"
  by (simp add: ensures_def)

lemma ensures_if_const: "ensures R f \<Longrightarrow> ensures R h \<Longrightarrow> ensures R (if b then f else h)"
  by simp

lemma ensures_case_option:
  "ensures R f \<Longrightarrow> (\<And>x. ensures R (h x)) \<Longrightarrow> ensures R (case opt of None \<Rightarrow> f | Some x \<Rightarrow> h x)"
  by (cases opt) simp_all

lemmas ensures_intros =
  ensures_sreturn ensures_sthrow ensures_sbind ensures_transaction ensures_with_conn
  ensures_if_const ensures_case_option

end

text \<open>Operations that only read.\<close>

interpretation same: db_relation "(=) :: db \<Rightarrow> db \<Rightarrow> bool"
  by unfold_locales auto

lemma select_same: "ensures (=) (stmt op (\<lambda>g. (Inr (f g), pg_db g)))"
  by (rule same.ensures_stmt) simp

section \<open>What every operation does to its connection\<close>

text \<open>
  The same combinators seen from the connection: a relation between connections that a consumed
  step, a table update and a consumed pool decision keep is kept by every operation built from
  them. Its instance below says that the clock never goes back, that an operation only consumes
  the environment's script and that the locks of other sessions stay as they are.
\<close>

definition keeps :: "(pg \<Rightarrow> pg \<Rightarrow> bool) \<Rightarrow> 'a sql \<Rightarrow> bool" where
  "keeps R f \<longleftrightarrow> (\<forall>g. R g (snd (f g)))"

lemma keepsD: "keeps R f \<Longrightarrow> R g (snd (f g))"
  by (simp add: keeps_def)

lemma keepsD_run: "keeps R f \<Longrightarrow> f g = (r, g') \<Longrightarrow> R g g'"
  by (metis keepsD snd_conv)

locale pg_relation =
  fixes R :: "pg \<Rightarrow> pg \<Rightarrow> bool"
  assumes refl: "R g g"
    and trans: "R a b \<Longrightarrow> R b c \<Longrightarrow> R a c"
    and step: "next_step g = (fault, g1) \<Longrightarrow> R g g1"
    and tables: "R g (g\<lparr>pg_db := d\<rparr>)"
    and pool: "pg_pool g = p # rest \<Longrightarrow> R g (g\<lparr>pg_pool := rest\<rparr>)"
begin

lemma keeps_sreturn: "keeps R (sreturn x)"
  by (simp add: keeps_def refl)

lemma keeps_sthrow: "keeps R (sthrow e)"
  by (simp add: keeps_def refl)

lemma keeps_stmt: "keeps R (stmt op body)"
  unfolding keeps_def stmt_def Let_def
  by (auto split: prod.splits sum.splits option.splits dest: step intro: trans tables)

lemma keeps_sbind:
  assumes "keeps R m" and "\<And>x. keeps R (f x)"
  shows "keeps R (sbind m f)"
  unfolding keeps_def
proof
  fix g
  obtain r g1 where m: "m g = (r, g1)" by fastforce
  then have "R g g1" using keepsD_run assms(1) by blast
  moreover have "R g1 (snd (f x g1))" for x using keepsD assms(2) by blast
  ultimately show "R g (snd (sbind m f g))"
    using m trans by (cases r) auto
qed

lemma keeps_transaction:
  assumes "keeps R f"
  shows "keeps R (transaction f)"
  unfolding keeps_def
proof
  fix g
  obtain r g1 where b: "begin_txn g = (r, g1)" by fastforce
  then have g1: "R g g1" by (auto simp: begin_txn_def split: prod.splits option.splits dest: step)
  obtain s g2 where f: "f g1 = (s, g2)" by fastforce
  with g1 assms have g2: "R g g2" using keepsD_run trans by blast
  obtain t g3 where c: "next_step g2 = (t, g3)" by fastforce
  with g2 have g3: "R g g3" using step trans by blast
  then have "R g (g2\<lparr>pg_db := d\<rparr>)" "R g (g3\<lparr>pg_db := d\<rparr>)" for d
    using g2 tables trans by blast+
  with g1 g2 g3 b f c show "R g (snd (transaction f g))"
    by (auto simp: transaction_def split: sum.splits option.splits)
qed

lemma keeps_with_conn:
  assumes "keeps R f"
  shows "keeps R (with_conn f)"
  unfolding keeps_def
proof
  fix g
  have "R g (snd (f (g\<lparr>pg_pool := rest\<rparr>)))" if "pg_pool g = p # rest" for p rest
    using pool [OF that] keepsD [OF assms] trans by blast
  then show "R g (snd (with_conn f g))"
    using keepsD [OF assms] by (auto simp: with_conn_def split: list.splits pool_step.splits dest: pool)
qed

lemma keeps_if_const: "keeps R f \<Longrightarrow> keeps R h \<Longrightarrow> keeps R (if b then f else h)"
  by simp

lemma keeps_case_option:
  "keeps R f \<Longrightarrow> (\<And>x. keeps R (h x)) \<Longrightarrow> keeps R (case opt of None \<Rightarrow> f | Some x \<Rightarrow> h x)"
  by (cases opt) simp_all

lemmas keeps_intros =
  keeps_sreturn keeps_sthrow keeps_stmt keeps_sbind keeps_transaction keeps_with_conn
  keeps_if_const keeps_case_option

end

text \<open>A connection further on: a later instant, a shorter script, the same foreign locks.\<close>

definition onward :: "pg \<Rightarrow> pg \<Rightarrow> bool" where
  "onward g g' \<longleftrightarrow> pg_now g \<le> pg_now g' \<and> suffix (pg_script g') (pg_script g) \<and>
     suffix (pg_pool g') (pg_pool g) \<and> pg_locked_jobs g' = pg_locked_jobs g \<and>
     pg_locked_workers g' = pg_locked_workers g \<and> pg_advisory_busy g' = pg_advisory_busy g"

lemma next_step_onward: "next_step g = (fault, g1) \<Longrightarrow> onward g g1"
  by (auto simp: next_step_def onward_def suffix_ConsI split: list.splits)

interpretation on: pg_relation onward
proof unfold_locales
  show "onward a b \<Longrightarrow> onward b c \<Longrightarrow> onward a c" for a b c
    by (auto simp: onward_def intro: suffix_order.trans)
qed (auto simp: next_step_onward, auto simp: onward_def suffix_ConsI)

lemma script_ok_onward: "onward g g' \<Longrightarrow> script_ok g \<Longrightarrow> script_ok g'"
  by (auto simp: onward_def script_ok_def suffix_def)

lemma quiet_onward: "onward g g' \<Longrightarrow> quiet g \<Longrightarrow> quiet g'"
  by (auto simp: onward_def quiet_def)

text \<open>
  A finished transaction in full: it left the tables alone, or its closure's effect stands and the
  fault of its \<^verbatim>\<open>COMMIT\<close>, if any, was reported after the commit was applied.
\<close>

lemma transaction_cases:
  assumes "transaction f g = (r, g')"
  obtains (aborted) e where "pg_db g' = pg_db g" "r = Inl e"
  | (committed) g1 x g2 flt where "later g g1" "onward g g1" "f g1 = (Inr x, g2)"
      "next_step g2 = (flt, g')"
      "flt = None \<and> r = Inr x \<or> (\<exists>e. flt = Some (e, True) \<and> r = Inl (error_from_diesel e))"
proof -
  obtain b g1 where b: "begin_txn g = (b, g1)" by fastforce
  then have g1: "later g g1" "onward g g1"
    by (auto simp: begin_txn_def split: prod.splits option.splits
        dest: next_step_later next_step_onward)
  obtain s g2 where f: "f g1 = (s, g2)" by fastforce
  obtain flt g3 where c: "next_step g2 = (flt, g3)" by fastforce
  show thesis
  proof (cases "(\<exists>u. b = Inr u) \<and> (\<exists>x. s = Inr x) \<and> (\<forall>e. flt \<noteq> Some (e, False))")
    case True
    then obtain x where x: "s = Inr x" by auto
    with True assms b f c have "g' = g3 \<and> (flt = None \<and> r = Inr x \<or>
        (\<exists>e. flt = Some (e, True) \<and> r = Inl (error_from_diesel e)))"
      by (auto simp: transaction_def split: option.splits if_splits)
    with g1 f x c show thesis using committed by blast
  next
    case False
    with assms b f c g1(1) have "pg_db g' = pg_db g \<and> (\<exists>e. r = Inl e)"
      by (auto simp: transaction_def laterD split: sum.splits option.splits if_splits)
    then show thesis using aborted by blast
  qed
qed

text \<open>A pooled transaction, however it ends: nothing happened, or its closure's effect stands.\<close>

lemma conn_txn_effect:
  "pg_db (snd (with_conn (transaction f) g)) = pg_db g \<or>
   (\<exists>g1 x g2. later g g1 \<and> f g1 = (Inr x, g2) \<and> pg_db (snd (with_conn (transaction f) g)) = pg_db g2 \<and>
     pg_now g2 \<le> pg_now (snd (with_conn (transaction f) g)))"
proof -
  have t: "pg_db (snd (transaction f h)) = pg_db g \<or>
      (\<exists>g1 x g2. later g g1 \<and> f g1 = (Inr x, g2) \<and> pg_db (snd (transaction f h)) = pg_db g2 \<and>
        pg_now g2 \<le> pg_now (snd (transaction f h)))" if "later g h" for h
  proof -
    obtain r h' where run: "transaction f h = (r, h')" by fastforce
    then show ?thesis
    proof (cases rule: transaction_cases)
      case (aborted e)
      then show ?thesis using run laterD(1) [OF that] by simp
    next
      case (committed g1 x g2 flt)
      have "later g g1" using that committed(1) by (rule later_trans)
      moreover have "pg_db h' = pg_db g2" "pg_now g2 \<le> pg_now h'" using laterD(1,5) [OF next_step_later [OF committed(4)]] .
      ultimately show ?thesis using run committed(3) by (metis snd_conv)
    qed
  qed
  have pool: "later g (g\<lparr>pg_pool := p\<rparr>)" for p by (simp add: later_def)
  show ?thesis
  proof (cases "pg_pool g")
    case Nil
    then show ?thesis using t [OF later_refl] by simp
  next
    case (Cons p rest)
    then show ?thesis using t [OF pool, of rest] by (cases p) (simp_all add: with_conn_def)
  qed
qed

text \<open>Under PostgreSQL's contract, a rejected commit was not applied.\<close>

lemma applied_not_rejected:
  assumes "script_ok g" and "next_step g = (Some (e, True), g')"
  shows "\<not> known_commit_rejection (error_from_diesel e)"
  using assms
  by (cases e) (auto simp: next_step_def script_ok_def error_from_diesel_def split: list.splits)

section \<open>Preservation of the schema's constraints\<close>

definition keeps_ok :: "db \<Rightarrow> db \<Rightarrow> bool" where
  "keeps_ok d d' \<longleftrightarrow> (db_ok d \<longrightarrow> db_ok d')"

interpretation ok: db_relation keeps_ok
  by unfold_locales (auto simp: keeps_ok_def)

lemma idem_keys_update_where:
  assumes "\<And>j. P j \<Longrightarrow> j_job_type (f j) = j_job_type j"
    and "\<And>j. P j \<Longrightarrow> j_idempotency_key (f j) = j_idempotency_key j"
  shows "idem_keys (update_where P f js) = idem_keys js"
  by (induction js) (auto simp: idem_keys_def assms)

lemma update_jobs_Inr:
  "update_jobs P f d = (Inr n, d') \<Longrightarrow>
   n = count_where P (jobs d) \<and> d' = d\<lparr>jobs := update_where P f (jobs d)\<rparr> \<and>
   (\<forall>j \<in> set (jobs d). P j \<longrightarrow> job_checks (f j) \<and> job_fk (workers d) (f j))"
  by (auto simp: update_jobs_def Let_def list_all_iff split: if_splits)

text \<open>An update that keeps the key columns keeps the constraints: the server checks the rest.\<close>

lemma update_jobs_ok:
  assumes "update_jobs P f d = (Inr n, d')"
    and "\<And>j. P j \<Longrightarrow> j_id (f j) = j_id j"
    and "\<And>j. P j \<Longrightarrow> j_job_type (f j) = j_job_type j"
    and "\<And>j. P j \<Longrightarrow> j_idempotency_key (f j) = j_idempotency_key j"
  shows "keeps_ok d d'"
proof -
  have d': "d' = d\<lparr>jobs := update_where P f (jobs d)\<rparr>"
    and new: "\<forall>j \<in> set (jobs d). P j \<longrightarrow> job_checks (f j) \<and> job_fk (workers d) (f j)"
    using assms(1) by (auto simp: update_jobs_def Let_def list_all_iff split: if_splits)
  show ?thesis
    unfolding keeps_ok_def db_ok_def d'
    by (auto simp: map_update_where assms(2) idem_keys_update_where assms(3,4)
        set_update_where new)
qed

lemma idem_keys_filter_distinct: "distinct (idem_keys js) \<Longrightarrow> distinct (idem_keys (filter P js))"
  by (induction js) (force simp: idem_keys_def)+

lemma delete_jobs_ok: "delete_jobs P d = (Inr n, d') \<Longrightarrow> keeps_ok d d'"
  by (auto simp: delete_jobs_def keeps_ok_def db_ok_def delete_where_def
      intro: distinct_map_filter_keep idem_keys_filter_distinct)

lemma job_fk_mono:
  "set (map worker_key ws) \<subseteq> set (map worker_key ws') \<Longrightarrow> job_fk ws j \<Longrightarrow> job_fk ws' j"
  unfolding job_fk_def by (auto split: option.splits simp del: set_map)

lemma update_workers_ok:
  assumes "update_workers P f d = (Inr n, d')" and "\<And>w. P w \<Longrightarrow> worker_key (f w) = worker_key w"
  shows "keeps_ok d d'"
  using assms(1)
  by (auto simp: update_workers_def keeps_ok_def db_ok_def map_update_where assms(2)
      job_fk_def split: option.splits simp del: set_map)

lemma delete_workers_ok: "delete_workers P d = (Inr n, d') \<Longrightarrow> keeps_ok d d'"
  by (auto simp: delete_workers_def keeps_ok_def db_ok_def delete_where_def list_all_iff
      intro: distinct_map_filter_keep split: if_splits)

lemma upsert_worker_ok:
  assumes "upsert_worker w f d = (Inr n, d')"
    and "\<And>v. worker_key v = worker_key w \<Longrightarrow> worker_key (f v) = worker_key v"
  shows "keeps_ok d d'"
proof (cases "worker_key w \<in> set (map worker_key (workers d))")
  case True
  then have "d' = d\<lparr>workers := update_where (\<lambda>v. worker_key v = worker_key w) f (workers d)\<rparr>"
    using assms(1) by (simp add: upsert_worker_def)
  then show ?thesis
    using assms(2) update_workers_ok [of "\<lambda>v. worker_key v = worker_key w" f d _ d']
    by (simp add: update_workers_def)
next
  case False
  then have "d' = d\<lparr>workers := workers d @ [w]\<rparr>"
    using assms(1) by (auto simp: upsert_worker_def)
  with False show ?thesis
    by (auto simp: keeps_ok_def db_ok_def intro: job_fk_mono [rotated])
qed

end
