(* ===== verification/Lifecycle.thy ===== *)
theory Lifecycle
  imports Contracts
begin

text \<open>
  The contract every operation of the worker protocol keeps (\<^verbatim>\<open>docs/lifecycle.md\<close>, sections
  2 and 3), stated once and used by each component: the schema's constraints, the completion
  time that follows the status, and the evolution of a task, whose identity and budget are fixed
  at enqueue, whose attempt count never decreases, which never leaves a terminal state and is
  never deleted. The same contract as an abstract specification is the board: what a task is to
  an observer who sees only its budget, its attempts and its holder, and the moves it can make.
\<close>

section \<open>States\<close>

definition is_terminal :: "status \<Rightarrow> bool" where
  "is_terminal s \<longleftrightarrow> s = Done \<or> s = Killed"

lemma is_terminal_simps [simp]:
  "is_terminal Pending = False" "is_terminal Queued = False" "is_terminal Running = False"
  "is_terminal Done = True" "is_terminal Failed = False" "is_terminal Killed = True"
  by (simp_all add: is_terminal_def)

text \<open>\<open>TERMINAL_PREDICATE\<close> of \<^verbatim>\<open>src/queries/mod.rs\<close>.\<close>

definition terminal_row :: "job_row \<Rightarrow> bool" where
  "terminal_row j \<longleftrightarrow>
     j_status j = Done \<or> j_status j = Killed \<or>
     (j_status j = Failed \<and> j_max_attempts j \<le> j_attempts j)"

text \<open>\<open>CLAIMABLE_PREDICATE\<close> of \<^verbatim>\<open>src/queries/fetch.rs\<close>.\<close>

definition claimable :: "job_row \<Rightarrow> bool" where
  "claimable j \<longleftrightarrow>
     (j_status j = Pending \<or> j_status j = Failed) \<and> j_attempts j < j_max_attempts j"

text \<open>The completion time a status implies, kept by every operation of the crate.\<close>

definition job_shape :: "job_row \<Rightarrow> bool" where
  "job_shape j \<longleftrightarrow>
     (j_status j = Pending \<or> is_active (j_status j) \<longrightarrow> j_done_at j = None) \<and>
     (is_terminal (j_status j) \<longrightarrow> j_done_at j \<noteq> None)"

definition db_inv :: "db \<Rightarrow> bool" where
  "db_inv d \<longleftrightarrow> db_ok d \<and> (\<forall>j \<in> set (jobs d). job_shape j)"

lemma db_inv_ok [dest]: "db_inv d \<Longrightarrow> db_ok d"
  by (simp add: db_inv_def)

lemma db_inv_job:
  "db_inv d \<Longrightarrow> j \<in> set (jobs d) \<Longrightarrow> job_checks j \<and> job_fk (workers d) j \<and> job_shape j"
  by (simp add: db_inv_def db_ok_def)

section \<open>Evolution of a task\<close>

definition same_task :: "job_row \<Rightarrow> job_row \<Rightarrow> bool" where
  "same_task j j' \<longleftrightarrow>
     j_id j' = j_id j \<and> j_job_type j' = j_job_type j \<and> j_job j' = j_job j \<and>
     j_max_attempts j' = j_max_attempts j \<and> j_run_at j' = j_run_at j \<and>
     j_priority j' = j_priority j \<and> j_metadata j' = j_metadata j \<and>
     j_idempotency_key j' = j_idempotency_key j"

section \<open>The board\<close>

datatype phase = Ready int | Held string int | Over int

definition phase :: "job_row \<Rightarrow> phase" where
  "phase j =
     (case j_lock_by j of
        Some w \<Rightarrow> if is_active (j_status j) then Held w (j_attempts j)
                  else if terminal_row j then Over (j_attempts j) else Ready (j_attempts j)
      | None \<Rightarrow> if terminal_row j then Over (j_attempts j) else Ready (j_attempts j))"

text \<open>
  The moves of a task with budget \<open>m\<close>. A hold is taken only while attempts are left, and it ends
  in one of four ways: handed back free of charge, handed back for one attempt when attempts remain,
  or finished, with or without the charge of one attempt.
\<close>

inductive move :: "int \<Rightarrow> phase \<Rightarrow> phase \<Rightarrow> bool" for m :: int where
  take: "n < m \<Longrightarrow> move m (Ready n) (Held w n)"
| hand_back: "n < m \<Longrightarrow> move m (Held w n) (Ready n)"
| charge: "n + 1 < m \<Longrightarrow> move m (Held w n) (Ready (n + 1))"
| finish: "n \<le> m \<Longrightarrow> move m (Held w n) (Over n)"
| finish_charged: "n + 1 \<le> m \<Longrightarrow> move m (Held w n) (Over (n + 1))"

inductive_cases move_OverE [elim!]: "move m (Over n) p"

text \<open>What an observer sees of one task id: nothing, or the budget and the phase.\<close>

inductive task_step :: "(int \<times> phase) option \<Rightarrow> (int \<times> phase) option \<Rightarrow> bool" where
  enqueue: "0 < m \<Longrightarrow> task_step None (Some (m, Ready 0))"
| progress: "move m p p' \<Longrightarrow> task_step (Some (m, p)) (Some (m, p'))"
| forget: "task_step (Some (m, Over n)) None"

definition board :: "db \<Rightarrow> string \<Rightarrow> (int \<times> phase) option" where
  "board d i = map_option (\<lambda>j. (j_max_attempts j, phase j)) (find (\<lambda>j. j_id j = i) (jobs d))"

definition follows :: "db \<Rightarrow> db \<Rightarrow> bool" where
  "follows d d' \<longleftrightarrow> (\<forall>i. task_step\<^sup>*\<^sup>* (board d i) (board d' i))"

lemma follows_refl [simp]: "follows d d"
  by (simp add: follows_def)

lemma follows_trans: "follows a b \<Longrightarrow> follows b c \<Longrightarrow> follows a c"
  unfolding follows_def by (meson rtranclp_trans)

lemma follows_same_jobs: "jobs d' = jobs d \<Longrightarrow> follows d d'"
  by (simp add: follows_def board_def)

lemma moves_steps: "(move m)\<^sup>*\<^sup>* p p' \<Longrightarrow> task_step\<^sup>*\<^sup>* (Some (m, p)) (Some (m, p'))"
  by (induction rule: rtranclp_induct) (auto intro: rtranclp.rtrancl_into_rtrancl task_step.progress)

lemma find_id_Some:
  "distinct (map j_id js) \<Longrightarrow> find (\<lambda>j. j_id j = i) js = Some j \<longleftrightarrow> j \<in> set js \<and> j_id j = i"
  by (induction js) (auto simp: image_iff)

lemma find_id_None: "find (\<lambda>j. j_id j = i) js = None \<longleftrightarrow> i \<notin> set (map j_id js)"
  by (auto simp: find_None_iff)

text \<open>The phases of the statements' rows.\<close>

lemma phase_active:
  "is_active (j_status j) \<Longrightarrow> j_lock_by j = Some w \<Longrightarrow> phase j = Held w (j_attempts j)"
  by (simp add: phase_def)

lemma phase_over:
  "terminal_row j \<Longrightarrow> phase j = Over (j_attempts j)"
  by (auto simp: phase_def terminal_row_def split: option.splits)

lemma phase_ready:
  "\<not> is_active (j_status j) \<Longrightarrow> \<not> terminal_row j \<Longrightarrow> phase j = Ready (j_attempts j)"
  by (auto simp: phase_def split: option.splits)

lemma claimable_phase: "claimable j \<Longrightarrow> phase j = Ready (j_attempts j)"
  by (rule phase_ready) (auto simp: claimable_def terminal_row_def)

text \<open>
  A hold ends: an active row becomes an inactive one with the same attempts or one more, and is
  terminal or has attempts left.
\<close>

lemma hold_ends:
  assumes j: "is_active (j_status j)" "job_checks j"
    and j': "\<not> is_active (j_status j')" "j_attempts j' = j_attempts j \<or> j_attempts j' = j_attempts j + 1"
      "job_checks j'" "j_max_attempts j' = j_max_attempts j"
      "j_status j' = Pending \<Longrightarrow> j_attempts j' < j_max_attempts j'"
  shows "(move (j_max_attempts j))\<^sup>*\<^sup>* (phase j) (phase j')"
proof -
  from j obtain w where "phase j = Held w (j_attempts j)" by (auto simp: job_checks_def phase_active)
  moreover have "j_attempts j' \<le> j_max_attempts j" using j' by (simp add: job_checks_def)
  moreover have "j_attempts j' < j_max_attempts j" if "\<not> terminal_row j'"
    using that j' by (cases "j_status j'") (auto simp: terminal_row_def)
  ultimately have "move (j_max_attempts j) (phase j) (phase j')"
    using j'(2) phase_over [of j'] phase_ready [OF j'(1)]
    by (cases "terminal_row j'") (auto intro: move.intros)
  then show ?thesis ..
qed

section \<open>The contract\<close>

definition job_evolves :: "job_row \<Rightarrow> job_row \<Rightarrow> bool" where
  "job_evolves j j' \<longleftrightarrow>
     same_task j j' \<and> j_attempts j \<le> j_attempts j' \<and> (is_terminal (j_status j) \<longrightarrow> j' = j) \<and>
     (move (j_max_attempts j))\<^sup>*\<^sup>* (phase j) (phase j')"

definition evolves :: "db \<Rightarrow> db \<Rightarrow> bool" where
  "evolves d d' \<longleftrightarrow> (\<forall>j \<in> set (jobs d). \<exists>j' \<in> set (jobs d'). job_evolves j j')"

lemma job_evolves_refl [simp]: "job_evolves j j"
  by (simp add: job_evolves_def same_task_def)

lemma job_evolves_trans: "job_evolves a b \<Longrightarrow> job_evolves b c \<Longrightarrow> job_evolves a c"
  by (auto simp: job_evolves_def same_task_def intro: rtranclp_trans)

lemma evolves_refl [simp]: "evolves d d"
  unfolding evolves_def by (auto intro!: bexI)

lemma evolves_trans: "evolves a b \<Longrightarrow> evolves b c \<Longrightarrow> evolves a c"
  unfolding evolves_def by (meson job_evolves_trans)

text \<open>Where every row evolves and every new row is a fresh pending one, the tables follow the board.\<close>

lemma evolves_follows:
  assumes inv: "db_inv d" "db_inv d'" and ev: "evolves d d'"
    and new: "\<And>j. j \<in> set (jobs d') \<Longrightarrow> j_id j \<notin> set (map j_id (jobs d)) \<Longrightarrow>
                j_status j = Pending \<and> j_attempts j = 0"
  shows "follows d d'"
  unfolding follows_def
proof
  fix i
  have dist: "distinct (map j_id (jobs d))" "distinct (map j_id (jobs d'))"
    using inv by (simp_all add: db_inv_def db_ok_def)
  show "task_step\<^sup>*\<^sup>* (board d i) (board d' i)"
  proof (cases "find (\<lambda>j. j_id j = i) (jobs d)")
    case (Some j)
    with dist(1) have j: "j \<in> set (jobs d)" "j_id j = i" by (simp_all add: find_id_Some)
    with ev obtain j' where j': "j' \<in> set (jobs d')" "job_evolves j j'" by (auto simp: evolves_def)
    with j have "find (\<lambda>j. j_id j = i) (jobs d') = Some j'"
      using dist(2) by (simp add: find_id_Some job_evolves_def same_task_def)
    with Some j'(2) show ?thesis
      by (auto simp: board_def job_evolves_def same_task_def intro: moves_steps)
  next
    case None
    show ?thesis
    proof (cases "find (\<lambda>j. j_id j = i) (jobs d')")
      case (Some j)
      with dist(2) have j: "j \<in> set (jobs d')" "j_id j = i" by (simp_all add: find_id_Some)
      with None have "j_status j = Pending \<and> j_attempts j = 0" using new [of j] by (simp add: find_id_None)
      moreover have "0 < j_max_attempts j" using db_inv_job [OF inv(2) j(1)] by (simp add: job_checks_def)
      ultimately have "task_step None (Some (j_max_attempts j, phase j))"
        by (simp add: phase_ready terminal_row_def task_step.enqueue)
      with None Some show ?thesis by (auto simp: board_def)
    qed (use None in \<open>simp add: board_def\<close>)
  qed
qed

text \<open>The contract of the worker protocol.\<close>

definition lifecycle :: "db \<Rightarrow> db \<Rightarrow> bool" where
  "lifecycle d d' \<longleftrightarrow> (db_inv d \<longrightarrow> db_inv d' \<and> evolves d d' \<and> follows d d')"

interpretation life: db_relation lifecycle
  by unfold_locales (auto simp: lifecycle_def intro: evolves_trans follows_trans)

text \<open>
  An update keeps the contract if each matched row evolves into a row of the right shape: the
  constraints themselves are checked by the statement.
\<close>

lemma update_jobs_lifecycle:
  assumes upd: "update_jobs P f d = (Inr n, d')"
    and row: "\<And>j. j \<in> set (jobs d) \<Longrightarrow> P j \<Longrightarrow> job_checks j \<Longrightarrow> job_shape j \<Longrightarrow>
                job_checks (f j) \<Longrightarrow> job_evolves j (f j) \<and> job_shape (f j)"
  shows "lifecycle d d'"
proof -
  have d': "d' = d\<lparr>jobs := update_where P f (jobs d)\<rparr>"
    using upd by (auto simp: update_jobs_def Let_def split: if_splits)
  define Q where "Q = (\<lambda>j. P j \<and> j \<in> set (jobs d) \<and> job_checks j \<and> job_shape j)"
  show ?thesis
    unfolding lifecycle_def
  proof (intro impI conjI)
    assume inv: "db_inv d"
    then have PQ: "\<And>j. j \<in> set (jobs d) \<Longrightarrow> P j \<Longrightarrow> job_evolves j (f j) \<and> job_shape (f j)"
      using row db_inv_job update_jobs_Inr [OF upd] by blast
    have eq: "update_where P f (jobs d) = update_where Q f (jobs d)"
      using inv by (auto simp: update_where_def Q_def dest: db_inv_job)
    have "update_jobs Q f d = (Inr n, d')"
    proof -
      have "filter P (jobs d) = filter Q (jobs d)"
        using inv by (auto simp: Q_def dest: db_inv_job intro!: filter_cong)
      then show ?thesis
        using upd eq by (simp add: update_jobs_def count_where_def Let_def split: if_splits)
    qed
    moreover have "j_id (f j) = j_id j \<and> j_job_type (f j) = j_job_type j \<and>
        j_idempotency_key (f j) = j_idempotency_key j" if "Q j" for j
      using that PQ by (auto simp: Q_def job_evolves_def same_task_def)
    ultimately have "db_ok d'"
      using inv update_jobs_ok [of Q f d n d'] by (auto simp: keeps_ok_def)
    moreover have "\<forall>j \<in> set (jobs d'). job_shape j"
      using inv PQ by (auto simp: d' set_update_where dest: db_inv_job)
    ultimately show inv': "db_inv d'" by (simp add: db_inv_def)
    show ev: "evolves d d'"
      unfolding evolves_def
    proof
      fix j assume "j \<in> set (jobs d)"
      then show "\<exists>j' \<in> set (jobs d'). job_evolves j j'"
        using PQ by (cases "P j") (auto simp: d' set_update_where intro!: bexI)
    qed
    have "map j_id (jobs d') = map j_id (jobs d)"
      using PQ by (auto simp: d' update_where_def job_evolves_def same_task_def)
    then have ids: "set (map j_id (jobs d')) = set (map j_id (jobs d))" by simp
    show "follows d d'"
      by (rule evolves_follows [OF inv inv' ev]) (use ids in auto)
  qed
qed

lemma lifecycle_same_jobs: "keeps_ok d d' \<Longrightarrow> jobs d' = jobs d \<Longrightarrow> lifecycle d d'"
  unfolding lifecycle_def keeps_ok_def db_inv_def evolves_def
  by (auto intro!: bexI follows_same_jobs)

lemma lifecycle_same_jobs_inv: "(db_ok d \<Longrightarrow> db_ok d' \<and> jobs d' = jobs d) \<Longrightarrow> lifecycle d d'"
  unfolding lifecycle_def db_inv_def evolves_def by (auto intro!: bexI follows_same_jobs)

lemma update_workers_lifecycle:
  assumes "update_workers P f d = (Inr n, d')" and "\<And>w. P w \<Longrightarrow> worker_key (f w) = worker_key w"
  shows "lifecycle d d'"
  using assms update_workers_ok lifecycle_same_jobs
  by (metis (no_types, lifting) Pair_inject db.select_convs(1) db.surjective db.update_convs(2)
      update_workers_def)

lemma upsert_worker_lifecycle:
  assumes "upsert_worker w f d = (Inr n, d')"
    and "\<And>v. worker_key v = worker_key w \<Longrightarrow> worker_key (f v) = worker_key v"
  shows "lifecycle d d'"
proof -
  have "jobs d' = jobs d"
    using assms(1) by (auto simp: upsert_worker_def split: if_splits)
  then show ?thesis
    using upsert_worker_ok [OF assms] by (rule lifecycle_same_jobs [rotated])
qed

end
