(* ===== verification/Workers.thy ===== *)
theory Workers
  imports Lifecycle
begin

text \<open>
  Worker registrations (\<^verbatim>\<open>src/queries/worker.rs\<close>): the ownership check every claim makes, the
  recovery of a worker's claims by the sweep, a takeover or a release, registration under the
  advisory lock, and the heartbeat. The lemmas show what each operation does to the two tables
  on every branch.
\<close>

section \<open>Configuration\<close>

text \<open>
  The values of \<^verbatim>\<open>apalis_sql::Config\<close> and \<^verbatim>\<open>WorkerContext\<close> that the crate reads.
  Durations are nanoseconds.
\<close>

record config =
  c_queue :: string
  c_buffer_size :: nat
  c_keep_alive :: duration
  c_reenqueue_orphaned_after :: duration
  c_ack :: bool

record worker_ctx =
  wc_name :: string
  wc_service :: string

definition REENQUEUE_ORPHANED_BATCH_LIMIT :: nat where
  "REENQUEUE_ORPHANED_BATCH_LIMIT = 1000"

section \<open>Ownership of a registration\<close>

datatype registration = Absent | Replaced | Current

definition find_worker :: "string \<Rightarrow> string \<Rightarrow> db \<Rightarrow> worker_row option" where
  "find_worker worker queue d = find (\<lambda>w. worker_key w = (worker, queue)) (workers d)"

definition worker_registration :: "string \<Rightarrow> string \<Rightarrow> string option \<Rightarrow> registration sql" where
  "worker_registration worker queue token =
     stmt ''checking worker registration'' (\<lambda>g.
       (Inr (case find_worker worker queue (pg_db g) of
               None \<Rightarrow> Absent
             | Some held \<Rightarrow>
                 if token = None \<or> w_lease_token held = token then Current else Replaced),
        pg_db g))"

definition lock_current_worker :: "string \<Rightarrow> string \<Rightarrow> string option \<Rightarrow> bool sql" where
  "lock_current_worker worker queue token =
     sbind (worker_registration worker queue token) (\<lambda>r. sreturn (r = Current))"

section \<open>Recovery of claims\<close>

datatype recovery = StaleSweep | Takeover | Release

definition charges_unstarted :: "recovery \<Rightarrow> bool" where
  "charges_unstarted r \<longleftrightarrow> r \<noteq> Release"

definition recovery_result :: "recovery \<Rightarrow> json" where
  "recovery_result r = json_err (case r of
     StaleSweep \<Rightarrow> ''Re-enqueued due to worker heartbeat timeout.''
   | Takeover \<Rightarrow> ''Re-enqueued due to worker heartbeat timeout.''
   | Release \<Rightarrow> ''Re-enqueued because the worker released its registration.'')"

definition owned_by :: "string \<Rightarrow> string list \<Rightarrow> job_row \<Rightarrow> bool" where
  "owned_by queue ws j \<longleftrightarrow>
     j_job_type j = queue \<and> (case j_lock_by j of None \<Rightarrow> False | Some w \<Rightarrow> w \<in> set ws) \<and>
     is_active (j_status j)"

text \<open>The materialised \<^verbatim>\<open>candidates\<close> of the recovery statement.\<close>

definition recover_candidates :: "recovery \<Rightarrow> string \<Rightarrow> string list \<Rightarrow> pg \<Rightarrow> job_row list" where
  "recover_candidates r queue ws g =
     (let rows = sort_key j_id (filter (owned_by queue ws) (jobs (pg_db g))) in
      if r = StaleSweep
      then take REENQUEUE_ORPHANED_BATCH_LIMIT (filter (\<lambda>j. j_id j \<notin> set (pg_locked_jobs g)) rows)
      else rows)"

definition charged :: "recovery \<Rightarrow> job_row \<Rightarrow> bool" where
  "charged r j \<longleftrightarrow> j_status j = Running \<or> charges_unstarted r"

definition next_attempts :: "recovery \<Rightarrow> job_row \<Rightarrow> int" where
  "next_attempts r j =
     (if charged r j then min (j_attempts j + 1) (j_max_attempts j) else j_attempts j)"

definition recovered_row :: "recovery \<Rightarrow> timestamp \<Rightarrow> job_row \<Rightarrow> job_row" where
  "recovered_row r now j =
     (let n = next_attempts r j; exhausted = (j_max_attempts j \<le> n) in
      j\<lparr>j_status := if exhausted then Killed else Pending,
        j_done_at := if exhausted then Some now else None,
        j_lock_by := None, j_lock_at := None, j_attempts := n,
        j_last_result := if exhausted \<or> (charged r j \<and> j_last_result j = None)
                         then Some (recovery_result r) else j_last_result j\<rparr>)"

definition recover_owned :: "string \<Rightarrow> string list \<Rightarrow> recovery \<Rightarrow> nat sql" where
  "recover_owned queue ws r =
     (if ws = [] then sreturn 0
      else stmt ''re-enqueueing orphaned jobs'' (\<lambda>g.
        let ids = map j_id (recover_candidates r queue ws g) in
        update_jobs (\<lambda>j. is_active (j_status j) \<and> j_id j \<in> set ids)
                    (recovered_row r (pg_now g)) (pg_db g)))"

section \<open>Release\<close>

definition hint_release :: string where
  "hint_release = ''the registration is absent, has no lease token, or is owned by another storage; nothing was released''"

definition owns :: "string \<Rightarrow> string \<Rightarrow> string \<Rightarrow> worker_row \<Rightarrow> bool" where
  "owns worker queue token w \<longleftrightarrow> worker_key w = (worker, queue) \<and> w_lease_token w = Some token"

definition release_worker_blocking :: "string \<Rightarrow> string \<Rightarrow> string \<Rightarrow> nat sql" where
  "release_worker_blocking queue worker token = transaction (
     sbind (stmt ''locking the worker registration for release''
              (\<lambda>g. (Inr (filter (owns worker queue token) (workers (pg_db g))), pg_db g)))
     (\<lambda>owned. if owned = []
        then sthrow (worker_not_registered ''releasing worker registration'' worker queue hint_release)
        else sbind (recover_owned queue [worker] Release)
        (\<lambda>recovered. sbind (stmt ''releasing worker registration''
            (\<lambda>g. update_workers (\<lambda>w. worker_key w = (worker, queue))
                   (\<lambda>w. w\<lparr>w_lease_token := None, w_last_seen := to_timestamp 0\<rparr>) (pg_db g)))
          (\<lambda>_. sreturn recovered))))"

definition release_worker :: "config \<Rightarrow> string \<Rightarrow> string \<Rightarrow> nat sql" where
  "release_worker cfg worker token =
     with_conn (release_worker_blocking (c_queue cfg) worker token)"

section \<open>Liveness of the heartbeat schedule\<close>

definition msg_keep_alive_zero :: string where
  "msg_keep_alive_zero = ''keep_alive must be greater than zero: a zero interval renews the heartbeat in a busy loop''"

definition msg_keep_alive_long :: string where
  "msg_keep_alive_long = ''keep_alive must be shorter than reenqueue_orphaned_after''"

definition validate_liveness :: "config \<Rightarrow> (error, unit) result" where
  "validate_liveness cfg =
     (if c_keep_alive cfg = 0 then Inl (InvalidArgument msg_keep_alive_zero)
      else if c_reenqueue_orphaned_after cfg \<le> c_keep_alive cfg
        then Inl (InvalidArgument msg_keep_alive_long)
      else Inr ())"

section \<open>The sweep\<close>

text \<open>Stale registrations of the queue that still own active claims.\<close>

definition orphaned_worker :: "config \<Rightarrow> pg \<Rightarrow> worker_row \<Rightarrow> bool" where
  "orphaned_worker cfg g w \<longleftrightarrow>
     w_worker_type w = c_queue cfg \<and>
     stale (pg_now g) (c_reenqueue_orphaned_after cfg) (w_last_seen w) \<and>
     list_ex (owned_by (w_worker_type w) [w_id w]) (jobs (pg_db g))"

definition orphaned_workers :: "config \<Rightarrow> pg \<Rightarrow> string list" where
  "orphaned_workers cfg g =
     take REENQUEUE_ORPHANED_BATCH_LIMIT
       (sort (map w_id (filter (\<lambda>w. orphaned_worker cfg g w \<and>
                                     worker_key w \<notin> set (pg_locked_workers g))
                               (workers (pg_db g)))))"

definition reenqueue_orphaned_blocking :: "config \<Rightarrow> nat sql" where
  "reenqueue_orphaned_blocking cfg = transaction (
     sbind (stmt ''locking orphaned workers'' (\<lambda>g. (Inr (orphaned_workers cfg g), pg_db g)))
     (\<lambda>ws. recover_owned (c_queue cfg) ws StaleSweep))"

definition reenqueue_orphaned :: "config \<Rightarrow> nat sql" where
  "reenqueue_orphaned cfg = with_conn (reenqueue_orphaned_blocking cfg)"

section \<open>Registration\<close>

text \<open>\<^verbatim>\<open>RegistrationDecision\<close>: may the caller register, and was the previous registration lost?\<close>

definition registration_decision ::
    "timestamp \<Rightarrow> duration \<Rightarrow> string \<Rightarrow> worker_row \<Rightarrow> bool \<times> bool" where
  "registration_decision now stale_after token w =
     (let same = (w_lease_token w = Some token); old = stale now stale_after (w_last_seen w)
      in (same \<or> old, \<not> same \<or> old))"

text \<open>The row the registration inserts, and the \<^verbatim>\<open>ON CONFLICT\<close> update of an existing one.\<close>

definition registration_row :: "string \<Rightarrow> worker_ctx \<Rightarrow> string \<Rightarrow> string \<Rightarrow> timestamp \<Rightarrow> worker_row" where
  "registration_row worker_type worker storage_name token now =
     \<lparr>w_id = wc_name worker, w_worker_type = worker_type, w_storage_name = storage_name,
      w_layers = wc_service worker, w_last_seen = now, w_started_at = Some now,
      w_lease_token = Some token\<rparr>"

definition renewed_row :: "worker_ctx \<Rightarrow> string \<Rightarrow> string \<Rightarrow> timestamp \<Rightarrow> worker_row \<Rightarrow> worker_row" where
  "renewed_row worker storage_name token now w =
     w\<lparr>w_storage_name := storage_name, w_layers := wc_service worker,
       w_last_seen := now, w_lease_token := Some token\<rparr>"

text \<open>The branch on the incumbent: refuse, recover its claims, or leave them.\<close>

definition settle_incumbent :: "string \<Rightarrow> string \<Rightarrow> (bool \<times> bool) option \<Rightarrow> nat sql" where
  "settle_incumbent name worker_type existing =
     (case existing of
        None \<Rightarrow> sreturn 0
      | Some decision \<Rightarrow>
          if \<not> fst decision then sthrow (already_registered name worker_type)
          else if snd decision then recover_owned worker_type [name] Takeover
          else sreturn 0)"

definition register_worker_blocking ::
    "string \<Rightarrow> worker_ctx \<Rightarrow> string \<Rightarrow> string \<Rightarrow> duration \<Rightarrow> unit sql" where
  "register_worker_blocking worker_type worker storage_name token stale_after = transaction (
     sbind (stmt ''locking worker registration''
              (\<lambda>g. (Inr ((wc_name worker, worker_type) \<notin> set (pg_advisory_busy g)), pg_db g)))
     (\<lambda>acquired. if \<not> acquired then sthrow (already_registered (wc_name worker) worker_type)
      else sbind (stmt ''checking worker registration'' (\<lambda>g.
              (Inr (map_option (registration_decision (pg_now g) stale_after token)
                      (find_worker (wc_name worker) worker_type (pg_db g))), pg_db g)))
      (\<lambda>existing. sbind (settle_incumbent (wc_name worker) worker_type existing)
      (\<lambda>_. sbind (stmt ''registering worker'' (\<lambda>g.
              upsert_worker (registration_row worker_type worker storage_name token (pg_now g))
                (renewed_row worker storage_name token (pg_now g)) (pg_db g)))
        (\<lambda>_. sreturn ())))))"

definition initial_heartbeat :: "config \<Rightarrow> worker_ctx \<Rightarrow> string \<Rightarrow> string \<Rightarrow> unit sql" where
  "initial_heartbeat cfg worker storage_name token g =
     (case validate_liveness cfg of
        Inl e \<Rightarrow> (Inl e, g)
      | Inr _ \<Rightarrow> with_conn (sbind (reenqueue_orphaned_blocking cfg)
          (\<lambda>_. register_worker_blocking (c_queue cfg) worker storage_name token
                 (c_reenqueue_orphaned_after cfg))) g)"

section \<open>Heartbeat\<close>

definition hint_heartbeat :: string where
  "hint_heartbeat = ''the worker may not be registered for this queue, or another process has re-registered with a different lease token; recreate the worker stream''"

definition heartbeat_outcome :: "nat \<Rightarrow> worker_ctx \<Rightarrow> string \<Rightarrow> (error, unit) result" where
  "heartbeat_outcome updated_rows worker queue =
     (if updated_rows = 0
      then Inl (worker_not_registered ''updating worker heartbeat'' (wc_name worker) queue hint_heartbeat)
      else Inr ())"

definition keep_alive_blocking :: "config \<Rightarrow> worker_ctx \<Rightarrow> string \<Rightarrow> unit sql" where
  "keep_alive_blocking cfg worker token =
     sbind (stmt ''updating worker heartbeat'' (\<lambda>g.
              update_workers (owns (wc_name worker) (c_queue cfg) token)
                (\<lambda>w. w\<lparr>w_last_seen := pg_now g\<rparr>) (pg_db g)))
     (\<lambda>count g. (heartbeat_outcome count worker (c_queue cfg), g))"

definition keep_alive :: "config \<Rightarrow> worker_ctx \<Rightarrow> string \<Rightarrow> unit sql" where
  "keep_alive cfg worker token = with_conn (keep_alive_blocking cfg worker token)"

section \<open>Lookup\<close>

lemma find_worker_Some:
  "find_worker w q d = Some r \<Longrightarrow> r \<in> set (workers d) \<and> worker_key r = (w, q)"
  unfolding find_worker_def by (auto simp: find_Some_iff)

lemma find_worker_None: "find_worker w q d = None \<longleftrightarrow> (w, q) \<notin> set (map worker_key (workers d))"
  unfolding find_worker_def by (force simp: find_None_iff)

lemma find_worker_eq:
  "db_ok d \<Longrightarrow> r \<in> set (workers d) \<Longrightarrow> worker_key r = (w, q) \<Longrightarrow> find_worker w q d = Some r"
  by (metis db_ok_def distinct_key_unique find_worker_None find_worker_Some image_eqI
      not_None_eq set_map)

lemma worker_registration_InrE:
  assumes "worker_registration w q t g = (Inr r, g')"
  obtains g1 where "later g g1" "g' = g1"
    "r = (case find_worker w q (pg_db g) of None \<Rightarrow> Absent
          | Some held \<Rightarrow> if t = None \<or> w_lease_token held = t then Current else Replaced)"
  using assms unfolding worker_registration_def
proof (elim stmt_InrE)
  fix g1 d
  assume *: "later g g1" "g' = g1\<lparr>pg_db := d\<rparr>"
    "(Inr (case find_worker w q (pg_db g1) of None \<Rightarrow> Absent
       | Some held \<Rightarrow> if t = None \<or> w_lease_token held = t then Current else Replaced), pg_db g1)
     = (Inr r, d)"
  then show thesis using laterD(1) [OF *(1)] by (intro that [of g1]) auto
qed

section \<open>Recovery\<close>

lemma recover_candidates_sub: "set (recover_candidates r q ws g) \<subseteq> {j \<in> set (jobs (pg_db g)). owned_by q ws j}"
  by (auto simp: recover_candidates_def Let_def dest: in_set_takeD)

lemma recover_candidates_all:
  "r \<noteq> StaleSweep \<Longrightarrow> set (recover_candidates r q ws g) = {j \<in> set (jobs (pg_db g)). owned_by q ws j}"
  by (auto simp: recover_candidates_def)

lemma recover_candidates_bounded:
  "length (recover_candidates StaleSweep q ws g) \<le> REENQUEUE_ORPHANED_BATCH_LIMIT"
  by (simp add: recover_candidates_def Let_def)

text \<open>With unique ids, the \<^verbatim>\<open>WHERE\<close> clause of the update selects exactly the candidates.\<close>

lemma recover_where_iff:
  assumes "distinct (map j_id (jobs (pg_db g)))" and "j \<in> set (jobs (pg_db g))"
  shows "is_active (j_status j) \<and> j_id j \<in> set (map j_id (recover_candidates r q ws g)) \<longleftrightarrow>
         j \<in> set (recover_candidates r q ws g)"
  using assms recover_candidates_sub [of r q ws g]
  by (fastforce simp: owned_by_def dest: distinct_key_unique)

lemma recover_owned_InrE:
  assumes "recover_owned q ws r g = (Inr n, g')" and "db_ok (pg_db g)" and "ws \<noteq> []"
  obtains g1 where "later g g1"
    "pg_db g' = (pg_db g)\<lparr>jobs := update_where (\<lambda>j. j \<in> set (recover_candidates r q ws g1))
                           (recovered_row r (pg_now g1)) (jobs (pg_db g))\<rparr>"
    "n = count_where (\<lambda>j. j \<in> set (recover_candidates r q ws g1)) (jobs (pg_db g))"
    "later (g\<lparr>pg_db := pg_db g'\<rparr>) g'" "pg_now g' = pg_now g1"
proof -
  let ?P = "\<lambda>g1 j. is_active (j_status j) \<and> j_id j \<in> set (map j_id (recover_candidates r q ws g1))"
  from assms(1,3) obtain g1 d where g1: "later g g1" "g' = g1\<lparr>pg_db := d\<rparr>"
    and upd0: "update_jobs (?P g1) (recovered_row r (pg_now g1)) (pg_db g1) = (Inr n, d)"
    unfolding recover_owned_def by (auto simp: Let_def elim!: stmt_InrE)
  then have upd: "update_jobs (?P g1) (recovered_row r (pg_now g1)) (pg_db g1) = (Inr n, pg_db g')"
    by simp
  have iff: "\<forall>j \<in> set (jobs (pg_db g)). ?P g1 j \<longleftrightarrow> j \<in> set (recover_candidates r q ws g1)"
    using recover_where_iff [of g1] assms(2) g1(1) by (auto simp: db_ok_def laterD)
  show ?thesis
  proof (rule that [OF g1(1)])
    show "later (g\<lparr>pg_db := pg_db g'\<rparr>) g'" "pg_now g' = pg_now g1" using g1 by (auto simp: later_def)
    have db: "pg_db g1 = pg_db g" by (rule laterD(1) [OF g1(1)])
    have upd': "n = count_where (?P g1) (jobs (pg_db g))"
      "pg_db g' = (pg_db g)\<lparr>jobs := update_where (?P g1) (recovered_row r (pg_now g1)) (jobs (pg_db g))\<rparr>"
      using update_jobs_Inr [OF upd] unfolding db by blast+
    show "pg_db g' = (pg_db g)\<lparr>jobs := update_where (\<lambda>j. j \<in> set (recover_candidates r q ws g1))
                           (recovered_row r (pg_now g1)) (jobs (pg_db g))\<rparr>"
      unfolding upd'(2) by (rule arg_cong, rule update_where_cong) (rule iff [rule_format])
    show "n = count_where (\<lambda>j. j \<in> set (recover_candidates r q ws g1)) (jobs (pg_db g))"
      unfolding upd'(1) by (rule count_where_cong) (rule iff [rule_format])
  qed
qed

lemma recovered_row_not_active [simp]: "\<not> is_active (j_status (recovered_row r now j))"
  by (simp add: recovered_row_def Let_def)

lemma recovered_row_evolves:
  assumes "job_checks j" and "is_active (j_status j)" and "job_checks (recovered_row r now j)"
  shows "job_evolves j (recovered_row r now j) \<and> job_shape (recovered_row r now j)"
proof -
  have "\<not> is_terminal (j_status j)"
    using assms(2) by (cases "j_status j") auto
  moreover have "(move (j_max_attempts j))\<^sup>*\<^sup>* (phase j) (phase (recovered_row r now j))"
    by (rule hold_ends [OF assms(2,1) _ _ assms(3)])
       (use assms(1) in \<open>auto simp: recovered_row_def next_attempts_def job_checks_def Let_def split: if_splits\<close>)
  ultimately show ?thesis
    using assms(1)
    by (auto simp: job_evolves_def same_task_def job_shape_def recovered_row_def
        next_attempts_def job_checks_def Let_def)
qed

lemma recover_owned_lifecycle: "ensures lifecycle (recover_owned q ws r)"
  unfolding recover_owned_def Let_def
proof (intro life.ensures_if_const life.ensures_sreturn life.ensures_stmt)
  fix g n d
  assume "update_jobs (\<lambda>j. is_active (j_status j) \<and>
      j_id j \<in> set (map j_id (recover_candidates r q ws g))) (recovered_row r (pg_now g)) (pg_db g)
    = (Inr n, d)"
  then show "lifecycle (pg_db g) d"
    by (rule update_jobs_lifecycle) (simp add: recovered_row_evolves)
qed

lemma select_lifecycle: "ensures lifecycle (stmt op (\<lambda>g. (Inr (f g), pg_db g)))"
  by (rule life.ensures_stmt) (auto simp: life.refl)

lemma release_worker_blocking_lifecycle: "ensures lifecycle (release_worker_blocking q w t)"
  unfolding release_worker_blocking_def
  by (intro life.ensures_intros select_lifecycle recover_owned_lifecycle life.ensures_stmt)
     (auto elim!: update_workers_lifecycle simp: worker_key_def)

lemma reenqueue_orphaned_lifecycle: "ensures lifecycle (reenqueue_orphaned_blocking cfg)"
  unfolding reenqueue_orphaned_blocking_def
  by (intro life.ensures_intros select_lifecycle recover_owned_lifecycle)

lemma settle_incumbent_lifecycle: "ensures lifecycle (settle_incumbent n q e)"
  unfolding settle_incumbent_def
  by (intro life.ensures_intros recover_owned_lifecycle)

lemma registration_keys [simp]:
  "worker_key (registration_row q w s t now) = (wc_name w, q)"
  "worker_key (renewed_row w s t now v) = worker_key v"
  "w_id (registration_row q w s t now) = wc_name w"
  "w_worker_type (registration_row q w s t now) = q"
  by (simp_all add: worker_key_def registration_row_def renewed_row_def)

lemma register_worker_blocking_lifecycle:
  "ensures lifecycle (register_worker_blocking q w s t a)"
  unfolding register_worker_blocking_def
  by (intro life.ensures_intros select_lifecycle settle_incumbent_lifecycle life.ensures_stmt)
     (auto elim!: upsert_worker_lifecycle)

lemma worker_registration_lifecycle: "ensures lifecycle (worker_registration w q t)"
  unfolding worker_registration_def by (rule select_lifecycle)

lemma lock_current_worker_lifecycle: "ensures lifecycle (lock_current_worker w q t)"
  unfolding lock_current_worker_def
  by (intro life.ensures_intros worker_registration_lifecycle)

lemma keep_alive_blocking_lifecycle: "ensures lifecycle (keep_alive_blocking cfg w t)"
  unfolding keep_alive_blocking_def
proof (intro life.ensures_sbind life.ensures_stmt)
  show "ensures lifecycle (\<lambda>g. (heartbeat_outcome x w (c_queue cfg), g))" for x
    by (simp add: ensures_def life.refl)
qed (auto elim!: update_workers_lifecycle simp: worker_key_def)

lemma initial_heartbeat_lifecycle: "ensures lifecycle (initial_heartbeat cfg w s t)"
proof (cases "validate_liveness cfg")
  case (Inl e)
  then show ?thesis by (simp add: ensures_def initial_heartbeat_def life.refl)
next
  case (Inr u)
  then have "initial_heartbeat cfg w s t = with_conn (sbind (reenqueue_orphaned_blocking cfg)
      (\<lambda>_. register_worker_blocking (c_queue cfg) w s t (c_reenqueue_orphaned_after cfg)))"
    by (simp add: initial_heartbeat_def fun_eq_iff)
  then show ?thesis
    by (simp add: life.ensures_with_conn life.ensures_sbind reenqueue_orphaned_lifecycle
        register_worker_blocking_lifecycle)
qed

section \<open>What the operations do\<close>

lemma find_update_where:
  "(\<And>x. P x \<Longrightarrow> P (f x)) \<Longrightarrow> find P (update_where P f xs) = map_option f (find P xs)"
  by (induction xs) auto

lemma find_append_one: "find P xs = None \<Longrightarrow> find P (xs @ [x]) = (if P x then Some x else None)"
  by (induction xs) (auto split: if_splits)

lemma find_worker_upsert:
  assumes "upsert_worker w f d = (Inr n, d')"
    and "\<And>v. worker_key v = worker_key w \<Longrightarrow> worker_key (f v) = worker_key v"
  shows "find_worker (w_id w) (w_worker_type w) d' =
         Some (case find_worker (w_id w) (w_worker_type w) d of None \<Rightarrow> w | Some v \<Rightarrow> f v)"
proof (cases "find_worker (w_id w) (w_worker_type w) d")
  case None
  then have "worker_key w \<notin> set (map worker_key (workers d))"
    unfolding find_worker_None worker_key_def .
  with None assms(1) show ?thesis
    by (auto simp: upsert_worker_def find_worker_def worker_key_def find_append_one)
next
  case (Some v)
  then have "worker_key w \<in> set (map worker_key (workers d))"
    using find_worker_None [of "w_id w" "w_worker_type w" d] by (simp add: worker_key_def)
  then have d': "workers d' = update_where (\<lambda>v. worker_key v = worker_key w) f (workers d)"
    using assms(1) by (auto simp: upsert_worker_def)
  have key: "(w_id w, w_worker_type w) = worker_key w" by (simp add: worker_key_def)
  show ?thesis
    using Some find_update_where [of "\<lambda>v. worker_key v = worker_key w" f "workers d"] assms(2)
    unfolding find_worker_def key d' by simp
qed

lemma select_InrE:
  assumes "stmt op (\<lambda>g. (Inr (f g), pg_db g)) g = (Inr x, g')"
  obtains "later g g'" "x = f g'"
  using assms by (auto elim!: stmt_InrE)

lemma recover_owned_all:
  assumes "recover_owned q ws r g = (Inr n, g')" and "db_ok (pg_db g)" and "ws \<noteq> []"
    and "r \<noteq> StaleSweep"
  shows "\<exists>now \<ge> pg_now g.
      pg_db g' = (pg_db g)\<lparr>jobs := update_where (owned_by q ws) (recovered_row r now) (jobs (pg_db g))\<rparr>"
    and "n = count_where (owned_by q ws) (jobs (pg_db g))"
    and "later (g\<lparr>pg_db := pg_db g'\<rparr>) g'"
proof -
  from assms(1-3) obtain g1 where g1: "later g g1" "later (g\<lparr>pg_db := pg_db g'\<rparr>) g'"
    and eq: "pg_db g' = (pg_db g)\<lparr>jobs := update_where (\<lambda>j. j \<in> set (recover_candidates r q ws g1))
                           (recovered_row r (pg_now g1)) (jobs (pg_db g))\<rparr>"
    and n: "n = count_where (\<lambda>j. j \<in> set (recover_candidates r q ws g1)) (jobs (pg_db g))"
    by (rule recover_owned_InrE)
  have iff: "j \<in> set (jobs (pg_db g)) \<Longrightarrow> j \<in> set (recover_candidates r q ws g1) \<longleftrightarrow> owned_by q ws j" for j
    using recover_candidates_all [OF assms(4), of q ws g1] laterD(1) [OF g1(1)] by auto
  show "\<exists>now \<ge> pg_now g.
      pg_db g' = (pg_db g)\<lparr>jobs := update_where (owned_by q ws) (recovered_row r now) (jobs (pg_db g))\<rparr>"
    using eq laterD(5) [OF g1(1)] update_where_cong [OF iff, of "jobs (pg_db g)"] by auto
  show "n = count_where (owned_by q ws) (jobs (pg_db g))"
    unfolding n by (rule count_where_cong) (rule iff)
qed (use assms in \<open>auto elim!: recover_owned_InrE\<close>)

lemma recovered_not_owned [simp]: "\<not> owned_by q ws (recovered_row r now j)"
  by (simp add: owned_by_def)

lemma update_where_owned_none:
  "j \<in> set (update_where (owned_by q ws) (recovered_row r now) js) \<Longrightarrow> \<not> owned_by q ws j"
  by (auto simp: set_update_where)

lemma release_runE:
  assumes ok: "db_ok (pg_db g)"
    and run: "release_worker_blocking q w t g = (Inr n, g')"
  obtains now where
    "pg_db g' = (pg_db g)\<lparr>
       jobs := update_where (owned_by q [w]) (recovered_row Release now) (jobs (pg_db g)),
       workers := update_where (\<lambda>v. worker_key v = (w, q))
         (\<lambda>v. v\<lparr>w_lease_token := None, w_last_seen := 0\<rparr>) (workers (pg_db g))\<rparr>"
    "n = count_where (owned_by q [w]) (jobs (pg_db g))"
    "\<exists>r. find_worker w q (pg_db g) = Some r \<and> w_lease_token r = Some t"
proof -
  from run obtain g1 g2 where g1: "later g g1" and db': "pg_db g' = pg_db g2"
    and body: "sbind (stmt ''locking the worker registration for release''
              (\<lambda>g. (Inr (filter (owns w q t) (workers (pg_db g))), pg_db g)))
     (\<lambda>owned. if owned = []
        then sthrow (worker_not_registered ''releasing worker registration'' w q hint_release)
        else sbind (recover_owned q [w] Release)
        (\<lambda>recovered. sbind (stmt ''releasing worker registration''
            (\<lambda>g. update_workers (\<lambda>v. worker_key v = (w, q))
                   (\<lambda>v. v\<lparr>w_lease_token := None, w_last_seen := to_timestamp 0\<rparr>) (pg_db g)))
          (\<lambda>_. sreturn recovered))) g1 = (Inr n, g2)"
    unfolding release_worker_blocking_def by (rule transaction_InrE)
  from body obtain ga gb m gc where ga: "later g1 ga" "filter (owns w q t) (workers (pg_db ga)) \<noteq> []"
    and rec: "recover_owned q [w] Release ga = (Inr n, gb)"
    and upd: "stmt ''releasing worker registration''
            (\<lambda>g. update_workers (\<lambda>v. worker_key v = (w, q))
                   (\<lambda>v. v\<lparr>w_lease_token := None, w_last_seen := to_timestamp 0\<rparr>) (pg_db g)) gb
          = (Inr m, gc)" and gc: "g2 = gc"
    by (auto elim!: sbind_InrE select_InrE split: if_splits)
  have db: "pg_db ga = pg_db g" using g1 ga(1) by (simp add: laterD)
  from recover_owned_all [OF rec] ok db
  obtain now where jb: "pg_db gb = (pg_db g)\<lparr>jobs := update_where (owned_by q [w])
      (recovered_row Release now) (jobs (pg_db g))\<rparr>"
    and n: "n = count_where (owned_by q [w]) (jobs (pg_db g))" by auto
  from upd have "pg_db gc = (pg_db gb)\<lparr>workers := update_where (\<lambda>v. worker_key v = (w, q))
         (\<lambda>v. v\<lparr>w_lease_token := None, w_last_seen := 0\<rparr>) (workers (pg_db gb))\<rparr>"
    by (rule stmt_InrE) (auto simp: update_workers_def to_timestamp_def laterD)
  moreover obtain r where "r \<in> set (workers (pg_db g))" "owns w q t r"
    using ga(2) db by (auto simp: filter_empty_conv)
  then have "\<exists>r. find_worker w q (pg_db g) = Some r \<and> w_lease_token r = Some t"
    using find_worker_eq [OF ok] by (auto simp: owns_def)
  ultimately show ?thesis using that jb n db' gc by simp
qed

text \<open>An active claim of a worker, written out for the statements of the properties.\<close>

abbreviation active_claim :: "string \<Rightarrow> string \<Rightarrow> job_row \<Rightarrow> bool" where
  "active_claim q w j \<equiv>
     j_job_type j = q \<and> j_lock_by j = Some w \<and> (j_status j = Queued \<or> j_status j = Running)"

lemma owned_by_eq: "owned_by q [w] = (\<lambda>j. active_claim q w j)"
  by (auto simp: fun_eq_iff owned_by_def is_active_def split: option.splits)

lemma release_hands_back_raw:
  assumes "db_ok (pg_db g)" and "release_worker_blocking q w t g = (Inr n, g')"
  shows "(\<exists>r. find_worker w q (pg_db g) = Some r \<and> w_lease_token r = Some t) \<and>
    n = count_where (owned_by q [w]) (jobs (pg_db g)) \<and>
    (\<forall>j \<in> set (jobs (pg_db g')). \<not> owned_by q [w] j) \<and>
    (\<forall>j \<in> set (jobs (pg_db g)). \<not> owned_by q [w] j \<longrightarrow> j \<in> set (jobs (pg_db g'))) \<and>
    (\<forall>j \<in> set (jobs (pg_db g)).
       owned_by q [w] j \<and> j_status j = Queued \<and> j_attempts j < j_max_attempts j \<longrightarrow>
       j\<lparr>j_status := Pending, j_done_at := None, j_lock_by := None, j_lock_at := None\<rparr>
         \<in> set (jobs (pg_db g'))) \<and>
    (\<exists>r. find_worker w q (pg_db g') = Some r \<and> w_lease_token r = None \<and> w_last_seen r = 0)"
proof -
  from assms obtain now where eq: "pg_db g' = (pg_db g)\<lparr>
       jobs := update_where (owned_by q [w]) (recovered_row Release now) (jobs (pg_db g)),
       workers := update_where (\<lambda>v. worker_key v = (w, q))
         (\<lambda>v. v\<lparr>w_lease_token := None, w_last_seen := 0\<rparr>) (workers (pg_db g))\<rparr>"
    and n: "n = count_where (owned_by q [w]) (jobs (pg_db g))"
    and own: "\<exists>r. find_worker w q (pg_db g) = Some r \<and> w_lease_token r = Some t"
    by (rule release_runE)
  have queued: "recovered_row Release now j =
      j\<lparr>j_status := Pending, j_done_at := None, j_lock_by := None, j_lock_at := None\<rparr>"
    if "j_status j = Queued" "j_attempts j < j_max_attempts j" for j
    using that by (simp add: recovered_row_def next_attempts_def charged_def charges_unstarted_def)
  have "find_worker w q (pg_db g') =
      map_option (\<lambda>v. v\<lparr>w_lease_token := None, w_last_seen := 0\<rparr>) (find_worker w q (pg_db g))"
    unfolding eq find_worker_def by (simp add: find_update_where worker_key_def)
  with own n queued show ?thesis
    by (auto simp: eq set_update_where image_iff)
qed

text \<open>
  C27. A successful release required the caller's token to own the registration, handed back every
  active claim of that name in that queue and counted them, left every other row alone, charged
  no attempt for a claim that never started, and left the registration released: without token,
  with the heartbeat of the epoch.
\<close>

theorem release_hands_back:
  assumes "db_ok (pg_db g)" and "release_worker_blocking q w t g = (Inr n, g')"
  shows "(\<exists>r. find_worker w q (pg_db g) = Some r \<and> w_lease_token r = Some t) \<and>
    n = count_where (\<lambda>j. active_claim q w j) (jobs (pg_db g)) \<and>
    (\<forall>j \<in> set (jobs (pg_db g')). \<not> active_claim q w j) \<and>
    (\<forall>j \<in> set (jobs (pg_db g)). \<not> active_claim q w j \<longrightarrow> j \<in> set (jobs (pg_db g'))) \<and>
    (\<forall>j \<in> set (jobs (pg_db g)).
       active_claim q w j \<and> j_status j = Queued \<and> j_attempts j < j_max_attempts j \<longrightarrow>
       j\<lparr>j_status := Pending, j_done_at := None, j_lock_by := None, j_lock_at := None\<rparr>
         \<in> set (jobs (pg_db g'))) \<and>
    (\<exists>r. find_worker w q (pg_db g') = Some r \<and> w_lease_token r = None \<and> w_last_seen r = 0)"
  using release_hands_back_raw [OF assms] unfolding owned_by_eq .

text \<open>
  A release whose token does not own the registration changes nothing, whatever happens on
  the connection, and reports \<open>WorkerNotRegistered\<close> when nothing else fails.
\<close>

lemma release_refused:
  assumes "db_ok (pg_db g)"
    and "\<not> (\<exists>r. find_worker w q (pg_db g) = Some r \<and> w_lease_token r = Some t)"
  shows "pg_db (snd (release_worker_blocking q w t g)) = pg_db g \<and>
    (quiet g \<longrightarrow> release_worker_blocking q w t g =
      (Inl (worker_not_registered ''releasing worker registration'' w q hint_release), g))"
proof
  have none: "filter (owns w q t) (workers (pg_db g)) = []"
    using assms find_worker_eq by (fastforce simp: filter_empty_conv owns_def)
  obtain r g' where run: "release_worker_blocking q w t g = (r, g')" by fastforce
  show "pg_db (snd (release_worker_blocking q w t g)) = pg_db g"
  proof (cases r)
    case (Inr n)
    with run assms release_runE [of g q w t n g'] show ?thesis by blast
  next
    case (Inl e)
    with run have "release_worker_blocking q w t g = (Inl e, g')" by simp
    then show ?thesis
      unfolding release_worker_blocking_def
      by (rule transaction_InlE)
         (use none run in \<open>auto elim!: sbind_InrE select_InrE simp: release_worker_blocking_def laterD\<close>)
  qed
  show "quiet g \<longrightarrow> release_worker_blocking q w t g =
      (Inl (worker_not_registered ''releasing worker registration'' w q hint_release), g)"
    using none by (simp add: release_worker_blocking_def quiet_def transaction_quiet stmt_quiet
        sbind_def)
qed

section \<open>Registration and takeover\<close>

text \<open>What a successful registration found and did, in one description.\<close>

definition registered_from ::
    "string \<Rightarrow> string \<Rightarrow> string \<Rightarrow> duration \<Rightarrow> db \<Rightarrow> timestamp \<Rightarrow> timestamp \<Rightarrow> job_row list \<Rightarrow> bool" where
  "registered_from name q t a d now recovered_at js \<longleftrightarrow>
     (case find_worker name q d of
        None \<Rightarrow> js = jobs d
      | Some inc \<Rightarrow>
          (w_lease_token inc = Some t \<or> stale now a (w_last_seen inc)) \<and>
          js = (if w_lease_token inc = Some t \<and> \<not> stale now a (w_last_seen inc)
                then jobs d
                else update_where (owned_by q [name]) (recovered_row Takeover recovered_at)
                       (jobs d)))"

lemma settle_incumbent_InrE:
  assumes ok: "db_ok (pg_db g)"
    and run: "settle_incumbent name q (map_option (registration_decision (pg_now g) a t)
                (find_worker name q (pg_db g))) g = (Inr n, g')"
  obtains at where "pg_now g \<le> at" "pg_now g \<le> pg_now g'"
    "registered_from name q t a (pg_db g) (pg_now g) at (jobs (pg_db g'))"
    "workers (pg_db g') = workers (pg_db g)"
proof (cases "find_worker name q (pg_db g)")
  case None
  then have "g' = g" using run by (simp add: settle_incumbent_def)
  then show thesis using None that [of "pg_now g"] by (simp add: registered_from_def)
next
  case (Some inc)
  define same where "same \<longleftrightarrow> w_lease_token inc = Some t"
  define old where "old \<longleftrightarrow> stale (pg_now g) a (w_last_seen inc)"
  note decide = settle_incumbent_def registration_decision_def same_def old_def Let_def
  have allowed: "same \<or> old"
    using run Some by (auto simp: decide split: if_splits)
  show thesis
  proof (cases "same \<and> \<not> old")
    case True
    then have "g' = g" using run Some by (auto simp: decide)
    then show thesis using True Some that [of "pg_now g"]
      by (simp add: registered_from_def same_def old_def)
  next
    case False
    then have rec: "recover_owned q [name] Takeover g = (Inr n, g')"
      using run Some allowed by (auto simp: decide)
    from recover_owned_all [OF rec ok] obtain at where at: "pg_now g \<le> at"
      "pg_db g' = (pg_db g)\<lparr>jobs := update_where (owned_by q [name])
         (recovered_row Takeover at) (jobs (pg_db g))\<rparr>" "later (g\<lparr>pg_db := pg_db g'\<rparr>) g'" by auto
    then have "pg_now g \<le> pg_now g'" using laterD(5) by fastforce
    with at False allowed Some show thesis using that [of at]
      by (auto simp: registered_from_def same_def old_def)
  qed
qed

lemma upsert_worker_jobs: "upsert_worker w f d = (Inr n, d') \<Longrightarrow> jobs d' = jobs d"
  by (auto simp: upsert_worker_def split: if_splits)

lemma register_runE:
  assumes ok: "db_ok (pg_db g)"
    and run: "register_worker_blocking q w s t a g = (Inr u, g')"
  obtains now recovered_at where
    "pg_now g \<le> now" "now \<le> recovered_at"
    "registered_from (wc_name w) q t a (pg_db g) now recovered_at (jobs (pg_db g'))"
    "\<exists>r. find_worker (wc_name w) q (pg_db g') = Some r \<and> w_lease_token r = Some t \<and>
         now \<le> w_last_seen r"
    "(wc_name w, q) \<notin> set (pg_advisory_busy g)"
proof -
  define ups where "ups = stmt ''registering worker'' (\<lambda>g.
      upsert_worker (registration_row q w s t (pg_now g)) (renewed_row w s t (pg_now g)) (pg_db g))"
  from run obtain g1 g2 where g1: "later g g1" "pg_db g' = pg_db g2"
    and body: "sbind (stmt ''locking worker registration''
              (\<lambda>g. (Inr ((wc_name w, q) \<notin> set (pg_advisory_busy g)), pg_db g)))
     (\<lambda>acquired. if \<not> acquired then sthrow (already_registered (wc_name w) q)
      else sbind (stmt ''checking worker registration'' (\<lambda>g.
              (Inr (map_option (registration_decision (pg_now g) a t)
                      (find_worker (wc_name w) q (pg_db g))), pg_db g)))
      (\<lambda>existing. sbind (settle_incumbent (wc_name w) q existing)
      (\<lambda>_. sbind ups (\<lambda>_. sreturn ())))) g1 = (Inr u, g2)"
    unfolding register_worker_blocking_def ups_def by (rule transaction_InrE)
  from body obtain gk gl gb n m where gk: "later g1 gk" "(wc_name w, q) \<notin> set (pg_advisory_busy gk)"
    and gl: "later gk gl"
    and mid: "settle_incumbent (wc_name w) q (map_option (registration_decision (pg_now gl) a t)
                     (find_worker (wc_name w) q (pg_db gl))) gl = (Inr n, gb)"
    and up: "ups gb = (Inr m, g2)"
    by (auto elim!: sbind_InrE select_InrE split: if_splits)
  have lt: "later g gl" using g1(1) gk(1) gl later_trans by blast
  from settle_incumbent_InrE [OF _ mid] ok obtain at where
    at: "pg_now gl \<le> at" "pg_now gl \<le> pg_now gb"
      "registered_from (wc_name w) q t a (pg_db g) (pg_now gl) at (jobs (pg_db gb))"
    using laterD(1) [OF lt] by metis
  from up obtain gd d where gd: "later gb gd" "g2 = gd\<lparr>pg_db := d\<rparr>"
    "upsert_worker (registration_row q w s t (pg_now gd)) (renewed_row w s t (pg_now gd)) (pg_db gd)
       = (Inr m, d)"
    unfolding ups_def by (rule stmt_InrE)
  have jobs: "jobs (pg_db g') = jobs (pg_db gb)"
    using upsert_worker_jobs [OF gd(3)] gd(2) g1(2) laterD(1) [OF gd(1)] by simp
  have "find_worker (wc_name w) q d = Some (case find_worker (wc_name w) q (pg_db gd) of
      None \<Rightarrow> registration_row q w s t (pg_now gd) | Some v \<Rightarrow> renewed_row w s t (pg_now gd) v)"
    using find_worker_upsert [OF gd(3)] by simp
  then have "\<exists>r. find_worker (wc_name w) q (pg_db g') = Some r \<and> w_lease_token r = Some t \<and>
         pg_now gl \<le> w_last_seen r"
    using g1(2) gd(2) laterD(5) [OF gd(1)] at(2)
    by (auto simp: registration_row_def renewed_row_def split: option.splits)
  moreover have "(wc_name w, q) \<notin> set (pg_advisory_busy g)"
    using gk g1(1) by (simp add: laterD)
  ultimately show ?thesis
    using that [of "pg_now gl" at] at(1,3) jobs laterD(5) [OF lt] by simp
qed

lemma registration_takes_over_raw:
  assumes "db_ok (pg_db g)" and "register_worker_blocking q w s t a g = (Inr u, g')"
  shows "(wc_name w, q) \<notin> set (pg_advisory_busy g) \<and>
    (\<exists>now \<ge> pg_now g.
      (\<forall>inc. find_worker (wc_name w) q (pg_db g) = Some inc \<longrightarrow>
        (w_lease_token inc = Some t \<or> stale now a (w_last_seen inc)) \<and>
        (w_lease_token inc \<noteq> Some t \<or> stale now a (w_last_seen inc) \<longrightarrow>
           (\<forall>j \<in> set (jobs (pg_db g')). \<not> owned_by q [wc_name w] j)) \<and>
        (w_lease_token inc = Some t \<and> \<not> stale now a (w_last_seen inc) \<longrightarrow>
           jobs (pg_db g') = jobs (pg_db g))) \<and>
      (\<exists>r. find_worker (wc_name w) q (pg_db g') = Some r \<and> w_lease_token r = Some t \<and>
           now \<le> w_last_seen r)) \<and>
    (\<forall>j \<in> set (jobs (pg_db g)). \<not> owned_by q [wc_name w] j \<longrightarrow> j \<in> set (jobs (pg_db g')))"
proof -
  from assms obtain now at where *: "pg_now g \<le> now"
    "registered_from (wc_name w) q t a (pg_db g) now at (jobs (pg_db g'))"
    "\<exists>r. find_worker (wc_name w) q (pg_db g') = Some r \<and> w_lease_token r = Some t \<and>
         now \<le> w_last_seen r"
    "(wc_name w, q) \<notin> set (pg_advisory_busy g)"
    by (rule register_runE)
  from *(2) show ?thesis
    by (intro conjI exI [of _ now] * allI impI)
       (auto simp: registered_from_def update_where_frame split: option.splits if_splits
         dest!: update_where_owned_none)
qed

text \<open>
  C26. A successful registration fenced the name: it held the advisory lock, the incumbent (if any)
  carried the caller's token or was stale at the decision, and a lost incumbent kept no active
  claim. Afterwards the caller's token owns a registration renewed no earlier than the decision,
  and no row outside the name's claims changed.
\<close>

theorem registration_takes_over:
  assumes "db_ok (pg_db g)" and "register_worker_blocking q w s t a g = (Inr u, g')"
  shows "(wc_name w, q) \<notin> set (pg_advisory_busy g) \<and>
    (\<exists>now \<ge> pg_now g.
      (\<forall>inc. find_worker (wc_name w) q (pg_db g) = Some inc \<longrightarrow>
        (w_lease_token inc = Some t \<or> stale now a (w_last_seen inc)) \<and>
        (w_lease_token inc \<noteq> Some t \<or> stale now a (w_last_seen inc) \<longrightarrow>
           (\<forall>j \<in> set (jobs (pg_db g')). \<not> active_claim q (wc_name w) j)) \<and>
        (w_lease_token inc = Some t \<and> \<not> stale now a (w_last_seen inc) \<longrightarrow>
           jobs (pg_db g') = jobs (pg_db g))) \<and>
      (\<exists>r. find_worker (wc_name w) q (pg_db g') = Some r \<and> w_lease_token r = Some t \<and>
           now \<le> w_last_seen r)) \<and>
    (\<forall>j \<in> set (jobs (pg_db g)). \<not> active_claim q (wc_name w) j \<longrightarrow> j \<in> set (jobs (pg_db g')))"
  using registration_takes_over_raw [OF assms] unfolding owned_by_eq .

section \<open>The sweep\<close>

lemma orphaned_workers_stale:
  assumes "x \<in> set (orphaned_workers cfg g)"
  obtains w where "w \<in> set (workers (pg_db g))" "w_id w = x" "w_worker_type w = c_queue cfg"
    "stale (pg_now g) (c_reenqueue_orphaned_after cfg) (w_last_seen w)"
  using assms by (auto simp: orphaned_workers_def orphaned_worker_def dest!: in_set_takeD)

lemma sweep_onward: "keeps onward (reenqueue_orphaned_blocking cfg)"
proof -
  have "keeps onward (recover_owned q ws r)" for q ws r
    unfolding recover_owned_def by (intro on.keeps_if_const on.keeps_intros)
  then show ?thesis unfolding reenqueue_orphaned_blocking_def by (intro on.keeps_intros)
qed

lemma recover_candidates_Nil [simp]: "recover_candidates r q [] g = []"
proof -
  have "owned_by q [] = (\<lambda>_. False)" by (simp add: fun_eq_iff owned_by_def split: option.split)
  then show ?thesis by (simp add: recover_candidates_def)
qed

text \<open>What a sweep did: at one instant it chose the registrations, at a later one it handed their claims back.\<close>

lemma sweep_effect:
  assumes ok: "db_ok (pg_db g)" and run: "reenqueue_orphaned_blocking cfg g = (r, g')"
  obtains (aborted) e where "pg_db g' = pg_db g" "r = Inl e"
  | (swept) ga gb cs where "later g ga" "later ga gb" "pg_now gb \<le> pg_now g'"
    "cs = recover_candidates StaleSweep (c_queue cfg) (orphaned_workers cfg ga) gb"
    "pg_db g' = (pg_db g)\<lparr>jobs := update_where (\<lambda>j. j \<in> set cs) (recovered_row StaleSweep (pg_now gb)) (jobs (pg_db g))\<rparr>"
    "\<And>n. r = Inr n \<Longrightarrow> n = count_where (\<lambda>j. j \<in> set cs) (jobs (pg_db g))"
  using run unfolding reenqueue_orphaned_blocking_def
proof (cases rule: transaction_cases)
  case (aborted e)
  then show thesis by (rule that(1))
next
  case (committed g1 n g2 flt)
  from committed(3) obtain ga where ga: "later g1 ga"
    "recover_owned (c_queue cfg) (orphaned_workers cfg ga) StaleSweep ga = (Inr n, g2)"
    by (auto elim!: sbind_InrE select_InrE)
  have gga: "later g ga" using committed(1) ga(1) by (rule later_trans)
  note db = laterD(1) [OF gga] and fin = next_step_later [OF committed(4)]
  have n: "m = n" if "r = Inr m" for m using committed(5) that by auto
  show thesis
  proof (cases "orphaned_workers cfg ga = []")
    case True
    with ga(2) have "n = 0" "g2 = ga" by (simp_all add: recover_owned_def)
    with laterD(1,5) [OF fin] db True n show thesis
      by (intro that(2) [OF gga later_refl _ HOL.refl]) (auto simp: update_where_none count_where_def)
  next
    case False
    from ga(2) ok db False obtain gb where gb: "later ga gb" "pg_now g2 = pg_now gb"
      "pg_db g2 = (pg_db ga)\<lparr>jobs := update_where (\<lambda>j. j \<in> set (recover_candidates StaleSweep (c_queue cfg) (orphaned_workers cfg ga) gb))
          (recovered_row StaleSweep (pg_now gb)) (jobs (pg_db ga))\<rparr>"
      "n = count_where (\<lambda>j. j \<in> set (recover_candidates StaleSweep (c_queue cfg) (orphaned_workers cfg ga) gb)) (jobs (pg_db ga))"
      by (auto elim!: recover_owned_InrE)
    with laterD(1,5) [OF fin] db n show thesis by (intro that(2) [OF gga gb(1) _ HOL.refl]) auto
  qed
qed

lemma swept_row:
  "recovered_row StaleSweep now j = j' \<Longrightarrow> j_lock_by j' = None \<and> j_attempts j' = min (j_attempts j + 1) (j_max_attempts j) \<and>
     j_status j' = (if j_max_attempts j \<le> j_attempts j + 1 then Killed else Pending)"
  by (auto simp: recovered_row_def next_attempts_def charged_def charges_unstarted_def Let_def)

text \<open>A sweep below its limits leaves no claim of a stale registration that nobody else holds.\<close>

lemma sweep_complete:
  assumes ok: "db_ok (pg_db ga)" and gb: "later ga gb"
    and cs: "cs = recover_candidates StaleSweep (c_queue cfg) (orphaned_workers cfg ga) gb"
    and few: "count_where (\<lambda>j. j \<in> set cs) (jobs (pg_db ga)) < REENQUEUE_ORPHANED_BATCH_LIMIT"
      "length (workers (pg_db ga)) \<le> REENQUEUE_ORPHANED_BATCH_LIMIT"
    and w: "w \<in> set (workers (pg_db ga))" "w_worker_type w = c_queue cfg" "worker_key w \<notin> set (pg_locked_workers ga)"
      "stale (pg_now ga) (c_reenqueue_orphaned_after cfg) (w_last_seen w)"
    and j: "j \<in> set (jobs (pg_db ga))" "owned_by (c_queue cfg) [w_id w] j" "j_id j \<notin> set (pg_locked_jobs ga)"
  shows "j \<in> set cs"
proof -
  let ?ws = "orphaned_workers cfg ga"
  let ?rows = "filter (\<lambda>j. j_id j \<notin> set (pg_locked_jobs gb)) (sort_key j_id (filter (owned_by (c_queue cfg) ?ws) (jobs (pg_db gb))))"
  have take: "cs = take REENQUEUE_ORPHANED_BATCH_LIMIT ?rows" by (simp add: cs recover_candidates_def Let_def)
  have "orphaned_worker cfg ga w" using w j by (auto simp: orphaned_worker_def list_ex_iff)
  moreover have "length (filter P (workers (pg_db ga))) \<le> REENQUEUE_ORPHANED_BATCH_LIMIT" for P
    using few(2) length_filter_le [of P "workers (pg_db ga)"] by (rule le_trans [rotated])
  ultimately have "w_id w \<in> set ?ws" using w by (auto simp: orphaned_workers_def)
  then have "owned_by (c_queue cfg) ?ws j" using j(2) by (auto simp: owned_by_def split: option.splits)
  then have in_rows: "j \<in> set ?rows" using j laterD [OF gb] by simp
  have "distinct (jobs (pg_db ga))" using ok by (simp add: db_ok_def distinct_map)
  then have "distinct cs" "set cs \<subseteq> set (jobs (pg_db ga))"
    using laterD(1) [OF gb] by (auto simp: take dest!: in_set_takeD)
  then have "count_where (\<lambda>j. j \<in> set cs) (jobs (pg_db ga)) = length cs"
    using \<open>distinct (jobs (pg_db ga))\<close> by (intro count_where_member)
  with few(1) have "length ?rows < REENQUEUE_ORPHANED_BATCH_LIMIT" by (auto simp: take)
  with in_rows show ?thesis by (simp add: take)
qed

text \<open>
  C29. The sweep hands back stale claims and no others. Whatever it returns, a row it changed was an
  active claim of a registration of the queue whose heartbeat had been silent for the whole deadline at
  one instant of the sweep, between its start and its end: the claims of a fresh worker are never
  touched. A changed row lost its owner and is charged one attempt, to be retried or, with its budget
  used up, killed. A sweep that returns changed at most the batch limit of rows; one that stayed below its limits left no
  claim of a registration that was stale when it began, unless another session held the row or the
  registration.
\<close>

theorem sweep_spares_fresh_workers:
  assumes "db_ok (pg_db g)" and "reenqueue_orphaned_blocking cfg g = (r, g')"
  shows "workers (pg_db g') = workers (pg_db g) \<and>
    (\<exists>now. pg_now g \<le> now \<and> now \<le> pg_now g' \<and>
      list_all2 (\<lambda>j j'. j' = j \<or>
        (\<exists>w \<in> set (workers (pg_db g)). active_claim (c_queue cfg) (w_id w) j \<and> w_worker_type w = c_queue cfg \<and>
           int (c_reenqueue_orphaned_after cfg) \<le> (now - w_last_seen w) * 1000) \<and>
        j_lock_by j' = None \<and> j_attempts j' = min (j_attempts j + 1) (j_max_attempts j) \<and>
        j_status j' = (if j_max_attempts j \<le> j_attempts j + 1 then Killed else Pending))
        (jobs (pg_db g)) (jobs (pg_db g'))) \<and>
    (\<forall>n. r = Inr n \<longrightarrow> n \<le> REENQUEUE_ORPHANED_BATCH_LIMIT \<and>
      (n < REENQUEUE_ORPHANED_BATCH_LIMIT \<and> length (workers (pg_db g)) \<le> REENQUEUE_ORPHANED_BATCH_LIMIT \<longrightarrow>
        (\<forall>w \<in> set (workers (pg_db g)). w_worker_type w = c_queue cfg \<and> worker_key w \<notin> set (pg_locked_workers g) \<and>
           int (c_reenqueue_orphaned_after cfg) \<le> (pg_now g - w_last_seen w) * 1000 \<longrightarrow>
           (\<forall>j \<in> set (jobs (pg_db g')). active_claim (c_queue cfg) (w_id w) j \<longrightarrow> j_id j \<in> set (pg_locked_jobs g)))))"
  using assms
proof (cases rule: sweep_effect)
  case (aborted e)
  moreover have "pg_now g \<le> pg_now g'" using keepsD_run [OF sweep_onward assms(2)] by (simp add: onward_def)
  ultimately show ?thesis by (auto simp: list_all2_same intro: exI [of _ "pg_now g"])
next
  case (swept ga gb cs)
  let ?q = "c_queue cfg" and ?d = "c_reenqueue_orphaned_after cfg" and ?js = "jobs (pg_db g)"
  note l = laterD [OF swept(1)] and l' = laterD [OF swept(2)]
  have dist: "distinct ?js" using assms(1) by (simp add: db_ok_def distinct_map)
  have owner: "\<exists>w \<in> set (workers (pg_db g)). owned_by ?q [w_id w] j \<and> w_worker_type w = ?q \<and> stale (pg_now ga) ?d (w_last_seen w)"
    if j: "j \<in> set cs" for j
  proof -
    obtain x where "x \<in> set (orphaned_workers cfg ga)" "owned_by ?q [x] j"
      using subsetD [OF recover_candidates_sub j [unfolded swept(4)]] by (auto simp: owned_by_def split: option.splits)
    then show ?thesis using l(1) by (metis orphaned_workers_stale)
  qed
  have rows: "list_all2 (\<lambda>j j'. j' = j \<or>
      (\<exists>w \<in> set (workers (pg_db g)). owned_by ?q [w_id w] j \<and> w_worker_type w = ?q \<and> stale (pg_now ga) ?d (w_last_seen w)) \<and>
      j_lock_by j' = None \<and> j_attempts j' = min (j_attempts j + 1) (j_max_attempts j) \<and>
      j_status j' = (if j_max_attempts j \<le> j_attempts j + 1 then Killed else Pending)) ?js (jobs (pg_db g'))"
    unfolding swept(5) by (auto simp: update_where_def list_all2_map2 list_all2_same owner swept_row [OF HOL.refl])
  have bound: "n \<le> REENQUEUE_ORPHANED_BATCH_LIMIT" if "r = Inr n" for n
    using swept(6) [OF that] count_where_member_le [OF dist, of cs] recover_candidates_bounded [of ?q "orphaned_workers cfg ga" gb]
    by (simp add: swept(4))
  have rest: "j_id j \<in> set (pg_locked_jobs g)"
    if "r = Inr n" "n < REENQUEUE_ORPHANED_BATCH_LIMIT" "length (workers (pg_db g)) \<le> REENQUEUE_ORPHANED_BATCH_LIMIT"
      "w \<in> set (workers (pg_db g))" "w_worker_type w = ?q" "worker_key w \<notin> set (pg_locked_workers g)"
      "stale (pg_now g) ?d (w_last_seen w)" "j \<in> set (jobs (pg_db g'))" "owned_by ?q [w_id w] j" for n w j
  proof (rule ccontr)
    assume "j_id j \<notin> set (pg_locked_jobs g)"
    moreover have "j \<in> set ?js" "j \<notin> set cs" using that(8,9) by (auto simp: swept(5) set_update_where)
    ultimately show False
      using sweep_complete [OF _ swept(2,4), of w j] that swept(6) [OF that(1)] assms(1) l stale_mono [OF that(7) l(5)] by simp
  qed
  show ?thesis
  proof (intro conjI exI [of _ "pg_now ga"] allI impI ballI)
    show "workers (pg_db g') = workers (pg_db g)" by (simp add: swept(5))
  qed (use rows [unfolded owned_by_eq stale_def] bound rest [unfolded owned_by_eq stale_def] l(5) l'(5) swept(3) in \<open>blast | simp\<close>)+
qed

section \<open>Heartbeat\<close>

lemma owns_worker_key: "owns w q t r \<Longrightarrow> worker_key r = (w, q)"
  by (simp add: owns_def)

lemma renew_own_find:
  assumes ok: "db_ok d" and upd: "update_workers (owns w q t) f d = (Inr n, d')"
    and key: "\<And>r. worker_key (f r) = worker_key r"
  shows "(n = 0 \<longrightarrow> d' = d \<and> \<not> (\<exists>r. find_worker w q d = Some r \<and> w_lease_token r = Some t)) \<and>
    (n \<noteq> 0 \<longrightarrow> (\<exists>r. find_worker w q d = Some r \<and> w_lease_token r = Some t \<and>
                find_worker w q d' = Some (f r)))"
proof -
  have d': "d' = d\<lparr>workers := update_where (owns w q t) f (workers d)\<rparr>"
    and n: "n = count_where (owns w q t) (workers d)"
    using upd by (auto simp: update_workers_def)
  have keys: "db_ok d'"
    using update_workers_ok [OF upd] key ok by (auto simp: keeps_ok_def)
  show ?thesis
  proof (cases "n = 0")
    case True
    then have "\<forall>r \<in> set (workers d). \<not> owns w q t r" using n by (simp add: count_where_zero)
    then show ?thesis
      using True d' by (auto simp: update_where_none owns_def dest!: find_worker_Some)
  next
    case False
    then obtain r where r: "r \<in> set (workers d)" "owns w q t r"
      using n by (auto simp: count_where_zero)
    then have "f r \<in> set (workers d')" by (simp add: d' update_where_in)
    then show ?thesis
      using False r key find_worker_eq [OF ok r(1)] find_worker_eq [OF keys]
      by (auto simp: owns_def)
  qed
qed

text \<open>
  A heartbeat that succeeds renewed the caller's own registration and changed no job; one that
  reports \<open>WorkerNotRegistered\<close> found no registration of that name and queue carrying the token,
  and changed nothing.
\<close>

lemma heartbeat_renews_own_registration:
  assumes ok: "db_ok (pg_db g)" and run: "keep_alive_blocking cfg w t g = (r, g')"
  shows "(r = Inr () \<longrightarrow> jobs (pg_db g') = jobs (pg_db g) \<and>
     (\<exists>now \<ge> pg_now g. \<exists>row. find_worker (wc_name w) (c_queue cfg) (pg_db g) = Some row \<and>
        w_lease_token row = Some t \<and>
        find_worker (wc_name w) (c_queue cfg) (pg_db g') = Some (row\<lparr>w_last_seen := now\<rparr>))) \<and>
   (r = Inl (worker_not_registered ''updating worker heartbeat'' (wc_name w) (c_queue cfg)
              hint_heartbeat) \<longrightarrow>
     pg_db g' = pg_db g \<and>
     \<not> (\<exists>row. find_worker (wc_name w) (c_queue cfg) (pg_db g) = Some row \<and>
              w_lease_token row = Some t))"
proof -
  define upd where "upd = (\<lambda>g :: pg. update_workers (owns (wc_name w) (c_queue cfg) t)
                (\<lambda>w. w\<lparr>w_last_seen := pg_now g\<rparr>) (pg_db g))"
  obtain s g1 where st: "stmt ''updating worker heartbeat'' upd g = (s, g1)" by fastforce
  show ?thesis
  proof (cases s)
    case (Inl e)
    with st obtain de where "e = error_database ''updating worker heartbeat'' de"
      by (auto elim: stmt_InlE)
    then have "r = Inl (Database ''updating worker heartbeat'' de)"
      using run st Inl by (simp add: keep_alive_blocking_def upd_def [symmetric] error_ctor_defs)
    then show ?thesis by (simp add: error_ctor_defs)
  next
    case (Inr n)
    with st obtain g2 d where g2: "later g g2" "upd g2 = (Inr n, d)" "g1 = g2\<lparr>pg_db := d\<rparr>"
      by (auto elim: stmt_InrE)
    have r: "r = heartbeat_outcome n w (c_queue cfg)" "g' = g1"
      using run st Inr by (simp_all add: keep_alive_blocking_def upd_def [symmetric])
    have db: "pg_db g2 = pg_db g" "pg_now g \<le> pg_now g2" by (simp_all add: laterD [OF g2(1)])
    have "jobs d = jobs (pg_db g)"
      using g2(2) db by (auto simp: upd_def update_workers_def)
    with renew_own_find [OF ok g2(2) [unfolded upd_def db(1)]] db g2(3) r show ?thesis
      by (auto simp: heartbeat_outcome_def worker_key_def split: if_splits)
  qed
qed

text \<open>
  A configuration passes the liveness check exactly when a positive heartbeat period is shorter
  than the stale deadline; otherwise the initial heartbeat reports \<open>InvalidArgument\<close> before it
  touches the pool or the tables.
\<close>

lemma liveness_checked_before_registration:
  "(validate_liveness cfg = Inr () \<longleftrightarrow>
      0 < c_keep_alive cfg \<and> c_keep_alive cfg < c_reenqueue_orphaned_after cfg) \<and>
   (\<not> (0 < c_keep_alive cfg \<and> c_keep_alive cfg < c_reenqueue_orphaned_after cfg) \<longrightarrow>
      (\<exists>m. initial_heartbeat cfg w s t g = (Inl (InvalidArgument m), g)))"
  by (auto simp: validate_liveness_def initial_heartbeat_def)

end
