(* ===== verification/Models.thy ===== *)
theory Models
  imports Lifecycle
begin

text \<open>
  Conversions between rows and the values handed to Apalis (\<^verbatim>\<open>src/models.rs\<close>), the small
  numeric helpers of \<^verbatim>\<open>src/queries/mod.rs\<close>, the truncation of persisted error texts
  (\<^verbatim>\<open>src/ack.rs\<close>), and the task value with its claim record. The conversion of a
  \<^verbatim>\<open>TaskRow\<close> into a task belongs to \<^verbatim>\<open>apalis-sql\<close>: it is the parameter \<open>conv\<close> of
  every operation that uses it.
\<close>

section \<open>Numeric helpers\<close>

definition clamp_i32 :: "int \<Rightarrow> int" where
  "clamp_i32 v = (case i32_try_from v of Some x \<Rightarrow> x | None \<Rightarrow> i32_max)"

definition i32_from_u32 :: "32 word \<Rightarrow> string \<Rightarrow> (error, int) result" where
  "i32_from_u32 v field =
     (case i32_try_from (uint v) of
        Some x \<Rightarrow> Inr x
      | None \<Rightarrow> Inl (InvalidArgument (field @ '' exceeds i32::MAX'')))"

text \<open>\<^verbatim>\<open>u32::checked_sub\<close> and \<^verbatim>\<open>u32::checked_mul\<close>.\<close>

definition u32_checked_sub :: "32 word \<Rightarrow> 32 word \<Rightarrow> 32 word option" where
  "u32_checked_sub a b = (if b \<le> a then Some (a - b) else None)"

definition u32_checked_mul :: "32 word \<Rightarrow> 32 word \<Rightarrow> 32 word option" where
  "u32_checked_mul a b = (if unat a * unat b < 2 ^ 32 then Some (a * b) else None)"

text \<open>
  The page filter of \<^verbatim>\<open>apalis_core\<close>: its status, its page, and the limit its accessor
  \<^verbatim>\<open>limit()\<close> returns.
\<close>

record page_filter =
  pf_status :: "status option"
  pf_page :: "32 word"
  pf_limit :: "32 word"

definition filter_offset_i32 :: "page_filter \<Rightarrow> (error, int) result" where
  "filter_offset_i32 f =
     (if pf_page f = 0
      then Inl (InvalidArgument ''filter.page must be >= 1 (1-based pagination)'')
      else rbind (ok_or (Option.bind (u32_checked_sub (pf_page f) 1)
                           (\<lambda>p. u32_checked_mul p (pf_limit f)))
                        (InvalidArgument ''filter offset overflows u32''))
             (\<lambda>offset. i32_from_u32 offset ''offset''))"

section \<open>Truncation of persisted errors\<close>

definition MAX_ERROR_PAYLOAD_LEN :: nat where
  "MAX_ERROR_PAYLOAD_LEN = 8 * 1024"

definition TRUNCATION_MARKER :: string where
  "TRUNCATION_MARKER = [CHR 0xE2, CHR 0x80, CHR 0xA6] @ ''[truncated]''"

text \<open>A string is its UTF-8 bytes; a continuation byte is never a boundary.\<close>

definition continuation_byte :: "char \<Rightarrow> bool" where
  "continuation_byte c \<longleftrightarrow> 128 \<le> (of_char c :: nat) \<and> (of_char c :: nat) < 192"

definition is_char_boundary :: "string \<Rightarrow> nat \<Rightarrow> bool" where
  "is_char_boundary s i \<longleftrightarrow>
     i = 0 \<or> i = length s \<or> (i < length s \<and> \<not> continuation_byte (s ! i))"

fun walk_back :: "string \<Rightarrow> nat \<Rightarrow> nat" where
  "walk_back s 0 = 0"
| "walk_back s (Suc n) = (if is_char_boundary s (Suc n) then Suc n else walk_back s n)"

definition truncate_error_payload :: "string \<Rightarrow> string" where
  "truncate_error_payload text =
     (if MAX_ERROR_PAYLOAD_LEN < length text
      then take (walk_back text MAX_ERROR_PAYLOAD_LEN) text @ TRUNCATION_MARKER
      else text)"

section \<open>Task rows and tasks\<close>

record sql_task_row =
  r_job :: compact
  r_id :: string
  r_job_type :: string
  r_status :: status
  r_attempts :: nat
  r_max_attempts :: "nat option"
  r_run_at :: "timestamp option"
  r_last_result :: "json option"
  r_lock_at :: "timestamp option"
  r_lock_by :: "string option"
  r_done_at :: "timestamp option"
  r_priority :: "nat option"
  r_metadata :: "json option"
  r_idempotency_key :: "string option"

definition is_object :: "json \<Rightarrow> bool" where
  "is_object v \<longleftrightarrow> (case v of JObject _ \<Rightarrow> True | _ \<Rightarrow> False)"

definition task_row_of :: "job_row \<Rightarrow> sql_task_row" where
  "task_row_of row =
     \<lparr>r_job = j_job row, r_id = j_id row, r_job_type = j_job_type row, r_status = j_status row,
      r_attempts = nat (max (j_attempts row) 0),
      r_max_attempts = Some (nat (max (j_max_attempts row) 0)),
      r_run_at = Some (j_run_at row), r_last_result = j_last_result row,
      r_lock_at = j_lock_at row, r_lock_by = j_lock_by row, r_done_at = j_done_at row,
      r_priority = Some (nat (max (j_priority row) 0)),
      r_metadata = (case j_metadata row of
                      Some v \<Rightarrow> if is_object v then Some v else None | None \<Rightarrow> None),
      r_idempotency_key = j_idempotency_key row\<rparr>"

text \<open>
  The claim record of \<^verbatim>\<open>src/ack.rs\<close> (\<^verbatim>\<open>ClaimAttempt\<close>): the persisted history of one
  claim, and the address of the shared acknowledgement cells that clones of the task alias.
\<close>

record claim =
  cl_task_id :: "string option"
  cl_lock_at :: "int option"
  cl_completed :: nat
  cl_cells :: nat

text \<open>
  A task: its payload and the parts the crate reads. \<open>t_lock_at\<close> and \<open>t_run_at\<close> are Unix
  seconds; \<open>t_worker\<close> is the worker context an Apalis worker stores in the parts.
\<close>

record 'a task =
  t_args :: 'a
  t_task_id :: "string option"
  t_queue :: "string option"
  t_lock_by :: "string option"
  t_lock_at :: "int option"
  t_max_attempts :: int
  t_priority :: int
  t_meta :: json
  t_attempt :: nat
  t_status :: status
  t_run_at :: nat
  t_idempotency_key :: "string option"
  t_worker :: "string option"
  t_claim :: "claim option"

type_synonym conversion = "sql_task_row \<Rightarrow> (string, compact task) result"

definition task_row :: "conversion \<Rightarrow> job_row \<Rightarrow> (error, compact task) result" where
  "task_row conv row =
     (case conv (task_row_of row) of Inl m \<Rightarrow> Inl (Row m) | Inr task \<Rightarrow> Inr task)"

text \<open>\<^verbatim>\<open>task.try_map(decode)\<close>.\<close>

definition try_map :: "(compact \<Rightarrow> (string, 'a) result) \<Rightarrow> compact task \<Rightarrow> (error, 'a task) result" where
  "try_map decode t = map_sum Decode (\<lambda>args. \<lparr>t_args = args, t_task_id = t_task_id t, t_queue = t_queue t,
     t_lock_by = t_lock_by t, t_lock_at = t_lock_at t, t_max_attempts = t_max_attempts t, t_priority = t_priority t,
     t_meta = t_meta t, t_attempt = t_attempt t, t_status = t_status t, t_run_at = t_run_at t,
     t_idempotency_key = t_idempotency_key t, t_worker = t_worker t, t_claim = t_claim t\<rparr>) (decode (t_args t))"

definition record_claim :: "nat \<Rightarrow> 'a task \<Rightarrow> 'a task" where
  "record_claim cells task =
     task\<lparr>t_claim := Some \<lparr>cl_task_id = t_task_id task, cl_lock_at = t_lock_at task,
                           cl_completed = t_attempt task, cl_cells = cells\<rparr>\<rparr>"

definition claimed_task_row :: "conversion \<Rightarrow> job_row \<Rightarrow> compact task sql" where
  "claimed_task_row conv row g =
     (case task_row conv row of
        Inl e \<Rightarrow> (Inl e, g)
      | Inr task \<Rightarrow> (Inr (record_claim (pg_next_claim g) task),
                      g\<lparr>pg_next_claim := Suc (pg_next_claim g)\<rparr>))"

text \<open>
  What the crate relies on from the conversion: a converted task carries the row's identity,
  owner, claim second, budget and attempt count.
\<close>

definition conv_faithful :: "conversion \<Rightarrow> bool" where
  "conv_faithful conv \<longleftrightarrow> (\<forall>row task. conv row = Inr task \<longrightarrow>
     t_task_id task = Some (r_id row) \<and> t_queue task = Some (r_job_type row) \<and>
     t_args task = r_job row \<and>
     t_lock_by task = r_lock_by row \<and>
     t_lock_at task = map_option (\<lambda>t. t div 1000000) (r_lock_at row) \<and>
     (\<forall>m. r_max_attempts row = Some m \<longrightarrow> t_max_attempts task = int m) \<and>
     t_attempt task = r_attempts row)"

section \<open>Rows for dashboards and waits\<close>

record running_worker =
  rw_id :: string
  rw_queue :: string
  rw_backend :: string
  rw_started_at :: nat
  rw_last_heartbeat :: nat
  rw_layers :: string

text \<open>\<^verbatim>\<open>u64::try_from(t).unwrap_or(0)\<close> of the Unix seconds of a timestamp.\<close>

definition unix_or_zero :: "timestamp \<Rightarrow> nat" where
  "unix_or_zero t = (let s = t div 1000000 in if 0 \<le> s then nat s else 0)"

definition running_worker_of :: "worker_row \<Rightarrow> running_worker" where
  "running_worker_of row =
     \<lparr>rw_id = w_id row, rw_queue = w_worker_type row, rw_backend = w_storage_name row,
      rw_started_at = (case w_started_at row of Some t \<Rightarrow> unix_or_zero t | None \<Rightarrow> 0),
      rw_last_heartbeat = unix_or_zero (w_last_seen row), rw_layers = w_layers row\<rparr>"

record task_result_row =
  tr_id :: "string option"
  tr_status :: "string option"
  tr_result :: "json option"

record tracked_task_row =
  tt_id :: string
  tt_status :: string
  tt_result :: "json option"
  tt_terminal :: bool

definition task_result_row_of :: "tracked_task_row \<Rightarrow> task_result_row" where
  "task_result_row_of row =
     \<lparr>tr_id = Some (tt_id row), tr_status = Some (tt_status row), tr_result = tt_result row\<rparr>"

definition status_name :: "status \<Rightarrow> string" where
  "status_name s = (case s of Pending \<Rightarrow> ''Pending'' | Queued \<Rightarrow> ''Queued'' | Running \<Rightarrow> ''Running''
     | Done \<Rightarrow> ''Done'' | Failed \<Rightarrow> ''Failed'' | Killed \<Rightarrow> ''Killed'')"

definition status_from_str :: "string \<Rightarrow> status option" where
  "status_from_str s = find (\<lambda>st. status_name st = s) [Pending, Queued, Running, Done, Failed, Killed]"

text \<open>
  \<^verbatim>\<open>task_result_from_row\<close>: the fields in order, then the id parser \<open>pid\<close> of the
  \<^verbatim>\<open>ulid\<close> crate, the status, and the JSON decoder \<open>dec\<close> of the result type.
\<close>

record ('i, 'o) task_result =
  res_task_id :: 'i
  res_status :: status
  res_result :: "(string, 'o) result"

definition task_result_from_row ::
    "(string \<Rightarrow> (string, 'i) result) \<Rightarrow> (json \<Rightarrow> (string, (string, 'o) result) result) \<Rightarrow>
     task_result_row \<Rightarrow> (error, ('i, 'o) task_result) result" where
  "task_result_from_row pid dec row =
     rbind (ok_or (tr_id row) (MissingField ''id'')) (\<lambda>i.
     rbind (ok_or (tr_status row) (MissingField ''status'')) (\<lambda>st.
     rbind (ok_or (tr_result row) (MissingField ''last_result'')) (\<lambda>res.
     rbind (case pid i of Inl m \<Rightarrow> Inl (Row m) | Inr x \<Rightarrow> Inr x) (\<lambda>x.
     rbind (case status_from_str st of
              None \<Rightarrow> Inl (Row ''invalid status'') | Some s \<Rightarrow> Inr s) (\<lambda>s.
     rbind (case dec res of Inl m \<Rightarrow> Inl (Json m) | Inr v \<Rightarrow> Inr v) (\<lambda>v.
       Inr \<lparr>res_task_id = x, res_status = s, res_result = v\<rparr>))))))"

section \<open>Lemmas\<close>

lemma clamp_i32_range: "0 \<le> v \<Longrightarrow> 0 \<le> clamp_i32 v \<and> clamp_i32 v \<le> i32_max \<and> clamp_i32 v \<le> max v 0"
  by (auto simp: clamp_i32_def i32_try_from_def in_i32_def i32_max_def i32_min_def)

lemma status_from_str_name [simp]: "status_from_str (status_name s) = Some s"
  by (cases s) (simp_all add: status_from_str_def status_name_def)

lemma walk_back_le: "walk_back s n \<le> n"
  by (induction s n rule: walk_back.induct) (auto intro: le_SucI)

lemma walk_back_boundary: "is_char_boundary s (walk_back s n)"
  by (induction s n rule: walk_back.induct) (auto simp: is_char_boundary_def)

lemma walk_back_greatest:
  "is_char_boundary s i \<Longrightarrow> i \<le> n \<Longrightarrow> i \<le> walk_back s n"
  by (induction s n rule: walk_back.induct) (auto simp: le_Suc_eq)

text \<open>
  C40. A persisted error text is at most the cap plus the marker. A longer text is cut at the last
  character boundary at or below the cap, so no multi-byte sequence is split, and a text within
  the cap is stored unchanged.
\<close>

theorem truncate_error_payload_spec:
  "length (truncate_error_payload msg) \<le> MAX_ERROR_PAYLOAD_LEN + length TRUNCATION_MARKER \<and>
   (length msg \<le> MAX_ERROR_PAYLOAD_LEN \<longrightarrow> truncate_error_payload msg = msg) \<and>
   (MAX_ERROR_PAYLOAD_LEN < length msg \<longrightarrow>
      (\<exists>k \<le> MAX_ERROR_PAYLOAD_LEN.
         truncate_error_payload msg = take k msg @ TRUNCATION_MARKER \<and>
         is_char_boundary msg k \<and>
         (\<forall>i \<le> MAX_ERROR_PAYLOAD_LEN. is_char_boundary msg i \<longrightarrow> i \<le> k)))"
proof -
  let ?k = "walk_back msg MAX_ERROR_PAYLOAD_LEN"
  have "?k \<le> MAX_ERROR_PAYLOAD_LEN" by (rule walk_back_le)
  then show ?thesis
    using walk_back_boundary [of msg MAX_ERROR_PAYLOAD_LEN] walk_back_greatest [of msg _ MAX_ERROR_PAYLOAD_LEN]
    unfolding truncate_error_payload_def by auto
qed

lemma u32_checked_mul_uint:
  fixes a b :: "32 word"
  assumes "unat a * unat b < 2 ^ 32"
  shows "uint (a * b) = int (unat a * unat b)"
proof -
  have "unat (a * b) = unat a * unat b" using assms by (simp add: unat_mult_lem [THEN iffD1])
  then show ?thesis by (metis uint_nat)
qed

lemma filter_offset_i32_iff:
  "(filter_offset_i32 f = Inr off \<longleftrightarrow>
      pf_page f \<noteq> 0 \<and> off = (uint (pf_page f) - 1) * uint (pf_limit f) \<and> off \<le> i32_max)"
proof (cases "pf_page f = 0")
  case True
  then show ?thesis by (simp add: filter_offset_i32_def)
next
  case False
  then have pos: "1 \<le> unat (pf_page f)" by (simp add: Suc_leI unat_gt_0)
  then have one: "1 \<le> pf_page f" by (simp add: word_le_nat_alt)
  define p where "p = unat (pf_page f - 1) * unat (pf_limit f)"
  have "unat (pf_page f - 1) = unat (pf_page f) - 1"
    using one by (simp add: unat_sub)
  then have exact: "int p = (uint (pf_page f) - 1) * uint (pf_limit f)"
    using pos by (simp add: p_def of_nat_diff)
  have mul: "u32_checked_mul (pf_page f - 1) (pf_limit f) =
      (if p < 2 ^ 32 then Some ((pf_page f - 1) * pf_limit f) else None)"
    by (simp only: u32_checked_mul_def p_def)
  have run: "filter_offset_i32 f = (if p < 2 ^ 32
      then i32_from_u32 ((pf_page f - 1) * pf_limit f) ''offset''
      else Inl (InvalidArgument ''filter offset overflows u32''))"
    using False one mul by (simp add: filter_offset_i32_def u32_checked_sub_def)
  show ?thesis
  proof (cases "p < 2 ^ 32")
    case True
    then have "uint ((pf_page f - 1) * pf_limit f) = int p"
      by (simp add: u32_checked_mul_uint p_def)
    then have "filter_offset_i32 f = Inr off \<longleftrightarrow> off = int p \<and> int p \<le> i32_max"
      using True run
      by (auto simp: i32_from_u32_def i32_try_from_def in_i32_def i32_min_def simp del: of_nat_mult)
    with False exact show ?thesis by metis
  next
    case wide: False
    then have "\<not> int p \<le> i32_max" by (simp add: i32_max_def)
    with wide run have "filter_offset_i32 f \<noteq> Inr off" "\<not> int p \<le> i32_max" by simp_all
    with exact show ?thesis by metis
  qed
qed

text \<open>
  The page offset, computed in checked 32-bit arithmetic, is the exact product
  \<open>(page - 1) * limit\<close> whenever a page is accepted, and a page is refused exactly when it is zero
  or that product does not fit an \<^verbatim>\<open>i32\<close>: no wrap-around reaches the query.
\<close>

lemma filter_offset_exact:
  "(filter_offset_i32 f = Inr off \<longleftrightarrow>
      pf_page f \<noteq> 0 \<and> off = (uint (pf_page f) - 1) * uint (pf_limit f) \<and> off \<le> i32_max)"
  by (rule filter_offset_i32_iff)

end
