(* ===== verification/Fetch.thy ===== *)
theory Fetch
  imports Workers Models
begin

text \<open>
  Claims (\<^verbatim>\<open>src/queries/fetch.rs\<close>): polling, claiming notified ids, locking one task,
  starting a claimed task, releasing a claim whose payload does not decode, quarantining rows that
  do not convert, and the report of a claim whose commit has an unknown outcome.
\<close>

section \<open>Code of other crates\<close>

text \<open>
  What the operations call outside the repository: the row conversion of \<^verbatim>\<open>apalis-sql\<close>, and
  the renderings \<^verbatim>\<open>error.to_string()\<close> uses (\<^verbatim>\<open>{:?}\<close> of a list of keys, decimal
  numbers, Diesel's messages).
\<close>

record foreign =
  fx_conv :: conversion
  fx_dbg :: "string list \<Rightarrow> string"
  fx_dec :: "nat \<Rightarrow> string"
  fx_src :: "diesel_error \<Rightarrow> string"

definition error_to_string :: "foreign \<Rightarrow> error \<Rightarrow> string" where
  "error_to_string fx e = error_display (fx_dbg fx) (fx_dec fx) (fx_src fx) e"

section \<open>Ownership and location\<close>

definition hint_absent :: string where
  "hint_absent = ''the worker is not registered for this queue; register it before claiming''"

definition hint_replaced :: string where
  "hint_replaced = ''the worker registration was replaced; create a fresh storage''"

definition require_worker :: "string \<Rightarrow> string \<Rightarrow> string option \<Rightarrow> unit sql" where
  "require_worker worker queue token =
     sbind (worker_registration worker queue token) (\<lambda>registration.
       case token of
         None \<Rightarrow> sreturn ()
       | Some _ \<Rightarrow> (case registration of
           Current \<Rightarrow> sreturn ()
         | Absent \<Rightarrow> sthrow (worker_not_registered ''claiming task'' worker queue hint_absent)
         | Replaced \<Rightarrow> sthrow (worker_not_registered ''claiming task'' worker queue hint_replaced)))"

definition task_queue :: "string \<Rightarrow> string option \<Rightarrow> string \<Rightarrow> string option sql" where
  "task_queue task_id scope op =
     stmt op (\<lambda>g. (Inr (map_option j_job_type
       (find (\<lambda>j. j_id j = task_id \<and> (case scope of None \<Rightarrow> True | Some q \<Rightarrow> j_job_type j = q))
             (jobs (pg_db g)))), pg_db g))"

section \<open>Claim outcomes\<close>

definition with_claim_conn :: "string \<Rightarrow> ('a \<Rightarrow> bool) \<Rightarrow> 'a sql \<Rightarrow> 'a sql" where
  "with_claim_conn op has_claims work g =
     (let (r, g1) = with_conn (transaction (sbind work (\<lambda>v g. (Inr v, g\<lparr>pg_claimed := has_claims v\<rparr>))))
                      (g\<lparr>pg_claimed := False\<rparr>)
      in (claim_outcome r (pg_claimed g1) op, g1))"

section \<open>Quarantine\<close>

definition quarantined_row :: "json \<Rightarrow> timestamp \<Rightarrow> job_row \<Rightarrow> job_row" where
  "quarantined_row res now j =
     j\<lparr>j_status := Killed, j_attempts := min (j_attempts j + 1) (j_max_attempts j),
       j_done_at := Some now, j_last_result := Some res, j_lock_by := None, j_lock_at := None\<rparr>"

definition quarantine :: "foreign \<Rightarrow> string \<Rightarrow> error \<Rightarrow> nat sql" where
  "quarantine fx i e =
     stmt ''quarantining malformed task'' (\<lambda>g.
       update_jobs (\<lambda>j. j_id j = i)
         (quarantined_row (json_err (truncate_error_payload (error_to_string fx e))) (pg_now g))
         (pg_db g))"

fun claimed_tasks :: "foreign \<Rightarrow> job_row list \<Rightarrow> compact task list sql" where
  "claimed_tasks fx [] = sreturn []"
| "claimed_tasks fx (row # rows) = (\<lambda>g.
     case claimed_task_row (fx_conv fx) row g of
       (Inr task, g1) \<Rightarrow> sbind (claimed_tasks fx rows) (\<lambda>tasks. sreturn (task # tasks)) g1
     | (Inl e, g1) \<Rightarrow> sbind (quarantine fx (j_id row) e) (\<lambda>_. claimed_tasks fx rows) g1)"

section \<open>Polling and notified ids\<close>

definition due :: "string \<Rightarrow> timestamp \<Rightarrow> job_row \<Rightarrow> bool" where
  "due queue now j \<longleftrightarrow> claimable j \<and> j_run_at j \<le> now \<and> j_job_type j = queue"

text \<open>\<^verbatim>\<open>ORDER BY priority DESC, run_at ASC\<close>.\<close>

definition fetch_order :: "job_row \<Rightarrow> int \<times> int" where
  "fetch_order j = (- j_priority j, j_run_at j)"

definition unlocked :: "pg \<Rightarrow> job_row \<Rightarrow> bool" where
  "unlocked g j \<longleftrightarrow> j_id j \<notin> set (pg_locked_jobs g)"

definition fetch_limit :: "config \<Rightarrow> nat" where
  "fetch_limit cfg = nat (clamp_i32 (int (max (c_buffer_size cfg) 1)))"

definition next_jobs :: "string \<Rightarrow> nat \<Rightarrow> pg \<Rightarrow> job_row list" where
  "next_jobs queue limit g =
     take limit (filter (unlocked g)
       (sort_key fetch_order (filter (due queue (pg_now g)) (jobs (pg_db g)))))"

definition notified_jobs :: "string \<Rightarrow> string list \<Rightarrow> pg \<Rightarrow> job_row list" where
  "notified_jobs queue ids g =
     filter (unlocked g)
       (sort_key fetch_order
         (filter (\<lambda>j. due queue (pg_now g) j \<and> j_id j \<in> set ids) (jobs (pg_db g))))"

definition claim_row :: "string \<Rightarrow> timestamp \<Rightarrow> job_row \<Rightarrow> job_row" where
  "claim_row worker now j =
     j\<lparr>j_status := Queued, j_lock_by := Some worker, j_lock_at := Some (now_trunc now),
       j_done_at := None\<rparr>"

text \<open>\<^verbatim>\<open>UPDATE ... RETURNING\<close>: the new versions of the matched rows.\<close>

definition update_jobs_returning ::
    "(job_row \<Rightarrow> bool) \<Rightarrow> (job_row \<Rightarrow> job_row) \<Rightarrow> db \<Rightarrow> (diesel_error, job_row list) result \<times> db" where
  "update_jobs_returning P f d =
     (case update_jobs P f d of
        (Inl e, d') \<Rightarrow> (Inl e, d')
      | (Inr _, d') \<Rightarrow> (Inr (map f (filter P (jobs d))), d'))"

text \<open>
  The statement both claim paths share: update the selected rows, and return them in fetch
  order.
\<close>

definition claim_stmt :: "string \<Rightarrow> string \<Rightarrow> (pg \<Rightarrow> job_row list) \<Rightarrow> job_row list sql" where
  "claim_stmt op worker candidates =
     stmt op (\<lambda>g.
       case update_jobs_returning (\<lambda>j. j_id j \<in> set (map j_id (candidates g)))
              (claim_row worker (pg_now g)) (pg_db g) of
         (Inl e, d) \<Rightarrow> (Inl e, d)
       | (Inr rows, d) \<Rightarrow> (Inr (sort_key fetch_order rows), d))"

definition fetch_next ::
    "foreign \<Rightarrow> config \<Rightarrow> worker_ctx \<Rightarrow> string option \<Rightarrow> compact task list sql" where
  "fetch_next fx cfg worker token =
     with_claim_conn ''claiming polled tasks'' (\<lambda>tasks. tasks \<noteq> [])
       (sbind (require_worker (wc_name worker) (c_queue cfg) token) (\<lambda>_.
        sbind (claim_stmt ''fetching queued jobs'' (wc_name worker)
                 (next_jobs (c_queue cfg) (fetch_limit cfg)))
              (claimed_tasks fx)))"

definition queue_by_id ::
    "foreign \<Rightarrow> string \<Rightarrow> string list \<Rightarrow> string \<Rightarrow> string option \<Rightarrow> compact task list sql" where
  "queue_by_id fx queue ids worker_id token =
     with_claim_conn ''claiming notified tasks'' (\<lambda>tasks. tasks \<noteq> [])
       (sbind (require_worker worker_id queue token) (\<lambda>_.
        sbind (claim_stmt ''claiming notified jobs'' worker_id (notified_jobs queue ids))
              (claimed_tasks fx)))"

section \<open>Undecodable tasks\<close>

definition failed_row :: "json \<Rightarrow> timestamp \<Rightarrow> job_row \<Rightarrow> job_row" where
  "failed_row res now j =
     j\<lparr>j_status := if j_max_attempts j \<le> j_attempts j + 1 then Killed else Failed,
       j_attempts := min (j_attempts j + 1) (j_max_attempts j),
       j_done_at := Some now, j_last_result := Some res\<rparr>"

text \<open>The claim epoch of an active row: owner, claim second, attempts.\<close>

definition epoch :: "string \<Rightarrow> string \<Rightarrow> int \<Rightarrow> int \<Rightarrow> job_row \<Rightarrow> bool" where
  "epoch i worker lock_at attempts j \<longleftrightarrow>
     j_id j = i \<and> is_active (j_status j) \<and> j_lock_by j = Some worker \<and>
     j_lock_at j = Some (to_timestamp lock_at) \<and> j_attempts j = attempts"

definition fail_epoch :: "string \<Rightarrow> string \<Rightarrow> int \<Rightarrow> int \<Rightarrow> string \<Rightarrow> nat sql" where
  "fail_epoch task_id worker_id lock_at attempts err =
     stmt ''failing undecodable task'' (\<lambda>g.
       update_jobs (epoch task_id worker_id lock_at attempts)
         (failed_row (json_err (truncate_error_payload err)) (pg_now g)) (pg_db g))"

definition fail_undecodable_task ::
    "string \<Rightarrow> string \<Rightarrow> int \<Rightarrow> int \<Rightarrow> string \<Rightarrow> string option \<Rightarrow> nat sql" where
  "fail_undecodable_task task_id worker_id lock_at attempts err token =
     with_conn (transaction (case token of
       None \<Rightarrow> fail_epoch task_id worker_id lock_at attempts err
     | Some t \<Rightarrow>
         sbind (task_queue task_id None ''locating undecodable task'') (\<lambda>found.
           case found of
             None \<Rightarrow> sreturn 0
           | Some queue \<Rightarrow> sbind (lock_current_worker worker_id queue (Some t)) (\<lambda>current.
               if current then fail_epoch task_id worker_id lock_at attempts err else sreturn 0))))"

section \<open>Starting a claimed task\<close>

record start_claim =
  sc_task_id :: string
  sc_queue :: string
  sc_worker_id :: string
  sc_lock_at :: int
  sc_attempts :: "int option"
  sc_restart :: bool
  sc_lease_token :: "string option"

definition start_owner :: "start_claim \<Rightarrow> worker_row \<Rightarrow> bool" where
  "start_owner c w \<longleftrightarrow>
     worker_key w = (sc_worker_id c, sc_queue c) \<and>
     (sc_lease_token c = None \<or> w_lease_token w = sc_lease_token c)"

definition startable :: "start_claim \<Rightarrow> job_row \<Rightarrow> bool" where
  "startable c j \<longleftrightarrow>
     j_id j = sc_task_id c \<and> j_job_type j = sc_queue c \<and> j_lock_by j = Some (sc_worker_id c) \<and>
     j_lock_at j = Some (to_timestamp (sc_lock_at c)) \<and>
     (case sc_attempts c of None \<Rightarrow> True | Some n \<Rightarrow> j_attempts j = n) \<and>
     (j_status j = Queued \<or> (sc_restart c \<and> j_status j = Running))"

definition start_task :: "start_claim \<Rightarrow> bool sql" where
  "start_task c =
     with_conn (sbind (stmt ''starting task'' (\<lambda>g.
       update_jobs (\<lambda>j. list_ex (start_owner c) (workers (pg_db g)) \<and> startable c j)
         (\<lambda>j. j\<lparr>j_status := Running\<rparr>) (pg_db g)))
       (\<lambda>count. sreturn (count = 1)))"

section \<open>Locking one task\<close>

definition lockable :: "string \<Rightarrow> string option \<Rightarrow> string \<Rightarrow> timestamp \<Rightarrow> job_row \<Rightarrow> bool" where
  "lockable task_id queue worker now j \<longleftrightarrow>
     j_id j = task_id \<and> (case queue of None \<Rightarrow> True | Some q \<Rightarrow> j_job_type j = q) \<and>
     j_run_at j \<le> now \<and>
     ((j_status j = Pending \<and> j_attempts j < j_max_attempts j) \<or>
      (j_status j = Queued \<and> j_lock_by j = Some worker) \<or>
      (j_status j = Running \<and> j_lock_by j = Some worker) \<or>
      (j_status j = Failed \<and> j_attempts j < j_max_attempts j))"

definition locked_row :: "string \<Rightarrow> timestamp \<Rightarrow> job_row \<Rightarrow> job_row" where
  "locked_row worker now j =
     j\<lparr>j_status := Running,
       j_lock_at := if is_active (j_status j) \<and> j_lock_by j = Some worker \<and> j_lock_at j \<noteq> None
                    then j_lock_at j else Some (now_trunc now),
       j_lock_by := Some worker, j_done_at := None\<rparr>"

definition hint_lock :: "bool \<Rightarrow> string" where
  "hint_lock scoped =
     (if scoped then ''the task may be delayed, have exhausted its retry budget, be locked by another worker, be completed, or belong to another queue''
      else ''the task may be delayed, have exhausted its retry budget, be locked by another worker, or be completed'')"

definition lock_task_with_token ::
    "foreign \<Rightarrow> string \<Rightarrow> string \<Rightarrow> string option \<Rightarrow> string option \<Rightarrow> compact task sql" where
  "lock_task_with_token fx task_id worker_id queue token =
     with_claim_conn ''locking task'' (\<lambda>_. True)
       (sbind (task_queue task_id queue ''locating task to lock'') (\<lambda>found.
        sbind (case found of None \<Rightarrow> sreturn () | Some scoped \<Rightarrow> require_worker worker_id scoped token)
        (\<lambda>_. sbind (stmt ''locking task'' (\<lambda>g.
                update_jobs_returning (lockable task_id queue worker_id (pg_now g))
                  (locked_row worker_id (pg_now g)) (pg_db g)))
        (\<lambda>rows. case rows of
            [] \<Rightarrow> sthrow (task_not_found ''locking task'' task_id queue (hint_lock (queue \<noteq> None)))
          | row # _ \<Rightarrow> claimed_task_row (fx_conv fx) row))))"

definition lock_task :: "foreign \<Rightarrow> string \<Rightarrow> string \<Rightarrow> string option \<Rightarrow> compact task sql" where
  "lock_task fx task_id worker_id queue = lock_task_with_token fx task_id worker_id queue None"

section \<open>Selection\<close>

text \<open>A candidate list in fetch order whose rows are rows of the table.\<close>

definition claim_list :: "job_row list \<Rightarrow> job_row list \<Rightarrow> bool" where
  "claim_list js cs \<longleftrightarrow> distinct cs \<and> set cs \<subseteq> set js \<and>
     sort_key fetch_order (filter (\<lambda>j. j \<in> set cs) js) = cs"

lemma take_as_filter: "distinct ys \<Longrightarrow> filter (\<lambda>y. y \<in> set (take n ys)) ys = take n ys"
proof (induction ys arbitrary: n)
  case (Cons y ys)
  show ?case
  proof (cases n)
    case (Suc m)
    have "filter (\<lambda>x. x = y \<or> x \<in> set (take m ys)) ys = filter (\<lambda>x. x \<in> set (take m ys)) ys"
      using Cons.prems by (intro filter_cong) auto
    then show ?thesis using Cons Suc by simp
  qed simp
qed simp

lemma filter_restrict: "(\<And>x. Q x \<Longrightarrow> R x) \<Longrightarrow> filter Q (filter R xs) = filter Q xs"
  by (induction xs) auto

lemma claim_list_pick:
  assumes "distinct js"
  shows "claim_list js (take n (filter u (sort_key fetch_order (filter P js))))"
proof -
  let ?ys = "filter u (sort_key fetch_order (filter P js))"
  have ys: "distinct ?ys" "set ?ys \<subseteq> {j \<in> set js. P j \<and> u j}" using assms by auto
  let ?C = "\<lambda>j. j \<in> set (take n ?ys)"
  have "?C j \<Longrightarrow> P j \<and> u j" for j using ys(2) by (auto dest!: in_set_takeD)
  then have "filter ?C js = filter ?C (filter (\<lambda>j. P j \<and> u j) js)" by (intro filter_restrict [symmetric]) blast
  also have "filter (\<lambda>j. P j \<and> u j) js = filter u (filter P js)" by (simp add: conj_commute)
  finally have eq: "filter ?C js = filter ?C (filter u (filter P js))" .
  have "sort_key fetch_order (filter ?C js) = filter ?C ?ys"
    unfolding eq by (simp only: filter_sort [symmetric])
  also have "\<dots> = take n ?ys" using ys(1) by (rule take_as_filter)
  finally show ?thesis
    unfolding claim_list_def using ys by (auto dest!: in_set_takeD)
qed

lemma distinct_jobs: "db_ok d \<Longrightarrow> distinct (jobs d)"
  by (simp add: db_ok_def distinct_map)

lemma next_jobs_claim_list: "db_ok (pg_db g) \<Longrightarrow> claim_list (jobs (pg_db g)) (next_jobs q n g)"
  unfolding next_jobs_def by (rule claim_list_pick) (rule distinct_jobs)

lemma notified_jobs_claim_list:
  "db_ok (pg_db g) \<Longrightarrow> claim_list (jobs (pg_db g)) (notified_jobs q ids g)"
proof -
  let ?ys = "filter (unlocked g) (sort_key fetch_order
      (filter (\<lambda>j. due q (pg_now g) j \<and> j_id j \<in> set ids) (jobs (pg_db g))))"
  assume "db_ok (pg_db g)"
  then have "claim_list (jobs (pg_db g)) (take (length ?ys) ?ys)"
    by (intro claim_list_pick distinct_jobs)
  then show ?thesis unfolding notified_jobs_def by simp
qed

lemma claim_row_order [simp]: "fetch_order (claim_row w now j) = fetch_order j"
  by (simp add: claim_row_def fetch_order_def)

lemma claim_row_id [simp]: "j_id (claim_row w now j) = j_id j"
  by (simp add: claim_row_def)

lemma insort_key_map_same: "(\<And>y. k (f y) = k y) \<Longrightarrow> insort_key k (f x) (map f xs) = map f (insort_key k x xs)"
  by (induction xs) auto

lemma sort_key_map_same: "(\<And>y. k (f y) = k y) \<Longrightarrow> sort_key k (map f xs) = map f (sort_key k xs)"
  by (induction xs) (auto simp: insort_key_map_same)

lemma id_where_iff:
  assumes "distinct (map j_id js)" and "set cs \<subseteq> set js" and "j \<in> set js"
  shows "j_id j \<in> set (map j_id cs) \<longleftrightarrow> j \<in> set cs"
  using assms by (auto dest: distinct_key_unique)

lemma claim_stmt_InrE:
  assumes run: "claim_stmt op w cands g = (Inr rows, g')" and ok: "db_ok (pg_db g)"
    and pick: "\<And>h. db_ok (pg_db h) \<Longrightarrow> claim_list (jobs (pg_db h)) (cands h)"
  obtains g1 where "later g g1" "rows = map (claim_row w (pg_now g1)) (cands g1)"
    "g' = g1\<lparr>pg_db := (pg_db g)\<lparr>jobs := update_where (\<lambda>j. j \<in> set (cands g1))
                                    (claim_row w (pg_now g1)) (jobs (pg_db g))\<rparr>\<rparr>"
    "claim_list (jobs (pg_db g)) (cands g1)"
proof -
  from run obtain g1 d where g1: "later g g1" "g' = g1\<lparr>pg_db := d\<rparr>"
    and body: "(case update_jobs_returning (\<lambda>j. j_id j \<in> set (map j_id (cands g1)))
              (claim_row w (pg_now g1)) (pg_db g1) of
         (Inl e, d) \<Rightarrow> (Inl e, d)
       | (Inr rows, d) \<Rightarrow> (Inr (sort_key fetch_order rows), d)) = (Inr rows, d)"
    unfolding claim_stmt_def by (rule stmt_InrE)
  have db: "pg_db g1 = pg_db g" by (rule laterD(1) [OF g1(1)])
  let ?P = "\<lambda>j. j_id j \<in> set (map j_id (cands g1))" and ?f = "claim_row w (pg_now g1)"
  from body obtain n where upd: "update_jobs ?P ?f (pg_db g) = (Inr n, d)"
    and rows: "rows = sort_key fetch_order (map ?f (filter ?P (jobs (pg_db g))))"
    by (auto simp: update_jobs_returning_def db split: prod.splits sum.splits)
  have cl: "claim_list (jobs (pg_db g)) (cands g1)" using pick [of g1] ok db by simp
  have iff: "j \<in> set (jobs (pg_db g)) \<Longrightarrow> ?P j \<longleftrightarrow> j \<in> set (cands g1)" for j
    using id_where_iff [of "jobs (pg_db g)" "cands g1" j] ok cl by (simp add: db_ok_def claim_list_def)
  have "filter ?P (jobs (pg_db g)) = filter (\<lambda>j. j \<in> set (cands g1)) (jobs (pg_db g))"
    by (rule filter_cong [OF HOL.refl]) (rule iff)
  then have "rows = map ?f (sort_key fetch_order (filter (\<lambda>j. j \<in> set (cands g1)) (jobs (pg_db g))))"
    unfolding rows by (simp add: sort_key_map_same)
  then have "rows = map ?f (cands g1)" using cl by (simp add: claim_list_def)
  moreover have "d = (pg_db g)\<lparr>jobs := update_where (\<lambda>j. j \<in> set (cands g1)) ?f (jobs (pg_db g))\<rparr>"
    using update_jobs_Inr [OF upd] update_where_cong [of "jobs (pg_db g)" ?P, OF iff] by simp
  ultimately show thesis using that g1 cl by simp
qed

section \<open>Conversion of claimed rows\<close>

definition malformed :: "foreign \<Rightarrow> job_row \<Rightarrow> bool" where
  "malformed fx row \<longleftrightarrow> (case task_row (fx_conv fx) row of Inl _ \<Rightarrow> True | Inr _ \<Rightarrow> False)"

definition malformed_result :: "foreign \<Rightarrow> job_row \<Rightarrow> json" where
  "malformed_result fx row =
     json_err (truncate_error_payload (error_to_string fx (projl (task_row (fx_conv fx) row))))"

definition task_of :: "foreign \<Rightarrow> job_row \<Rightarrow> compact task \<Rightarrow> bool" where
  "task_of fx row task \<longleftrightarrow> (\<exists>t cells. task_row (fx_conv fx) row = Inr t \<and> task = record_claim cells t)"

lemma quarantined_row_id [simp]: "j_id (quarantined_row r now j) = j_id j"
  by (simp add: quarantined_row_def)

lemma quarantine_InrE:
  assumes "quarantine fx i e g = (Inr n, g')"
  obtains g1 where "later g g1"
    "g' = g1\<lparr>pg_db := (pg_db g)\<lparr>jobs := update_where (\<lambda>j. j_id j = i) (quarantined_row
        (json_err (truncate_error_payload (error_to_string fx e))) (pg_now g1)) (jobs (pg_db g))\<rparr>\<rparr>"
proof -
  let ?f = "quarantined_row (json_err (truncate_error_payload (error_to_string fx e)))"
  from assms obtain g1 d where g1: "later g g1" "g' = g1\<lparr>pg_db := d\<rparr>"
    "update_jobs (\<lambda>j. j_id j = i) (?f (pg_now g1)) (pg_db g1) = (Inr n, d)"
    unfolding quarantine_def by (rule stmt_InrE)
  from update_jobs_Inr [OF g1(3)] laterD(1) [OF g1(1)] g1(2) show thesis
    using that [OF g1(1)] by simp
qed

text \<open>What the conversion pass leaves of one row of the table.\<close>

definition settled :: "foreign \<Rightarrow> job_row list \<Rightarrow> timestamp \<Rightarrow> job_row list \<Rightarrow> job_row \<Rightarrow> bool" where
  "settled fx rows now js j \<longleftrightarrow>
     ((\<forall>row \<in> set rows. malformed fx row \<longrightarrow> j_id row \<noteq> j_id j) \<longrightarrow> j \<in> set js) \<and>
     (\<forall>row \<in> set rows. malformed fx row \<and> j_id row = j_id j \<longrightarrow>
        (\<exists>at \<ge> now. quarantined_row (malformed_result fx row) at j \<in> set js))"

lemma claimed_tasks_Inr:
  assumes "claimed_tasks fx rows g = (Inr tasks, g')" and "distinct (map j_id rows)"
  shows "list_all2 (task_of fx) (filter (\<lambda>r. \<not> malformed fx r) rows) tasks"
    and "workers (pg_db g') = workers (pg_db g)"
    and "map j_id (jobs (pg_db g')) = map j_id (jobs (pg_db g))"
    and "\<forall>j \<in> set (jobs (pg_db g)). settled fx rows (pg_now g) (jobs (pg_db g')) j"
proof -
  have "list_all2 (task_of fx) (filter (\<lambda>r. \<not> malformed fx r) rows) tasks \<and>
    workers (pg_db g') = workers (pg_db g) \<and>
    map j_id (jobs (pg_db g')) = map j_id (jobs (pg_db g)) \<and>
    (\<forall>j \<in> set (jobs (pg_db g)). settled fx rows (pg_now g) (jobs (pg_db g')) j)"
    using assms
  proof (induction rows arbitrary: g tasks)
    case Nil
    then show ?case by (simp add: settled_def)
  next
    case (Cons row rows)
    show ?case
    proof (cases "task_row (fx_conv fx) row")
      case (Inr t)
      with Cons.prems obtain ts where rest: "claimed_tasks fx rows (g\<lparr>pg_next_claim := Suc (pg_next_claim g)\<rparr>)
          = (Inr ts, g')" "tasks = record_claim (pg_next_claim g) t # ts"
        by (auto simp: claimed_task_row_def elim!: sbind_InrE)
      from Cons.IH [OF rest(1)] Cons.prems(2) rest(2) Inr show ?thesis
        by (auto simp: malformed_def task_of_def settled_def)
    next
      case (Inl e)
      with Cons.prems obtain n gq where q: "quarantine fx (j_id row) e g = (Inr n, gq)"
        and rest: "claimed_tasks fx rows gq = (Inr tasks, g')"
        by (auto simp: claimed_task_row_def elim!: sbind_InrE)
      from q obtain g1 where g1: "later g g1" and gq: "gq = g1\<lparr>pg_db := (pg_db g)\<lparr>jobs :=
          update_where (\<lambda>j. j_id j = j_id row) (quarantined_row (malformed_result fx row) (pg_now g1))
            (jobs (pg_db g))\<rparr>\<rparr>"
        unfolding malformed_result_def Inl by (auto elim!: quarantine_InrE)
      have IH: "list_all2 (task_of fx) (filter (\<lambda>r. \<not> malformed fx r) rows) tasks"
        "workers (pg_db g') = workers (pg_db gq)"
        "map j_id (jobs (pg_db g')) = map j_id (jobs (pg_db gq))"
        "\<forall>j \<in> set (jobs (pg_db gq)). settled fx rows (pg_now gq) (jobs (pg_db g')) j"
        using Cons.IH [OF rest] Cons.prems(2) by auto
      have now: "pg_now g \<le> pg_now gq" "pg_now gq = pg_now g1" using laterD(5) [OF g1] gq by simp_all
      have "settled fx (row # rows) (pg_now g) (jobs (pg_db g')) j" if j: "j \<in> set (jobs (pg_db g))" for j
      proof (cases "j_id j = j_id row")
        case True
        let ?k = "quarantined_row (malformed_result fx row) (pg_now g1) j"
        from True j have "?k \<in> set (jobs (pg_db gq))" unfolding gq by (simp add: update_where_in)
        from IH(4) [rule_format, OF this] Cons.prems(2) True have "?k \<in> set (jobs (pg_db g'))"
          by (auto simp: settled_def image_iff)
        then show ?thesis
          using True Cons.prems(2) now Inl by (auto simp: settled_def malformed_def image_iff)
      next
        case False
        with j have "j \<in> set (jobs (pg_db gq))" unfolding gq by (simp add: update_where_frame)
        from IH(4) [rule_format, OF this] False now(1) show ?thesis
          unfolding settled_def by (auto intro: order_trans)
      qed
      then show ?thesis
        using IH Inl by (auto simp: gq malformed_def map_update_where)
    qed
  qed
  then show "list_all2 (task_of fx) (filter (\<lambda>r. \<not> malformed fx r) rows) tasks"
    "workers (pg_db g') = workers (pg_db g)"
    "map j_id (jobs (pg_db g')) = map j_id (jobs (pg_db g))"
    "\<forall>j \<in> set (jobs (pg_db g)). settled fx rows (pg_now g) (jobs (pg_db g')) j" by blast+
qed
section \<open>The lifecycle contract of claims\<close>

lemma require_worker_lifecycle: "ensures lifecycle (require_worker w q t)"
  unfolding require_worker_def
proof (intro life.ensures_sbind worker_registration_lifecycle life.ensures_case_option
    life.ensures_sreturn)
  show "ensures lifecycle (case r of
      Current \<Rightarrow> sreturn ()
    | Absent \<Rightarrow> sthrow (worker_not_registered ''claiming task'' w q hint_absent)
    | Replaced \<Rightarrow> sthrow (worker_not_registered ''claiming task'' w q hint_replaced))" for r
    by (cases r) (simp_all add: life.ensures_intros)
qed

lemma task_queue_lifecycle: "ensures lifecycle (task_queue i s op)"
  unfolding task_queue_def by (rule select_lifecycle)

lemma claim_row_evolves:
  assumes "claimable j"
  shows "job_evolves j (claim_row w now j) \<and> job_shape (claim_row w now j)"
proof -
  have "phase (claim_row w now j) = Held w (j_attempts j)" by (simp add: claim_row_def phase_def)
  then have "(move (j_max_attempts j))\<^sup>*\<^sup>* (phase j) (phase (claim_row w now j))"
    using assms claimable_phase [OF assms] by (auto simp: claimable_def intro: move.intros)
  with assms show ?thesis
    by (auto simp: job_evolves_def same_task_def job_shape_def claim_row_def claimable_def)
qed

lemma claim_stmt_lifecycle:
  assumes "\<And>g j. db_ok (pg_db g) \<Longrightarrow> j \<in> set (cands g) \<Longrightarrow>
             j \<in> set (jobs (pg_db g)) \<and> claimable j"
  shows "ensures lifecycle (claim_stmt op w cands)"
  unfolding claim_stmt_def
proof (rule life.ensures_stmt)
  fix g x d
  assume "(case update_jobs_returning (\<lambda>j. j_id j \<in> set (map j_id (cands g)))
              (claim_row w (pg_now g)) (pg_db g) of
         (Inl e, d) \<Rightarrow> (Inl e, d)
       | (Inr rows, d) \<Rightarrow> (Inr (sort_key fetch_order rows), d)) = (Inr x, d)"
  then obtain n where upd: "update_jobs (\<lambda>j. j_id j \<in> set (map j_id (cands g)))
      (claim_row w (pg_now g)) (pg_db g) = (Inr n, d)"
    by (auto simp: update_jobs_returning_def split: prod.splits sum.splits)
  show "lifecycle (pg_db g) d"
  proof (cases "db_inv (pg_db g)")
    case True
    then have ok: "db_ok (pg_db g)" ..
    then have dist: "distinct (map j_id (jobs (pg_db g)))" by (simp add: db_ok_def)
    have "set (cands g) \<subseteq> set (jobs (pg_db g))" using assms [OF ok] by blast
    note iff = id_where_iff [OF dist this]
    have live: "claimable j"
      if "j \<in> set (jobs (pg_db g))" "j_id j \<in> set (map j_id (cands g))" for j
      using iff [OF that(1)] that(2) assms [OF ok, of j] by blast
    from upd show ?thesis
      by (rule update_jobs_lifecycle) (rule claim_row_evolves, rule live)
  qed (simp add: lifecycle_def)
qed

lemma quarantined_row_evolves:
  assumes "job_checks j" and "is_active (j_status j)" and "job_checks (quarantined_row r now j)"
  shows "job_evolves j (quarantined_row r now j) \<and> job_shape (quarantined_row r now j)"
proof -
  have "(move (j_max_attempts j))\<^sup>*\<^sup>* (phase j) (phase (quarantined_row r now j))"
    by (rule hold_ends [OF assms(2,1) _ _ assms(3)])
       (use assms(1) in \<open>auto simp: quarantined_row_def job_checks_def\<close>)
  moreover have "\<not> is_terminal (j_status j)" using assms(2) by (cases "j_status j") auto
  ultimately show ?thesis
    using assms(1)
    by (auto simp: job_evolves_def same_task_def job_shape_def quarantined_row_def job_checks_def)
qed

text \<open>The conversion pass keeps the contract on rows that are held and have distinct ids.\<close>

definition open_rows :: "job_row list \<Rightarrow> db \<Rightarrow> bool" where
  "open_rows rows d \<longleftrightarrow>
     (\<forall>j \<in> set (jobs d). j_id j \<in> set (map j_id rows) \<longrightarrow> is_active (j_status j))"

lemma quarantine_lifecycle:
  assumes "open_rows [row] (pg_db g)"
  shows "lifecycle (pg_db g) (pg_db (snd (quarantine fx (j_id row) e g)))"
  unfolding quarantine_def
proof (rule life.stmt_at)
  fix g1 :: pg and x d
  let ?f = "quarantined_row (json_err (truncate_error_payload (error_to_string fx e))) (pg_now g1)"
  assume "later g g1" and upd: "update_jobs (\<lambda>j. j_id j = j_id row) ?f (pg_db g1) = (Inr x, d)"
  then have db: "pg_db g1 = pg_db g" by (simp add: laterD)
  from upd [unfolded db] show "lifecycle (pg_db g) d"
    by (rule update_jobs_lifecycle) (rule quarantined_row_evolves, use assms in \<open>auto simp: open_rows_def\<close>)
qed

lemma claimed_tasks_lifecycle:
  assumes "distinct (map j_id rows)" and "open_rows rows (pg_db g)"
  shows "lifecycle (pg_db g) (pg_db (snd (claimed_tasks fx rows g)))"
  using assms
proof (induction rows arbitrary: g)
  case Nil
  then show ?case by (simp add: life.refl)
next
  case (Cons row rows)
  show ?case
  proof (cases "task_row (fx_conv fx) row")
    case (Inr t)
    let ?g = "g\<lparr>pg_next_claim := Suc (pg_next_claim g)\<rparr>"
    have "lifecycle (pg_db ?g) (pg_db (snd (claimed_tasks fx rows ?g)))"
      using Cons by (intro Cons.IH) (auto simp: open_rows_def)
    with Inr show ?thesis
      by (auto simp: claimed_task_row_def sbind_def split: prod.splits sum.splits)
  next
    case (Inl e)
    obtain r gq where q: "quarantine fx (j_id row) e g = (r, gq)" by fastforce
    then have lq: "lifecycle (pg_db g) (pg_db gq)"
      using quarantine_lifecycle [of row g fx e] Cons.prems by (auto simp: open_rows_def)
    show ?thesis
    proof (cases r)
      case (Inl e')
      with q lq \<open>task_row _ _ = Inl e\<close> show ?thesis by (simp add: claimed_task_row_def)
    next
      case (Inr n)
      with q obtain g1 where "gq = g1\<lparr>pg_db := (pg_db g)\<lparr>jobs := update_where (\<lambda>j. j_id j = j_id row)
          (quarantined_row (json_err (truncate_error_payload (error_to_string fx e))) (pg_now g1))
          (jobs (pg_db g))\<rparr>\<rparr>"
        by (auto elim!: quarantine_InrE)
      then have "open_rows rows (pg_db gq)"
        using Cons.prems by (auto simp: open_rows_def set_update_where)
      then have "lifecycle (pg_db gq) (pg_db (snd (claimed_tasks fx rows gq)))"
        using Cons by auto
      with lq Inr q \<open>task_row _ _ = Inl e\<close> show ?thesis
        by (auto simp: claimed_task_row_def intro: life.trans)
    qed
  qed
qed

text \<open>The work of both claim paths, for any list of eligible rows.\<close>

definition eligible :: "(pg \<Rightarrow> job_row list) \<Rightarrow> bool" where
  "eligible cands \<longleftrightarrow> (\<forall>g. db_ok (pg_db g) \<longrightarrow>
     claim_list (jobs (pg_db g)) (cands g) \<and> (\<forall>j \<in> set (cands g). claimable j))"

lemma claimable_open: "claimable j \<Longrightarrow> \<not> is_terminal (j_status j) \<and> \<not> is_active (j_status j)"
  by (auto simp: claimable_def)

lemma next_jobs_eligible: "eligible (next_jobs q n)"
  by (auto simp: eligible_def next_jobs_claim_list) (auto simp: next_jobs_def due_def dest!: in_set_takeD)

lemma notified_jobs_eligible: "eligible (notified_jobs q ids)"
  by (auto simp: eligible_def notified_jobs_claim_list) (auto simp: notified_jobs_def due_def)

abbreviation claim_work ::
    "foreign \<Rightarrow> string \<Rightarrow> string \<Rightarrow> string option \<Rightarrow> string \<Rightarrow> (pg \<Rightarrow> job_row list) \<Rightarrow> compact task list sql" where
  "claim_work fx w q t op cands \<equiv>
     sbind (require_worker w q t) (\<lambda>_. sbind (claim_stmt op w cands) (claimed_tasks fx))"

lemma claim_stmt_then_tasks_lifecycle:
  assumes "eligible cands"
  shows "ensures lifecycle (sbind (claim_stmt op w cands) (claimed_tasks fx))"
  unfolding ensures_def
proof
  fix g
  have elig: "db_ok (pg_db h) \<Longrightarrow> claim_list (jobs (pg_db h)) (cands h)"
    "db_ok (pg_db h) \<Longrightarrow> j \<in> set (cands h) \<Longrightarrow> claimable j" for h j
    using assms by (auto simp: eligible_def)
  then have cl: "ensures lifecycle (claim_stmt op w cands)"
    by (intro claim_stmt_lifecycle) (meson claim_list_def subsetD)
  obtain r g1 where run: "claim_stmt op w cands g = (r, g1)" by fastforce
  then have l1: "lifecycle (pg_db g) (pg_db g1)" using ensuresD_run [OF cl] by blast
  show "lifecycle (pg_db g) (pg_db (snd (sbind (claim_stmt op w cands) (claimed_tasks fx) g)))"
  proof (cases "\<exists>rows. r = Inr rows \<and> db_inv (pg_db g)")
    case False
    with run l1 show ?thesis by (cases r) (auto simp: lifecycle_def)
  next
    case True
    then obtain rows where rows: "r = Inr rows" and inv: "db_inv (pg_db g)" by blast
    with run elig(1) obtain g2 where
      rw: "rows = map (claim_row w (pg_now g2)) (cands g2)"
      and g1: "g1 = g2\<lparr>pg_db := (pg_db g)\<lparr>jobs := update_where (\<lambda>j. j \<in> set (cands g2))
          (claim_row w (pg_now g2)) (jobs (pg_db g))\<rparr>\<rparr>"
      and cls: "claim_list (jobs (pg_db g)) (cands g2)"
      by (metis claim_stmt_InrE db_inv_ok)
    have dist: "distinct (map j_id (jobs (pg_db g)))" using inv by (simp add: db_inv_def db_ok_def)
    have "distinct (map j_id (cands g2))"
      using cls dist by (auto simp: claim_list_def distinct_map intro: inj_on_subset)
    then have d: "distinct (map j_id rows)" by (simp add: rw comp_def)
    have "open_rows rows (pg_db g1)"
      using id_where_iff [OF dist, of "cands g2"] cls
      by (auto simp: open_rows_def rw g1 set_update_where claim_list_def) (auto simp: claim_row_def)
    from claimed_tasks_lifecycle [OF d this] l1 rows run show ?thesis
      by (auto intro: life.trans)
  qed
qed

lemma claim_work_lifecycle: "eligible cands \<Longrightarrow> ensures lifecycle (claim_work fx w q t op cands)"
  by (intro life.ensures_sbind require_worker_lifecycle claim_stmt_then_tasks_lifecycle)

context db_relation
begin

lemma ensures_with_claim_conn:
  assumes "ensures R work"
  shows "ensures R (with_claim_conn op has work)"
proof -
  let ?T = "with_conn (transaction (sbind work (\<lambda>v g. (Inr v, g\<lparr>pg_claimed := has v\<rparr>))))"
  have T: "ensures R ?T"
    by (intro ensures_with_conn ensures_transaction ensures_sbind assms)
       (simp add: ensures_def refl)
  have "snd (with_claim_conn op has work g) = snd (?T (g\<lparr>pg_claimed := False\<rparr>))" for g
    by (simp add: with_claim_conn_def split: prod.splits)
  then show ?thesis
    unfolding ensures_def using ensuresD [OF T, of "g\<lparr>pg_claimed := False\<rparr>" for g] by simp
qed

end

lemma fetch_next_lifecycle: "ensures lifecycle (fetch_next fx cfg w t)"
  unfolding fetch_next_def
  by (intro life.ensures_with_claim_conn claim_work_lifecycle next_jobs_eligible)

lemma queue_by_id_lifecycle: "ensures lifecycle (queue_by_id fx q ids w t)"
  unfolding queue_by_id_def
  by (intro life.ensures_with_claim_conn claim_work_lifecycle notified_jobs_eligible)

lemma failed_row_evolves:
  assumes "job_checks j" and "is_active (j_status j)" and "job_checks (failed_row r now j)"
  shows "job_evolves j (failed_row r now j) \<and> job_shape (failed_row r now j)"
proof -
  have "\<not> is_terminal (j_status j)" using assms(2) by (cases "j_status j") auto
  moreover have "(move (j_max_attempts j))\<^sup>*\<^sup>* (phase j) (phase (failed_row r now j))"
    by (rule hold_ends [OF assms(2,1) _ _ assms(3)])
       (use assms(1) in \<open>auto simp: failed_row_def job_checks_def split: if_splits\<close>)
  ultimately show ?thesis
    using assms(1)
    by (auto simp: job_evolves_def same_task_def job_shape_def failed_row_def job_checks_def)
qed

lemma fail_epoch_lifecycle: "ensures lifecycle (fail_epoch i w l a e)"
  unfolding fail_epoch_def
proof (rule life.ensures_stmt)
  fix g n d
  assume "update_jobs (epoch i w l a) (failed_row (json_err (truncate_error_payload e)) (pg_now g))
     (pg_db g) = (Inr n, d)"
  then show "lifecycle (pg_db g) d"
    by (rule update_jobs_lifecycle) (rule failed_row_evolves, auto simp: epoch_def)
qed

lemma fail_undecodable_task_lifecycle: "ensures lifecycle (fail_undecodable_task i w l a e t)"
  unfolding fail_undecodable_task_def
  by (intro life.ensures_intros fail_epoch_lifecycle task_queue_lifecycle
      lock_current_worker_lifecycle)

lemma start_task_lifecycle: "ensures lifecycle (start_task c)"
  unfolding start_task_def
proof (intro life.ensures_with_conn life.ensures_sbind life.ensures_stmt life.ensures_sreturn)
  fix g n d
  assume "update_jobs (\<lambda>j. list_ex (start_owner c) (workers (pg_db g)) \<and> startable c j)
         (\<lambda>j. j\<lparr>j_status := Running\<rparr>) (pg_db g) = (Inr n, d)"
  then show "lifecycle (pg_db g) d"
    by (rule update_jobs_lifecycle)
       (auto simp: startable_def job_evolves_def same_task_def job_shape_def phase_def)
qed

lemma claimed_task_row_lifecycle: "ensures lifecycle (claimed_task_row conv row)"
  by (auto simp: ensures_def claimed_task_row_def life.refl split: sum.splits)

lemma lockable_moves:
  assumes "lockable i q w now j"
  shows "(move (j_max_attempts j))\<^sup>*\<^sup>* (phase j) (phase (locked_row w now j))"
proof -
  have held: "phase (locked_row w now j) = Held w (j_attempts j)"
    by (rule phase_active [THEN trans]) (simp_all add: locked_row_def)
  from assms consider "claimable j" | "is_active (j_status j)" "j_lock_by j = Some w"
    by (auto simp: lockable_def claimable_def)
  then show ?thesis
  proof cases
    case 1
    then have "j_attempts j < j_max_attempts j" by (simp add: claimable_def)
    then have "move (j_max_attempts j) (phase j) (phase (locked_row w now j))"
      unfolding held claimable_phase [OF 1] by (rule move.take)
    then show ?thesis ..
  next
    case 2
    then show ?thesis unfolding held by (simp add: phase_active)
  qed
qed

lemma lockable_evolves:
  assumes "lockable i q w now j"
  shows "job_evolves j (locked_row w now j) \<and> job_shape (locked_row w now j)"
proof -
  have "\<not> is_terminal (j_status j)" using assms by (auto simp: lockable_def is_terminal_def)
  with lockable_moves [OF assms] show ?thesis
    by (simp add: locked_row_def job_evolves_def same_task_def job_shape_def)
qed

lemma lock_task_with_token_lifecycle: "ensures lifecycle (lock_task_with_token fx i w q t)"
  unfolding lock_task_with_token_def
proof (intro life.ensures_with_claim_conn life.ensures_sbind task_queue_lifecycle
    life.ensures_case_option life.ensures_sreturn require_worker_lifecycle life.ensures_stmt)
  fix g rows d
  assume "update_jobs_returning (lockable i q w (pg_now g)) (locked_row w (pg_now g)) (pg_db g)
    = (Inr rows, d)"
  then obtain n where "update_jobs (lockable i q w (pg_now g)) (locked_row w (pg_now g)) (pg_db g)
    = (Inr n, d)"
    by (auto simp: update_jobs_returning_def split: prod.splits sum.splits)
  then show "lifecycle (pg_db g) d"
    by (rule update_jobs_lifecycle) (rule lockable_evolves)
next
  show "ensures lifecycle (case rows of
      [] \<Rightarrow> sthrow (task_not_found ''locking task'' i q (hint_lock (q \<noteq> None)))
    | row # _ \<Rightarrow> claimed_task_row (fx_conv fx) row)" for rows
    by (cases rows) (simp_all add: life.ensures_sthrow claimed_task_row_lifecycle)
qed
section \<open>What a poll claims\<close>

text \<open>
  The polled candidates are due, claimable rows of the queue that no other session holds, in
  order of descending priority and ascending run time, at most the configured batch (and at least
  one slot). A due, unlocked row is left out only when the batch is full, and then no chosen row
  comes after it in that order.
\<close>

lemma next_jobs_best:
  "length (next_jobs q n g) \<le> n \<and> sorted (map fetch_order (next_jobs q n g)) \<and>
   (\<forall>j \<in> set (next_jobs q n g). j \<in> set (jobs (pg_db g)) \<and> claimable j \<and> j_run_at j \<le> pg_now g \<and>
      j_job_type j = q \<and> j_id j \<notin> set (pg_locked_jobs g)) \<and>
   (\<forall>j \<in> set (jobs (pg_db g)). due q (pg_now g) j \<and> unlocked g j \<and> j \<notin> set (next_jobs q n g) \<longrightarrow>
      length (next_jobs q n g) = n \<and> (\<forall>c \<in> set (next_jobs q n g). fetch_order c \<le> fetch_order j)) \<and>
   1 \<le> fetch_limit cfg \<and> fetch_limit cfg \<le> max (c_buffer_size cfg) 1"
proof -
  define ys where "ys = filter (unlocked g) (sort_key fetch_order (filter (due q (pg_now g)) (jobs (pg_db g))))"
  have nj: "next_jobs q n g = take n ys" by (simp add: next_jobs_def ys_def)
  have ys: "sorted (map fetch_order ys)" "set ys = {j \<in> set (jobs (pg_db g)). due q (pg_now g) j \<and> unlocked g j}"
    by (auto simp: ys_def sorted_filter)
  have "sorted (map fetch_order (take n ys))" using ys(1) by (simp add: take_map [symmetric] sorted_wrt_take)
  moreover have "length (take n ys) = n \<and> (\<forall>c \<in> set (take n ys). fetch_order c \<le> fetch_order j)"
    if "j \<in> set ys" "j \<notin> set (take n ys)" for j
  proof -
    have drop: "j \<in> set (drop n ys)"
      using that by (metis Un_iff append_take_drop_id set_append)
    have "sorted (map fetch_order (take n ys) @ map fetch_order (drop n ys))"
      using ys(1) by (simp flip: map_append)
    with drop show ?thesis
      by (auto simp: sorted_append) (metis drop_all empty_iff empty_set linorder_le_cases min.absorb2)
  qed
  moreover have "1 \<le> fetch_limit cfg \<and> fetch_limit cfg \<le> max (c_buffer_size cfg) 1"
    by (auto simp: fetch_limit_def clamp_i32_def i32_try_from_def in_i32_def i32_max_def i32_min_def)
  ultimately show ?thesis
    using ys(2) unfolding nj by (auto simp: due_def unlocked_def dest: in_set_takeD)
qed

lemma require_worker_Inr: "require_worker w q t g = (Inr u, g') \<Longrightarrow> later g g'"
  unfolding require_worker_def
  by (auto elim!: sbind_InrE worker_registration_InrE split: option.splits registration.splits)

lemma with_claim_conn_InrE:
  assumes "with_claim_conn op has work g = (Inr x, g')"
  obtains g1 g2 where "later g g1" "work g1 = (Inr x, g2)" "pg_db g' = pg_db g2"
proof -
  let ?flag = "\<lambda>v (g :: pg). (Inr v, g\<lparr>pg_claimed := has v\<rparr>)"
  from assms have "with_conn (transaction (sbind work ?flag)) (g\<lparr>pg_claimed := False\<rparr>) = (Inr x, g')"
    by (auto simp: with_claim_conn_def claim_outcome_eq_Inr split: prod.splits)
  then obtain ga gb gc gd where "later (g\<lparr>pg_claimed := False\<rparr>) ga" "later ga gb"
    and "sbind work ?flag gb = (Inr x, gc)" and db: "pg_db g' = pg_db gc"
    by (elim with_conn_InrE transaction_InrE) blast
  then obtain gd where "work gb = (Inr x, gd)" "gc = gd\<lparr>pg_claimed := has x\<rparr>" "later g gb"
    by (auto elim!: sbind_InrE simp: later_def)
  with db show thesis using that by simp
qed

text \<open>A claiming transaction that returned tasks, decomposed.\<close>

lemma claim_work_InrE:
  assumes "claim_work fx w q t op cands g = (Inr tasks, g')"
    and "db_ok (pg_db g)" and "eligible cands"
  obtains g1 gm where "later g g1" "pg_now gm = pg_now g1"
    "claim_list (jobs (pg_db g)) (cands g1)" "\<forall>j \<in> set (cands g1). claimable j"
    "jobs (pg_db gm) = update_where (\<lambda>j. j \<in> set (cands g1)) (claim_row w (pg_now g1)) (jobs (pg_db g))"
    "workers (pg_db gm) = workers (pg_db g)"
    "claimed_tasks fx (map (claim_row w (pg_now g1)) (cands g1)) gm = (Inr tasks, g')"
proof -
  from assms(1) obtain gb gc rows where "require_worker w q t g = (Inr (), gb)"
    and cs: "claim_stmt op w cands gb = (Inr rows, gc)"
    and ct: "claimed_tasks fx rows gc = (Inr tasks, g')"
    by (elim sbind_InrE) auto
  then have gb: "later g gb" using require_worker_Inr by blast
  have el: "db_ok (pg_db h) \<Longrightarrow> claim_list (jobs (pg_db h)) (cands h)"
    "db_ok (pg_db h) \<Longrightarrow> \<forall>j \<in> set (cands h). claimable j" for h
    using assms(3) by (auto simp: eligible_def)
  have ok: "db_ok (pg_db gb)" using assms(2) laterD(1) [OF gb] by simp
  from claim_stmt_InrE [OF cs ok el(1)] obtain g1 where g1: "later gb g1"
    and rows: "rows = map (claim_row w (pg_now g1)) (cands g1)"
    and gc: "gc = g1\<lparr>pg_db := (pg_db gb)\<lparr>jobs := update_where (\<lambda>j. j \<in> set (cands g1))
                                    (claim_row w (pg_now g1)) (jobs (pg_db gb))\<rparr>\<rparr>"
    and cl: "claim_list (jobs (pg_db gb)) (cands g1)" by blast
  show thesis
  proof (rule that [of g1 gc])
    show "later g g1" using gb g1 by (rule later_trans)
    show "\<forall>j \<in> set (cands g1). claimable j" using el(2) [of g1] ok laterD(1) [OF g1] by simp
    show "claimed_tasks fx (map (claim_row w (pg_now g1)) (cands g1)) gc = (Inr tasks, g')"
      using ct rows by blast
  qed (use gc cl laterD(1) [OF gb] in simp_all)
qed

lemma claim_list_distinct_ids:
  "db_ok d \<Longrightarrow> claim_list (jobs d) cs \<Longrightarrow> distinct (map j_id cs)"
  by (auto simp: db_ok_def claim_list_def distinct_map intro: inj_on_subset)

text \<open>What a claiming call leaves of the table, row by row.\<close>

definition claim_effect ::
    "foreign \<Rightarrow> string \<Rightarrow> timestamp \<Rightarrow> job_row list \<Rightarrow> job_row list \<Rightarrow> job_row list \<Rightarrow> bool" where
  "claim_effect fx w now cs js js' \<longleftrightarrow>
     map j_id js' = map j_id js \<and>
     (\<forall>j \<in> set js. if j \<notin> set cs then j \<in> set js'
        else if malformed fx (claim_row w now j)
        then \<exists>at \<ge> now. quarantined_row (malformed_result fx (claim_row w now j)) at (claim_row w now j) \<in> set js'
        else claim_row w now j \<in> set js')"

lemma claim_work_effect:
  assumes "claim_work fx w q t op cands g = (Inr tasks, g')"
    and ok: "db_ok (pg_db g)" and "eligible cands"
  obtains g1 where "later g g1" "claim_list (jobs (pg_db g)) (cands g1)" "\<forall>j \<in> set (cands g1). claimable j"
    "workers (pg_db g') = workers (pg_db g)"
    "claim_effect fx w (pg_now g1) (cands g1) (jobs (pg_db g)) (jobs (pg_db g'))"
    "list_all2 (task_of fx)
       (filter (\<lambda>r. \<not> malformed fx r) (map (claim_row w (pg_now g1)) (cands g1))) tasks"
proof -
  from assms obtain g1 gm where g1: "later g g1" "pg_now gm = pg_now g1"
    and cl: "claim_list (jobs (pg_db g)) (cands g1)" "\<forall>j \<in> set (cands g1). claimable j"
    and jm: "jobs (pg_db gm) = update_where (\<lambda>j. j \<in> set (cands g1)) (claim_row w (pg_now g1)) (jobs (pg_db g))"
    and wm: "workers (pg_db gm) = workers (pg_db g)"
    and ct: "claimed_tasks fx (map (claim_row w (pg_now g1)) (cands g1)) gm = (Inr tasks, g')"
    by (rule claim_work_InrE)
  let ?f = "claim_row w (pg_now g1)"
  have "distinct (map j_id (map ?f (cands g1)))"
    using claim_list_distinct_ids [OF ok cl(1)] by (simp add: comp_def)
  note res = claimed_tasks_Inr [OF ct this]
  have dist: "distinct (map j_id (jobs (pg_db g)))" using ok by (simp add: db_ok_def)
  have sub: "set (cands g1) \<subseteq> set (jobs (pg_db g))" using cl(1) by (simp add: claim_list_def)
  have eff: "claim_effect fx w (pg_now g1) (cands g1) (jobs (pg_db g)) (jobs (pg_db g'))"
    unfolding claim_effect_def
  proof (intro conjI ballI)
    show "map j_id (jobs (pg_db g')) = map j_id (jobs (pg_db g))"
      using res(3) jm by (simp add: map_update_where)
    fix j assume j: "j \<in> set (jobs (pg_db g))"
    have iff: "j_id j \<in> j_id ` set (cands g1) \<longleftrightarrow> j \<in> set (cands g1)"
      using id_where_iff [OF dist sub j] by simp
    show "if j \<notin> set (cands g1) then j \<in> set (jobs (pg_db g'))
        else if malformed fx (?f j)
        then \<exists>at \<ge> pg_now g1. quarantined_row (malformed_result fx (?f j)) at (?f j) \<in> set (jobs (pg_db g'))
        else ?f j \<in> set (jobs (pg_db g'))"
    proof (cases "j \<in> set (cands g1)")
      case False
      then have "j \<in> set (jobs (pg_db gm))" using j jm by (simp add: update_where_frame)
      from res(4) [rule_format, OF this] False iff show ?thesis
        by (auto simp: settled_def image_iff)
    next
      case True
      then have "?f j \<in> set (jobs (pg_db gm))" using j jm by (simp add: update_where_in)
      from res(4) [rule_format, OF this]
      have s: "settled fx (map ?f (cands g1)) (pg_now g1) (jobs (pg_db g')) (?f j)"
        using g1(2) by simp
      have "k = j" if "k \<in> set (cands g1)" "j_id k = j_id j" for k
        using that sub j dist by (metis distinct_key_unique subsetD)
      with s True show ?thesis by (auto simp: settled_def)
    qed
  qed
  show thesis
    using that [OF g1(1) cl] eff res(1,2) wm by simp
qed

lemma claim_conn_effect:
  assumes "with_claim_conn op' has (claim_work fx w q t op cands) g = (Inr tasks, g')"
    and ok: "db_ok (pg_db g)" and el: "eligible cands"
  obtains g1 where "later g g1" "claim_list (jobs (pg_db g)) (cands g1)" "\<forall>j \<in> set (cands g1). claimable j"
    "workers (pg_db g') = workers (pg_db g)"
    "claim_effect fx w (pg_now g1) (cands g1) (jobs (pg_db g)) (jobs (pg_db g'))"
    "list_all2 (task_of fx)
       (filter (\<lambda>r. \<not> malformed fx r) (map (claim_row w (pg_now g1)) (cands g1))) tasks"
proof -
  from assms(1) obtain ga gb where ga: "later g ga" "claim_work fx w q t op cands ga = (Inr tasks, gb)"
    and db: "pg_db g' = pg_db gb" by (rule with_claim_conn_InrE)
  have dba: "pg_db ga = pg_db g" by (rule laterD(1) [OF ga(1)])
  show thesis
    using ga(2) ok [folded dba] el
    by (rule claim_work_effect)
       (rule that, rule later_trans [OF ga(1)], assumption, simp_all only: dba db)
qed

text \<open>The rows a claim and a quarantine leave, written out for the statement of the property.\<close>

abbreviation claimed_by :: "string \<Rightarrow> timestamp \<Rightarrow> job_row \<Rightarrow> job_row" where
  "claimed_by w now j \<equiv> j\<lparr>j_status := Queued, j_lock_by := Some w,
     j_lock_at := Some (now div 1000000 * 1000000), j_done_at := None\<rparr>"

lemma claim_row_eq: "claim_row w now = claimed_by w now"
  by (simp add: claim_row_def now_trunc_def fun_eq_iff)

lemma quarantined_claim_eq: "quarantined_row res at (claimed_by w now j) =
    (claimed_by w now j)\<lparr>j_status := Killed, j_attempts := min (j_attempts j + 1) (j_max_attempts j),
      j_done_at := Some at, j_last_result := Some res, j_lock_by := None, j_lock_at := None\<rparr>"
  by (simp add: quarantined_row_def)

lemma fetch_next_claims_raw:
  assumes "db_ok (pg_db g)" and "fetch_next fx cfg w t g = (Inr tasks, g')"
  shows "\<exists>g1. later g g1 \<and> workers (pg_db g') = workers (pg_db g) \<and>
    claim_effect fx (wc_name w) (pg_now g1) (next_jobs (c_queue cfg) (fetch_limit cfg) g1)
      (jobs (pg_db g)) (jobs (pg_db g')) \<and>
    list_all2 (task_of fx) (filter (\<lambda>r. \<not> malformed fx r)
      (map (claim_row (wc_name w) (pg_now g1)) (next_jobs (c_queue cfg) (fetch_limit cfg) g1))) tasks"
  using assms(2) unfolding fetch_next_def
  by (rule claim_conn_effect [OF _ assms(1) next_jobs_eligible]) blast

text \<open>
  C30. A poll that returned tasks claimed exactly the candidates of its statement: each is now
  \<open>Queued\<close> under the worker with the claim second, and is returned in fetch order with its
  claim record, except that a row that does not convert is quarantined as \<open>Killed\<close> and
  not returned. Every other row, and every registration, is unchanged.
\<close>

theorem fetch_next_claims:
  assumes "db_ok (pg_db g)" and "fetch_next fx cfg w t g = (Inr tasks, g')"
  shows "\<exists>g1. later g g1 \<and> workers (pg_db g') = workers (pg_db g) \<and>
    map j_id (jobs (pg_db g')) = map j_id (jobs (pg_db g)) \<and>
    (\<forall>j \<in> set (jobs (pg_db g)).
       if j \<notin> set (next_jobs (c_queue cfg) (fetch_limit cfg) g1) then j \<in> set (jobs (pg_db g'))
       else if malformed fx (claimed_by (wc_name w) (pg_now g1) j)
       then \<exists>at \<ge> pg_now g1. (claimed_by (wc_name w) (pg_now g1) j)\<lparr>j_status := Killed,
         j_attempts := min (j_attempts j + 1) (j_max_attempts j), j_done_at := Some at,
         j_last_result := Some (malformed_result fx (claimed_by (wc_name w) (pg_now g1) j)),
         j_lock_by := None, j_lock_at := None\<rparr> \<in> set (jobs (pg_db g'))
       else claimed_by (wc_name w) (pg_now g1) j \<in> set (jobs (pg_db g'))) \<and>
    list_all2 (task_of fx) (filter (\<lambda>r. \<not> malformed fx r)
      (map (claimed_by (wc_name w) (pg_now g1)) (next_jobs (c_queue cfg) (fetch_limit cfg) g1))) tasks"
  using fetch_next_claims_raw [OF assms]
  unfolding claim_effect_def claim_row_eq quarantined_claim_eq conj_assoc .

section \<open>Exclusive claims\<close>

lemma claim_effect_inv:
  assumes ok: "db_ok d" and eff: "claim_effect fx w now cs (jobs d) (jobs d')" and j': "j' \<in> set (jobs d')"
  obtains (kept) "j' \<in> set (jobs d)" "j' \<notin> set cs"
  | (claimed) j where "j \<in> set (jobs d)" "j \<in> set cs" "j' = claim_row w now j" "\<not> malformed fx j'"
  | (killed) j at where "j \<in> set (jobs d)" "j \<in> set cs"
      "j' = quarantined_row (malformed_result fx (claim_row w now j)) at (claim_row w now j)"
proof -
  have ids: "map j_id (jobs d') = map j_id (jobs d)" using eff by (simp add: claim_effect_def)
  then have dist: "distinct (map j_id (jobs d'))" using ok by (simp add: db_ok_def)
  have "j_id j' \<in> set (map j_id (jobs d'))" using j' by simp
  then obtain j where j: "j \<in> set (jobs d)" "j_id j = j_id j'" unfolding ids by auto
  have same: "k \<in> set (jobs d') \<Longrightarrow> j_id k = j_id j' \<Longrightarrow> j' = k" for k
    using distinct_key_unique [OF dist j'] by metis
  from eff j(1) have "if j \<notin> set cs then j \<in> set (jobs d')
        else if malformed fx (claim_row w now j)
        then \<exists>at \<ge> now. quarantined_row (malformed_result fx (claim_row w now j)) at (claim_row w now j) \<in> set (jobs d')
        else claim_row w now j \<in> set (jobs d')" by (simp add: claim_effect_def)
  then consider "j \<notin> set cs" "j \<in> set (jobs d')"
    | at where "j \<in> set cs" "quarantined_row (malformed_result fx (claim_row w now j)) at (claim_row w now j) \<in> set (jobs d')"
    | "j \<in> set cs" "\<not> malformed fx (claim_row w now j)" "claim_row w now j \<in> set (jobs d')"
    by (auto split: if_splits)
  then show thesis
  proof cases
    case 1
    then show thesis using kept same [of j] j by simp
  next
    case (2 at)
    then show thesis using killed [of j at] same [OF 2(2)] j by simp
  next
    case 3
    then show thesis using claimed [of j] same [OF 3(3)] j by simp
  qed
qed

lemma tasks_carry_ids:
  assumes "list_all2 (task_of fx) rows tasks" and "conv_faithful (fx_conv fx)" and "task \<in> set tasks"
  obtains row where "row \<in> set rows" "t_task_id task = Some (j_id row)" "t_lock_by task = j_lock_by row"
    "task_of fx row task"
proof -
  from assms(1,3) obtain row where row: "row \<in> set rows" "task_of fx row task"
    by (metis in_set_conv_nth list_all2_conv_all_nth)
  then obtain t cells where t: "fx_conv fx (task_row_of row) = Inr t" "task = record_claim cells t"
    by (auto simp: task_of_def task_row_def split: sum.splits)
  with assms(2) have "t_task_id task = Some (j_id row)" "t_lock_by task = j_lock_by row"
    by (auto simp: conv_faithful_def record_claim_def task_row_of_def)
  with row show thesis using that by blast
qed

lemma claimed_task_row:
  assumes run: "with_claim_conn op' has (claim_work fx w q t op cands) g = (Inr tasks, g')" and el: "eligible cands"
    and inv: "db_inv (pg_db g)" and conv: "conv_faithful (fx_conv fx)" and task: "task \<in> set tasks"
  shows "\<exists>j now. j \<in> set (jobs (pg_db g)) \<and> claimable j \<and> claim_row w now j \<in> set (jobs (pg_db g')) \<and>
    t_task_id task = Some (j_id j) \<and> t_lock_by task = Some w"
proof -
  have ok: "db_ok (pg_db g)" using inv ..
  obtain g1 where cl: "claim_list (jobs (pg_db g)) (cands g1)" "\<forall>j \<in> set (cands g1). claimable j"
    and eff: "claim_effect fx w (pg_now g1) (cands g1) (jobs (pg_db g)) (jobs (pg_db g'))"
    and tk: "list_all2 (task_of fx) (filter (\<lambda>r. \<not> malformed fx r) (map (claim_row w (pg_now g1)) (cands g1))) tasks"
    by (rule claim_conn_effect [OF run ok el]) blast
  obtain j where j: "j \<in> set (cands g1)" "\<not> malformed fx (claim_row w (pg_now g1) j)"
    "t_task_id task = Some (j_id j)" "t_lock_by task = Some w"
    by (rule tasks_carry_ids [OF tk conv task]) (auto simp: claim_row_def)
  have mem: "j \<in> set (jobs (pg_db g))" using j(1) cl(1) by (auto simp: claim_list_def)
  then have "claim_row w (pg_now g1) j \<in> set (jobs (pg_db g'))"
    using eff j(1,2) unfolding claim_effect_def by meson
  with mem j cl(2) show ?thesis by blast
qed

text \<open>
  The interface of the ways to claim: a returned task is a row that was claimable and that its owner now
  holds. What follows for any two claims is shown once.
\<close>

locale claim_source =
  fixes fx :: foreign and claim :: "compact task list sql" and owner :: string
  assumes keeps_inv: "claim g = (r, g') \<Longrightarrow> db_inv (pg_db g) \<Longrightarrow> db_inv (pg_db g')"
    and claims: "claim g = (Inr tasks, g') \<Longrightarrow> db_inv (pg_db g) \<Longrightarrow> conv_faithful (fx_conv fx) \<Longrightarrow> task \<in> set tasks \<Longrightarrow>
      \<exists>j now. j \<in> set (jobs (pg_db g)) \<and> claimable j \<and> claim_row owner now j \<in> set (jobs (pg_db g')) \<and>
        t_task_id task = Some (j_id j) \<and> t_lock_by task = Some owner"
begin

lemma claimed_is_held:
  assumes "claim g = (Inr tasks, g')" "db_inv (pg_db g)" "conv_faithful (fx_conv fx)" "task \<in> set tasks"
    and k: "k \<in> set (jobs (pg_db g'))" "claimable k"
  shows "t_task_id task \<noteq> Some (j_id k)"
proof
  assume eq: "t_task_id task = Some (j_id k)"
  obtain j now where j: "claim_row owner now j \<in> set (jobs (pg_db g'))" "t_task_id task = Some (j_id j)"
    using claims [OF assms(1-4)] by blast
  have "db_inv (pg_db g')" by (rule keeps_inv [OF assms(1,2)])
  then have "k = claim_row owner now j"
    using distinct_key_unique [of j_id "jobs (pg_db g')", OF _ k(1) j(1)] eq j(2) by (auto simp: db_ok_def)
  with k(2) show False by (simp add: claim_row_def claimable_def)
qed

lemma claimed_was_open:
  assumes "claim g = (Inr tasks, g')" "db_inv (pg_db g)" "conv_faithful (fx_conv fx)" "task \<in> set tasks"
  obtains k where "k \<in> set (jobs (pg_db g))" "claimable k" "t_task_id task = Some (j_id k)" "t_lock_by task = Some owner"
  using claims [OF assms] by blast

end

interpretation polled: claim_source fx "fetch_next fx cfg w t" "wc_name w" for fx cfg w t
proof
  show "db_inv (pg_db g')" if "fetch_next fx cfg w t g = (r, g')" "db_inv (pg_db g)" for g r g'
    using ensuresD_run [OF fetch_next_lifecycle that(1)] that(2) by (simp add: lifecycle_def)
qed (unfold fetch_next_def, rule claimed_task_row [OF _ next_jobs_eligible])

interpretation notified: claim_source fx "queue_by_id fx q ids w t" w for fx q ids w t
proof
  show "db_inv (pg_db g')" if "queue_by_id fx q ids w t g = (r, g')" "db_inv (pg_db g)" for g r g'
    using ensuresD_run [OF queue_by_id_lifecycle that(1)] that(2) by (simp add: lifecycle_def)
qed (unfold queue_by_id_def, rule claimed_task_row [OF _ notified_jobs_eligible])

text \<open>
  C7. Claims are exclusive: the tasks a poll or a batch of notified ids returns are locked by the worker
  that asked for them, and no later poll or batch returns one of them again while their claims stand.
\<close>

theorem fetch_claims_are_exclusive:
  assumes inv: "db_inv (pg_db g)" and conv: "conv_faithful (fx_conv fx)"
    and one: "fetch_next fx cfg w t g = (Inr tasks, g') \<or> queue_by_id fx q ids (wc_name w) t g = (Inr tasks, g')"
    and two: "pg_db h = pg_db g'"
      "fetch_next fx cfg2 w2 t2 h = (Inr tasks2, h') \<or> queue_by_id fx q2 ids2 (wc_name w2) t2 h = (Inr tasks2, h')"
  shows "(\<forall>task \<in> set tasks. t_lock_by task = Some (wc_name w)) \<and>
    set (map t_task_id tasks) \<inter> set (map t_task_id tasks2) = {}"
proof -
  have inv': "db_inv (pg_db h)" using one polled.keeps_inv notified.keeps_inv inv unfolding two(1) by blast
  have "t_task_id task \<noteq> t_task_id task2" if a: "task \<in> set tasks" and b: "task2 \<in> set tasks2" for task task2
  proof -
    obtain k where k: "k \<in> set (jobs (pg_db g'))" "claimable k" "t_task_id task2 = Some (j_id k)"
      using two(2) polled.claimed_was_open [OF _ inv' conv b] notified.claimed_was_open [OF _ inv' conv b] unfolding two(1) by metis
    then show ?thesis
      using one polled.claimed_is_held [OF _ inv conv a k(1,2)] notified.claimed_is_held [OF _ inv conv a k(1,2)] by auto
  qed
  moreover have "t_lock_by task = Some (wc_name w)" if "task \<in> set tasks" for task
    using one polled.claimed_was_open [OF _ inv conv that] notified.claimed_was_open [OF _ inv conv that] by metis
  ultimately show ?thesis by auto
qed

section \<open>Failed claims\<close>

lemma keeps_require_worker: "keeps onward (require_worker w q t)"
  unfolding require_worker_def worker_registration_def
proof (intro on.keeps_intros)
  show "keeps onward (case r of
      Current \<Rightarrow> sreturn ()
    | Absent \<Rightarrow> sthrow (worker_not_registered ''claiming task'' w q hint_absent)
    | Replaced \<Rightarrow> sthrow (worker_not_registered ''claiming task'' w q hint_replaced))" for r
    by (cases r) (simp_all add: on.keeps_intros)
qed

lemma onward_next_claim: "onward g (g\<lparr>pg_next_claim := n\<rparr>)"
  by (simp add: onward_def)

lemma keeps_claimed_task_row: "keeps onward (claimed_task_row conv row)"
  by (auto simp: keeps_def claimed_task_row_def onward_next_claim on.refl split: sum.splits)

lemma keeps_claimed_tasks: "keeps onward (claimed_tasks fx rows)"
proof (induction rows)
  case (Cons row rows)
  have q: "keeps onward (sbind (quarantine fx (j_id row) e) (\<lambda>_. claimed_tasks fx rows))" for e
    unfolding quarantine_def by (intro on.keeps_intros Cons)
  have t: "keeps onward (sbind (claimed_tasks fx rows) (\<lambda>ts. sreturn (task # ts)))" for task
    by (intro on.keeps_intros Cons)
  show ?case
    unfolding keeps_def
  proof
    fix g
    obtain r g1 where r: "claimed_task_row (fx_conv fx) row g = (r, g1)" by fastforce
    then have "onward g g1" using keepsD_run [OF keeps_claimed_task_row] by blast
    then show "onward g (snd (claimed_tasks fx (row # rows) g))"
      using r keepsD [OF q] keepsD [OF t] by (cases r) (auto intro: on.trans)
  qed
qed (simp only: claimed_tasks.simps on.keeps_sreturn)

lemma keeps_claim_work: "keeps onward (claim_work fx w q t op cands)"
  unfolding claim_stmt_def
  by (intro on.keeps_intros keeps_require_worker keeps_claimed_tasks)

lemma keeps_lock_work:
  "keeps onward (sbind (task_queue i q ''locating task to lock'') (\<lambda>found.
     sbind (case found of None \<Rightarrow> sreturn () | Some scoped \<Rightarrow> require_worker w scoped t)
        (\<lambda>_. sbind (stmt ''locking task'' body)
        (\<lambda>rows. case rows of [] \<Rightarrow> sthrow e | row # _ \<Rightarrow> claimed_task_row conv row))))"
proof -
  have "keeps onward (case rows of [] \<Rightarrow> sthrow e | row # _ \<Rightarrow> claimed_task_row conv row)" for rows
    by (cases rows) (simp_all add: on.keeps_sthrow keeps_claimed_task_row)
  then show ?thesis
    unfolding task_queue_def by (intro on.keeps_intros keeps_require_worker)
qed

lemma next_step_claimed: "next_step g = (f, g1) \<Longrightarrow> pg_claimed g1 = pg_claimed g"
  by (auto simp: next_step_def split: list.splits)

text \<open>
  An error that is not \<open>ClaimOutcomeUnknown\<close> left the tables alone, or the committed work
  reported no claim.
\<close>

lemma claim_transaction_db:
  assumes h: "transaction (sbind work (\<lambda>v g. (Inr v, g\<lparr>pg_claimed := has v\<rparr>))) h = (s, h')" "script_ok h"
    and work: "keeps onward work" and u: "pg_claimed h' \<Longrightarrow> \<exists>e'. s = Inl e' \<and> known_commit_rejection e'"
  shows "pg_db h' = pg_db h \<or> (\<exists>g1 v g2. later h g1 \<and> work g1 = (Inr v, g2) \<and> \<not> has v \<and> pg_db h' = pg_db g2)"
  using h(1)
proof (cases rule: transaction_cases)
  case (committed g1 x g2 flt)
  from committed(3) obtain gw where w: "work g1 = (Inr x, gw)" "g2 = gw\<lparr>pg_claimed := has x\<rparr>"
    by (auto elim!: sbind_InrE)
  have "onward h gw" using committed(2) keepsD_run [OF work w(1)] by (rule on.trans)
  then have sc: "script_ok g2" using script_ok_onward h(2) w(2) by (fastforce simp: script_ok_def)
  have "\<not> pg_claimed h'"
  proof
    assume "pg_claimed h'"
    from u [OF this] committed(5) obtain de where "flt = Some (de, True)"
      "known_commit_rejection (error_from_diesel de)" by auto
    with applied_not_rejected [OF sc] committed(4) show False by blast
  qed
  then have "\<not> has x" using next_step_claimed [OF committed(4)] w(2) by simp
  with committed(1,4) w show ?thesis using laterD(1) [OF next_step_later [OF committed(4)]] by auto
qed simp

lemma with_claim_conn_error:
  assumes run: "with_claim_conn op has work g = (Inl e, g')" and known: "\<forall>op' src. e \<noteq> ClaimOutcomeUnknown op' src"
    and script: "script_ok g" and work: "keeps onward work"
  shows "pg_db g' = pg_db g \<or>
    (\<exists>g1 v g2. later g g1 \<and> work g1 = (Inr v, g2) \<and> \<not> has v \<and> pg_db g' = pg_db g2)"
proof -
  let ?T = "transaction (sbind work (\<lambda>v g. (Inr v, g\<lparr>pg_claimed := has v\<rparr>)))"
  define g0 where "g0 = g\<lparr>pg_claimed := False\<rparr>"
  obtain r where wc: "with_conn ?T g0 = (r, g')" and e: "claim_outcome r (pg_claimed g') op = Inl e"
    using run by (auto simp: with_claim_conn_def g0_def split: prod.splits)
  have not_unknown: "pg_claimed g' \<Longrightarrow> \<exists>e'. r = Inl e' \<and> known_commit_rejection e'"
    using e known by (auto simp: claim_outcome_def split: sum.splits if_splits)
  have sc: "script_ok (g0\<lparr>pg_pool := p\<rparr>)" "script_ok g0" for p
    using script by (simp_all add: script_ok_def g0_def)
  have lat: "later g h" if "later (g0\<lparr>pg_pool := p\<rparr>) h" for p h
    using that by (simp add: later_def g0_def)
  consider (idle) "pg_pool g0 = []" "?T g0 = (r, g')"
    | (ran) p s where "?T (g0\<lparr>pg_pool := p\<rparr>) = (s, g')" "r = s \<or> (\<exists>m. r = Inl (Blocking m))"
    | (not) p where "g' = g0\<lparr>pg_pool := p\<rparr>"
  proof (cases "pg_pool g0")
    case (Cons a p)
    obtain s h where "?T (g0\<lparr>pg_pool := p\<rparr>) = (s, h)" by fastforce
    with Cons wc show thesis
      using ran [of p s] not [of p] by (cases a) (auto simp: with_conn_def split: if_splits)
  qed (use wc idle in \<open>simp add: with_conn_def\<close>)
  then show ?thesis
  proof cases
    case idle
    then have "g0 = g0\<lparr>pg_pool := []\<rparr>" by simp
    with claim_transaction_db [OF idle(2) sc(2) work not_unknown] lat [of "[]"] show ?thesis by (auto simp: g0_def)
  next
    case ran
    from ran(2) have "pg_claimed g' \<Longrightarrow> \<exists>e'. s = Inl e' \<and> known_commit_rejection e'"
      using not_unknown by auto
    from claim_transaction_db [OF ran(1) sc(1) work this] lat [of p] show ?thesis by (auto simp: g0_def)
  next
    case not
    then show ?thesis by (simp add: g0_def)
  qed
qed

lemma malformed_work_no_claims:
  assumes ok: "db_ok (pg_db g)" and el: "eligible cands"
    and run: "claim_work fx w q t op cands g = (Inr [], g')"
    and j: "j \<in> set (jobs (pg_db g'))" "is_active (j_status j)"
  shows "j \<in> set (jobs (pg_db g))"
proof -
  from run ok el obtain g1 where
    eff: "claim_effect fx w (pg_now g1) (cands g1) (jobs (pg_db g)) (jobs (pg_db g'))"
    and "list_all2 (task_of fx)
       (filter (\<lambda>r. \<not> malformed fx r) (map (claim_row w (pg_now g1)) (cands g1))) []"
    by (rule claim_work_effect)
  then have bad: "\<forall>c \<in> set (cands g1). malformed fx (claim_row w (pg_now g1) c)"
    by (simp add: filter_empty_conv)
  from ok eff j(1) show ?thesis
    by (rule claim_effect_inv) (use bad j(2) in \<open>auto simp: quarantined_row_def\<close>)
qed

text \<open>
  C8. When the server honours its contract for rejected commits, a claiming call that reports
  an error other than \<open>ClaimOutcomeUnknown\<close> left no claim behind: every owned active row
  afterwards was there before, unchanged. Polling, claiming notified ids and locking one task
  all have this guarantee, under every other fault of the connection, the pool and the executor.
\<close>

theorem claim_error_leaves_no_claim:
  assumes ok: "db_ok (pg_db g)" and script: "script_ok g" and known: "\<forall>op src. e \<noteq> ClaimOutcomeUnknown op src"
    and run: "fetch_next fx cfg w t g = (Inl e, g') \<or> queue_by_id fx q ids wid t g = (Inl e, g') \<or>
              lock_task_with_token fx i wid sc t g = (Inl e, g')"
    and j: "j \<in> set (jobs (pg_db g'))" "is_active (j_status j)"
  shows "j \<in> set (jobs (pg_db g))"
proof -
  have claim: ?thesis if "with_claim_conn op' (\<lambda>ts. ts \<noteq> []) (claim_work fx wn qn t op cands) g = (Inl e, g')"
      and el: "eligible cands" for op' op wn qn cands
    using with_claim_conn_error [OF that(1) known script keeps_claim_work]
  proof (elim disjE exE conjE)
    fix g1 v g2
    assume *: "later g g1" "claim_work fx wn qn t op cands g1 = (Inr v, g2)" "\<not> v \<noteq> []" "pg_db g' = pg_db g2"
    then have v: "v = []" by simp
    have db: "pg_db g1 = pg_db g" by (rule laterD(1) [OF *(1)])
    from malformed_work_no_claims [OF _ el *(2) [unfolded v], of j] ok j *(4) show ?thesis
      unfolding db by simp
  qed (use j in simp)
  from run show ?thesis
  proof (elim disjE)
    assume "lock_task_with_token fx i wid sc t g = (Inl e, g')"
    then have "pg_db g' = pg_db g"
      unfolding lock_task_with_token_def
      using with_claim_conn_error [OF _ known script keeps_lock_work] by blast
    then show ?thesis using j by simp
  qed (auto simp: fetch_next_def queue_by_id_def intro: claim next_jobs_eligible notified_jobs_eligible)
qed

section \<open>Polls make progress\<close>

lemma quietD: "quiet g \<Longrightarrow> pg_script g = [] \<and> pg_pool g = []"
  by (simp add: quiet_def)

lemma require_worker_quiet:
  assumes "quiet g" and "find_worker w q (pg_db g) = Some r" and "t = None \<or> w_lease_token r = t"
  shows "require_worker w q t g = (Inr (), g)"
  using assms
  by (auto simp: require_worker_def worker_registration_def quiet_def stmt_quiet sbind_def
      split: option.splits)

lemma quarantined_row_checks: "job_checks j \<Longrightarrow> job_checks (quarantined_row r now j)"
  by (auto simp: job_checks_def quarantined_row_def)

lemma update_jobs_passes:
  assumes "\<And>j. j \<in> set (jobs d) \<Longrightarrow> P j \<Longrightarrow> job_checks (f j) \<and> job_fk (workers d) (f j)"
  shows "update_jobs P f d = (Inr (count_where P (jobs d)), d\<lparr>jobs := update_where P f (jobs d)\<rparr>)"
  using assms by (auto simp: update_jobs_def Let_def list_all_iff)

lemma claimed_tasks_quiet:
  assumes "quiet g" and "\<forall>j \<in> set (jobs (pg_db g)). job_checks j"
  shows "\<exists>tasks g'. claimed_tasks fx rows g = (Inr tasks, g') \<and> quiet g'"
  using assms
proof (induction rows arbitrary: g)
  case (Cons row rows)
  show ?case
  proof (cases "task_row (fx_conv fx) row")
    case (Inr t)
    have "\<exists>tasks g'. claimed_tasks fx rows (g\<lparr>pg_next_claim := Suc (pg_next_claim g)\<rparr>) = (Inr tasks, g') \<and> quiet g'"
      using Cons.prems by (intro Cons.IH) (simp_all add: quiet_def)
    with Inr show ?thesis by (auto simp: claimed_task_row_def)
  next
    case (Inl e)
    let ?f = "quarantined_row (json_err (truncate_error_payload (error_to_string fx e))) (pg_now g)"
    let ?g = "g\<lparr>pg_db := (pg_db g)\<lparr>jobs := update_where (\<lambda>j. j_id j = j_id row) ?f (jobs (pg_db g))\<rparr>\<rparr>"
    have "update_jobs (\<lambda>j. j_id j = j_id row) ?f (pg_db g) =
        (Inr (count_where (\<lambda>j. j_id j = j_id row) (jobs (pg_db g))), pg_db ?g)"
      using Cons.prems(2)
      by (subst update_jobs_passes) (simp_all add: quarantined_row_checks, simp add: quarantined_row_def job_fk_def)
    then have "quarantine fx (j_id row) e g = (Inr (count_where (\<lambda>j. j_id j = j_id row) (jobs (pg_db g))), ?g)"
      using Cons.prems(1) by (simp add: quarantine_def quiet_def stmt_quiet)
    moreover have "\<exists>tasks g'. claimed_tasks fx rows ?g = (Inr tasks, g') \<and> quiet g'"
      using Cons.prems by (intro Cons.IH) (auto simp: quiet_def set_update_where quarantined_row_checks)
    ultimately show ?thesis using Inl by (auto simp: claimed_task_row_def)
  qed
qed simp

lemma claim_row_checks:
  "job_checks j \<Longrightarrow> job_checks (claim_row w now j)"
  by (simp add: job_checks_def claim_row_def)

lemma claim_stmt_quiet_run:
  assumes g: "quiet g" and ok: "db_ok (pg_db g)" and reg: "find_worker w q (pg_db g) = Some r"
    and cl: "claim_list (jobs (pg_db g)) (cands g)" and inq: "\<forall>j \<in> set (cands g). j_job_type j = q"
  shows "claim_stmt op w cands g = (Inr (map (claim_row w (pg_now g)) (cands g)),
     g\<lparr>pg_db := (pg_db g)\<lparr>jobs := update_where (\<lambda>j. j \<in> set (cands g)) (claim_row w (pg_now g)) (jobs (pg_db g))\<rparr>\<rparr>)"
proof -
  have dist: "distinct (map j_id (jobs (pg_db g)))" using ok by (simp add: db_ok_def)
  have sub: "set (cands g) \<subseteq> set (jobs (pg_db g))" using cl by (simp add: claim_list_def)
  note iff = id_where_iff [OF dist sub]
  let ?P = "\<lambda>j. j_id j \<in> set (map j_id (cands g))" and ?f = "claim_row w (pg_now g)"
  have checks: "\<forall>j \<in> set (jobs (pg_db g)). job_checks j" using ok by (simp add: db_ok_def)
  have key: "(w, q) \<in> set (map worker_key (workers (pg_db g)))"
    using find_worker_Some [OF reg] by force
  have "update_jobs ?P ?f (pg_db g) =
      (Inr (count_where ?P (jobs (pg_db g))), (pg_db g)\<lparr>jobs := update_where ?P ?f (jobs (pg_db g))\<rparr>)"
  proof (rule update_jobs_passes)
    fix j assume j: "j \<in> set (jobs (pg_db g))" "?P j"
    have "job_fk (workers (pg_db g)) (?f j)"
      using inq iff [OF j(1)] j(2) key by (simp add: job_fk_def claim_row_def del: set_map)
    then show "job_checks (?f j) \<and> job_fk (workers (pg_db g)) (?f j)"
      using checks j(1) claim_row_checks by blast
  qed
  then have run: "claim_stmt op w cands g =
      (Inr (sort_key fetch_order (map ?f (filter ?P (jobs (pg_db g))))),
       g\<lparr>pg_db := (pg_db g)\<lparr>jobs := update_where ?P ?f (jobs (pg_db g))\<rparr>\<rparr>)"
    using g by (simp add: claim_stmt_def quiet_def stmt_quiet update_jobs_returning_def)
  have "filter ?P (jobs (pg_db g)) = filter (\<lambda>j. j \<in> set (cands g)) (jobs (pg_db g))"
    by (rule filter_cong [OF HOL.refl]) (rule iff)
  with cl have "sort_key fetch_order (map ?f (filter ?P (jobs (pg_db g)))) = map ?f (cands g)"
    by (simp add: sort_key_map_same claim_list_def)
  moreover have "update_where ?P ?f (jobs (pg_db g)) = update_where (\<lambda>j. j \<in> set (cands g)) ?f (jobs (pg_db g))"
    by (rule update_where_cong) (rule iff)
  ultimately show ?thesis using run by simp
qed

lemma claim_stmt_quiet:
  assumes g: "quiet g" and ok: "db_ok (pg_db g)" and reg: "find_worker w q (pg_db g) = Some r"
    and cl: "claim_list (jobs (pg_db g)) (cands g)" and inq: "\<forall>j \<in> set (cands g). j_job_type j = q"
  shows "\<exists>g'. claim_stmt op w cands g = (Inr (map (claim_row w (pg_now g)) (cands g)), g') \<and>
     quiet g' \<and> (\<forall>j \<in> set (jobs (pg_db g')). job_checks j)"
  using g ok claim_row_checks by (auto simp: claim_stmt_quiet_run [where cands = cands, OF assms] quiet_def db_ok_def set_update_where)

lemma claim_conn_quiet:
  assumes "quiet g" and "work (g\<lparr>pg_claimed := False\<rparr>) = (Inr v, g')" and "quiet g'"
  shows "\<exists>g'. with_claim_conn op has work g = (Inr v, g')"
  using assms
  by (auto simp: with_claim_conn_def quiet_def transaction_quiet)

text \<open>
  On a connection where nothing fails, a poll under a current registration returns, and
  when every claimed row converts it returns as many tasks as the batch limit and the number of
  due rows that no other session holds allow.
\<close>

lemma fetch_next_progress:
  assumes q: "quiet g" and ok: "db_ok (pg_db g)"
    and reg: "find_worker (wc_name w) (c_queue cfg) (pg_db g) = Some r" "t = None \<or> w_lease_token r = t"
    and conv: "\<forall>j \<in> set (jobs (pg_db g)). \<not> malformed fx (claim_row (wc_name w) (pg_now g) j)"
  shows "\<exists>tasks g'. fetch_next fx cfg w t g = (Inr tasks, g') \<and>
    length tasks = min (fetch_limit cfg)
      (count_where (\<lambda>j. due (c_queue cfg) (pg_now g) j \<and> unlocked g j) (jobs (pg_db g)))"
proof -
  let ?c = "next_jobs (c_queue cfg) (fetch_limit cfg)" and ?g = "g\<lparr>pg_claimed := False\<rparr>"
  have q': "quiet ?g" "pg_db ?g = pg_db g" "pg_now ?g = pg_now g" using q by (simp_all add: quiet_def)
  have u: "unlocked ?g = unlocked g" by (simp add: unlocked_def fun_eq_iff)
  then have c: "?c ?g = ?c g" by (simp add: next_jobs_def)
  have cl: "claim_list (jobs (pg_db g)) (?c g)" using ok by (rule next_jobs_claim_list)
  have inq: "\<forall>j \<in> set (?c ?g). j_job_type j = c_queue cfg"
    by (auto simp: c next_jobs_def due_def dest!: in_set_takeD)
  let ?rows = "map (claim_row (wc_name w) (pg_now g)) (?c g)"
  obtain gm where m: "claim_stmt ''fetching queued jobs'' (wc_name w) ?c ?g = (Inr ?rows, gm)"
    "quiet gm" "\<forall>j \<in> set (jobs (pg_db gm)). job_checks j"
    using claim_stmt_quiet [of ?g "wc_name w" "c_queue cfg" r ?c "''fetching queued jobs''"] inq q' ok reg(1) cl c by auto
  obtain tasks gn where n: "claimed_tasks fx ?rows gm = (Inr tasks, gn)" "quiet gn"
    using claimed_tasks_quiet [OF m(2,3)] by blast
  have "claim_work fx (wc_name w) (c_queue cfg) t ''fetching queued jobs'' ?c ?g = (Inr tasks, gn)"
    using require_worker_quiet [OF q'(1), of "wc_name w" "c_queue cfg" r t] reg m(1) n(1) by simp
  then obtain g' where run: "fetch_next fx cfg w t g = (Inr tasks, g')"
    using claim_conn_quiet [OF q, of "claim_work fx (wc_name w) (c_queue cfg) t ''fetching queued jobs'' ?c"] n(2)
    unfolding fetch_next_def by blast
  have "distinct (map j_id ?rows)" using claim_list_distinct_ids [OF ok cl] by (simp add: comp_def)
  from claimed_tasks_Inr(1) [OF n(1) this]
  have "length tasks = length (filter (\<lambda>r. \<not> malformed fx r) ?rows)" by (rule list_all2_lengthD [symmetric])
  also have "filter (\<lambda>r. \<not> malformed fx r) ?rows = ?rows"
  proof (rule filter_True)
    have "set (?c g) \<subseteq> set (jobs (pg_db g))" using cl by (simp add: claim_list_def)
    with conv show "\<forall>x \<in> set ?rows. \<not> malformed fx x" by auto
  qed
  also have "length ?rows = min (fetch_limit cfg)
      (count_where (\<lambda>j. due (c_queue cfg) (pg_now g) j \<and> unlocked g j) (jobs (pg_db g)))"
    by (simp add: next_jobs_def count_where_def filter_sort conj_commute min.commute)
  finally show ?thesis using run by blast
qed

section \<open>Starting a claim\<close>

lemma startable_unique:
  "db_ok d \<Longrightarrow> j \<in> set (jobs d) \<Longrightarrow> k \<in> set (jobs d) \<Longrightarrow> startable c j \<Longrightarrow> startable c k \<Longrightarrow> j = k"
  by (auto simp: db_ok_def startable_def dest: distinct_key_unique)

lemma count_where_one:
  assumes "distinct (map k rows)" and "\<And>r. P r \<Longrightarrow> k r = x"
  shows "count_where P rows = 1 \<longleftrightarrow> (\<exists>r \<in> set rows. P r)"
  using count_where_key_le_1 [of k rows P x] assms count_where_zero [of P rows]
  by (auto simp: le_Suc_eq)

lemma conn_stmt_InrE:
  assumes "with_conn (sbind (stmt op body) (\<lambda>x. sreturn (h x))) g = (Inr y, g')"
  obtains g1 x where "later g g1" "body g1 = (Inr x, pg_db g')" "y = h x"
proof -
  from assms obtain ga x gb where ga: "later g ga" "stmt op body ga = (Inr x, gb)" "y = h x" "gb = g'"
    by (auto elim!: with_conn_InrE sbind_InrE)
  from ga(2) obtain gc d where gc: "later ga gc" "body gc = (Inr x, d)" "gb = gc\<lparr>pg_db := d\<rparr>"
    by (rule stmt_InrE)
  show thesis using that [OF later_trans [OF ga(1) gc(1)]] gc ga(3,4) by auto
qed

lemma start_task_InrE:
  assumes "db_ok (pg_db g)" and "start_task c g = (Inr b, g')"
  shows "b \<longleftrightarrow> list_ex (start_owner c) (workers (pg_db g)) \<and> list_ex (startable c) (jobs (pg_db g))"
    and "pg_db g' = (if b then (pg_db g)\<lparr>jobs := update_where (startable c) (\<lambda>j. j\<lparr>j_status := Running\<rparr>)
                                         (jobs (pg_db g))\<rparr> else pg_db g)"
proof -
  let ?f = "\<lambda>j. j\<lparr>j_status := Running\<rparr>"
  let ?own = "list_ex (start_owner c) (workers (pg_db g))"
  from assms(2) obtain g1 n where g1: "later g g1" "b \<longleftrightarrow> n = 1"
    and upd: "update_jobs (\<lambda>j. list_ex (start_owner c) (workers (pg_db g1)) \<and> startable c j) ?f (pg_db g1)
      = (Inr n, pg_db g')"
    unfolding start_task_def by (rule conn_stmt_InrE)
  have db: "pg_db g1 = pg_db g" by (rule laterD(1) [OF g1(1)])
  have d: "n = count_where (\<lambda>j. ?own \<and> startable c j) (jobs (pg_db g))"
    "pg_db g' = (pg_db g)\<lparr>jobs := update_where (\<lambda>j. ?own \<and> startable c j) ?f (jobs (pg_db g))\<rparr>"
    using update_jobs_Inr [OF upd] unfolding db by blast+
  have n: "n = 1 \<longleftrightarrow> (\<exists>j \<in> set (jobs (pg_db g)). ?own \<and> startable c j)"
    unfolding d(1) using assms(1)
    by (intro count_where_one [of j_id _ _ "sc_task_id c"]) (auto simp: db_ok_def startable_def)
  then show b: "b \<longleftrightarrow> ?own \<and> list_ex (startable c) (jobs (pg_db g))"
    using g1(2) by (auto simp: list_ex_iff)
  show "pg_db g' = (if b then (pg_db g)\<lparr>jobs := update_where (startable c) ?f (jobs (pg_db g))\<rparr> else pg_db g)"
  proof (cases b)
    case True
    then have "?own" using b by blast
    then show ?thesis using True d(2) by simp
  next
    case False
    then have "\<forall>j \<in> set (jobs (pg_db g)). \<not> (?own \<and> startable c j)" using n g1(2) by blast
    then show ?thesis using False d(2) by (simp add: update_where_none)
  qed
qed

text \<open>The registration and the row a start requires, written out for the statement of the property.\<close>

abbreviation registered_for :: "start_claim \<Rightarrow> worker_row \<Rightarrow> bool" where
  "registered_for c w \<equiv> w_id w = sc_worker_id c \<and> w_worker_type w = sc_queue c \<and>
     (sc_lease_token c \<noteq> None \<longrightarrow> w_lease_token w = sc_lease_token c)"

abbreviation start_row :: "start_claim \<Rightarrow> job_row \<Rightarrow> bool" where
  "start_row c j \<equiv> j_id j = sc_task_id c \<and> j_job_type j = sc_queue c \<and>
     j_lock_by j = Some (sc_worker_id c) \<and> j_lock_at j = Some (sc_lock_at c * 1000000) \<and>
     (\<forall>n. sc_attempts c = Some n \<longrightarrow> j_attempts j = n) \<and>
     (j_status j = Queued \<or> sc_restart c \<and> j_status j = Running)"

lemma startable_eq: "startable c = (\<lambda>j. start_row c j)"
  by (auto simp: fun_eq_iff startable_def to_timestamp_def split: option.splits)

lemma start_owner_iff: "start_owner c w \<longleftrightarrow> registered_for c w"
  by (auto simp: start_owner_def worker_key_def)

lemma start_task_exact_raw:
  assumes ok: "db_ok (pg_db g)" and run: "start_task c g = (Inr b, g')"
  shows "(b \<longleftrightarrow> (\<exists>w \<in> set (workers (pg_db g)). start_owner c w) \<and>
               (\<exists>j \<in> set (jobs (pg_db g)). startable c j)) \<and>
    pg_db g' = (if b then (pg_db g)\<lparr>jobs := update_where (startable c) (\<lambda>j. j\<lparr>j_status := Running\<rparr>)
                                        (jobs (pg_db g))\<rparr> else pg_db g) \<and>
    (b \<and> \<not> sc_restart c \<and> pg_db h = pg_db g' \<and> start_task c h = (Inr b2, h') \<longrightarrow> \<not> b2)"
proof (intro conjI impI)
  note res = start_task_InrE [OF ok run]
  show "b \<longleftrightarrow> (\<exists>w \<in> set (workers (pg_db g)). start_owner c w) \<and> (\<exists>j \<in> set (jobs (pg_db g)). startable c j)"
    using res(1) by (simp add: list_ex_iff)
  show "pg_db g' = (if b then (pg_db g)\<lparr>jobs := update_where (startable c) (\<lambda>j. j\<lparr>j_status := Running\<rparr>)
                                        (jobs (pg_db g))\<rparr> else pg_db g)" by (rule res(2))
  assume *: "b \<and> \<not> sc_restart c \<and> pg_db h = pg_db g' \<and> start_task c h = (Inr b2, h')"
  have "db_ok (pg_db g')"
  proof -
    from run have "ensures keeps_ok (start_task c)"
      unfolding start_task_def
      by (intro ok.ensures_with_conn ok.ensures_sbind ok.ensures_stmt ok.ensures_sreturn)
         (auto elim!: update_jobs_ok)
    with run ok show ?thesis by (metis ensuresD_run keeps_ok_def)
  qed
  with * have "b2 \<longleftrightarrow> list_ex (start_owner c) (workers (pg_db g')) \<and> list_ex (startable c) (jobs (pg_db g'))"
    using start_task_InrE(1) [of h c b2 h'] by simp
  moreover have "\<not> list_ex (startable c) (jobs (pg_db g'))"
    using * res(2) by (auto simp: list_ex_iff set_update_where) (auto simp: startable_def)
  ultimately show "\<not> b2" by simp
qed

text \<open>
  A start reports success exactly when the registration is still owned (by the token, when
  one is given) and a row holds the claim's epoch: task, queue, owner, claim second, recorded
  attempts, and \<open>Queued\<close> unless the claim already started in this process. It then moves
  exactly that row to \<open>Running\<close>; otherwise nothing changes. A claim that has not been started
  starts at most once: the same start on the tables it left is refused.
\<close>

lemma start_task_exact:
  assumes ok: "db_ok (pg_db g)" and run: "start_task c g = (Inr b, g')"
  shows "(b \<longleftrightarrow> (\<exists>w \<in> set (workers (pg_db g)). registered_for c w) \<and>
               (\<exists>j \<in> set (jobs (pg_db g)). start_row c j)) \<and>
    pg_db g' = (if b then (pg_db g)\<lparr>jobs := update_where (\<lambda>j. start_row c j) (\<lambda>j. j\<lparr>j_status := Running\<rparr>)
                                        (jobs (pg_db g))\<rparr> else pg_db g) \<and>
    (b \<and> \<not> sc_restart c \<and> pg_db h = pg_db g' \<and> start_task c h = (Inr b2, h') \<longrightarrow> \<not> b2)"
  using start_task_exact_raw [OF assms] unfolding startable_eq start_owner_iff .

section \<open>Locking one task\<close>

lemma task_queue_Inr: "task_queue i sc op g = (Inr r, g') \<Longrightarrow> later g g'"
  unfolding task_queue_def by (auto elim: select_InrE)

lemma lock_work_InrE:
  assumes "lock_task_with_token fx i w q t g = (Inr task, g')" and ok: "db_ok (pg_db g)"
  obtains now j where "pg_now g \<le> now" "j \<in> set (jobs (pg_db g))" "lockable i q w now j"
    "task_of fx (locked_row w now j) task"
    "pg_db g' = (pg_db g)\<lparr>jobs := update_where (\<lambda>k. k = j) (locked_row w now) (jobs (pg_db g))\<rparr>"
proof -
  from assms(1) obtain ga gb gc gd found u row rows where ga: "later g ga"
    and tq: "task_queue i q ''locating task to lock'' ga = (Inr found, gb)"
    and rw: "(case found of None \<Rightarrow> sreturn () | Some scoped \<Rightarrow> require_worker w scoped t) gb = (Inr u, gc)"
    and up: "stmt ''locking task'' (\<lambda>g. update_jobs_returning (lockable i q w (pg_now g))
                  (locked_row w (pg_now g)) (pg_db g)) gc = (Inr (row # rows), gd)"
    and ct: "\<exists>ge. claimed_task_row (fx_conv fx) row gd = (Inr task, ge) \<and> pg_db g' = pg_db ge"
    unfolding lock_task_with_token_def
    by (elim with_claim_conn_InrE sbind_InrE) (auto split: list.splits)
  have "later gb gc" using rw require_worker_Inr by (auto split: option.splits)
  then have gc: "later g gc" using ga task_queue_Inr [OF tq] later_trans by blast
  from up obtain gx d where gx: "later gc gx" "gd = gx\<lparr>pg_db := d\<rparr>"
    and upd: "update_jobs_returning (lockable i q w (pg_now gx)) (locked_row w (pg_now gx)) (pg_db gx) = (Inr (row # rows), d)"
    by (rule stmt_InrE)
  have lx: "later g gx" using gc gx(1) by (rule later_trans)
  have db: "pg_db gx = pg_db g" by (rule laterD(1) [OF lx])
  let ?P = "lockable i q w (pg_now gx)" and ?f = "locked_row w (pg_now gx)"
  from upd obtain n where n: "update_jobs ?P ?f (pg_db g) = (Inr n, d)"
    "row # rows = map ?f (filter ?P (jobs (pg_db g)))"
    unfolding db by (auto simp: update_jobs_returning_def split: prod.splits sum.splits)
  then obtain j where j: "j \<in> set (filter ?P (jobs (pg_db g)))" "row = ?f j"
    by (metis (no_types, lifting) image_eqI imageE list.set_intros(1) list.set_map)
  have uniq: "?P k \<longleftrightarrow> k = j" if "k \<in> set (jobs (pg_db g))" for k
    using that j(1) ok distinct_key_unique [of j_id "jobs (pg_db g)" k j]
    by (auto simp: db_ok_def lockable_def)
  have d: "pg_db g' = d" using ct gx(2) by (auto simp: claimed_task_row_def split: sum.splits)
  show thesis
  proof (rule that [of "pg_now gx" j])
    show "pg_now g \<le> pg_now gx" by (rule laterD(5) [OF lx])
    show "pg_db g' = (pg_db g)\<lparr>jobs := update_where (\<lambda>k. k = j) ?f (jobs (pg_db g))\<rparr>"
      using update_jobs_Inr [OF n(1)] update_where_cong [of "jobs (pg_db g)" ?P "\<lambda>k. k = j", OF uniq] d
      by simp
    show "task_of fx (?f j) task"
      using ct j(2) by (auto simp: task_of_def claimed_task_row_def split: sum.splits)
  qed (use j in auto)
qed

text \<open>The row a lock leaves, written out for the statement of the property.\<close>

abbreviation locked_by :: "string \<Rightarrow> timestamp \<Rightarrow> job_row \<Rightarrow> job_row" where
  "locked_by w now j \<equiv> j\<lparr>j_status := Running, j_lock_by := Some w, j_done_at := None,
     j_lock_at := if is_active (j_status j) then j_lock_at j else Some (now div 1000000 * 1000000)\<rparr>"

lemma locked_row_eq:
  assumes "lockable i q w now j" and "job_checks j"
  shows "locked_row w now j = locked_by w now j"
proof -
  have "(if is_active (j_status j) \<and> j_lock_by j = Some w \<and> j_lock_at j \<noteq> None
         then j_lock_at j else Some (now_trunc now)) =
        (if is_active (j_status j) then j_lock_at j else Some (now div 1000000 * 1000000))"
    using assms by (auto simp: lockable_def job_checks_def now_trunc_def)
  then show ?thesis unfolding locked_row_def by simp
qed

lemma lockable_cases:
  "lockable i q w now j \<Longrightarrow>
     j_id j = i \<and> (claimable j \<or> (is_active (j_status j) \<and> j_lock_by j = Some w))"
  by (auto simp: lockable_def claimable_def)

text \<open>
  Locking a task that succeeds takes a row that was claimable or already owned by the worker,
  moves exactly that row to \<open>Running\<close> under the worker, and keeps the claim second of a claim
  the worker already held. It never takes an active claim from another owner: then no task is
  returned, whatever the connection does.
\<close>

lemma lock_task_never_steals:
  assumes ok: "db_ok (pg_db g)"
  shows "(lock_task_with_token fx i w q t g = (Inr task, g') \<longrightarrow>
      (\<exists>now \<ge> pg_now g. \<exists>j \<in> set (jobs (pg_db g)). j_id j = i \<and>
         (claimable j \<or> (is_active (j_status j) \<and> j_lock_by j = Some w)) \<and>
         task_of fx (locked_by w now j) task \<and>
         pg_db g' = (pg_db g)\<lparr>jobs := update_where (\<lambda>k. k = j) (locked_by w now) (jobs (pg_db g))\<rparr>)) \<and>
    ((\<exists>j \<in> set (jobs (pg_db g)). j_id j = i \<and> is_active (j_status j) \<and> j_lock_by j \<noteq> Some w) \<longrightarrow>
      lock_task_with_token fx i w q t g \<noteq> (Inr task, g'))"
proof (intro conjI impI)
  assume run: "lock_task_with_token fx i w q t g = (Inr task, g')"
  then obtain now j where *: "pg_now g \<le> now" "j \<in> set (jobs (pg_db g))" "lockable i q w now j"
    "task_of fx (locked_row w now j) task"
    "pg_db g' = (pg_db g)\<lparr>jobs := update_where (\<lambda>k. k = j) (locked_row w now) (jobs (pg_db g))\<rparr>"
    using ok by (rule lock_work_InrE)
  have "job_checks j" using ok *(2) by (simp add: db_ok_def)
  note eq = locked_row_eq [OF *(3) this]
  have "update_where (\<lambda>k. k = j) (locked_row w now) (jobs (pg_db g)) =
      update_where (\<lambda>k. k = j) (locked_by w now) (jobs (pg_db g))"
    using eq by (auto simp: update_where_def)
  with * eq show "\<exists>now \<ge> pg_now g. \<exists>j \<in> set (jobs (pg_db g)). j_id j = i \<and>
         (claimable j \<or> (is_active (j_status j) \<and> j_lock_by j = Some w)) \<and>
         task_of fx (locked_by w now j) task \<and>
         pg_db g' = (pg_db g)\<lparr>jobs := update_where (\<lambda>k. k = j) (locked_by w now) (jobs (pg_db g))\<rparr>"
    using lockable_cases [OF *(3)] by (intro exI [of _ now] bexI [of _ j] conjI) simp_all
next
  assume "\<exists>j \<in> set (jobs (pg_db g)). j_id j = i \<and> is_active (j_status j) \<and> j_lock_by j \<noteq> Some w"
  then obtain k where k: "k \<in> set (jobs (pg_db g))" "j_id k = i" "is_active (j_status k)" "j_lock_by k \<noteq> Some w"
    by blast
  show "lock_task_with_token fx i w q t g \<noteq> (Inr task, g')"
  proof
    assume "lock_task_with_token fx i w q t g = (Inr task, g')"
    then obtain now j where "j \<in> set (jobs (pg_db g))" "lockable i q w now j"
      using ok by (rule lock_work_InrE)
    with k ok show False
      using distinct_key_unique [of j_id "jobs (pg_db g)" j k] by (auto simp: db_ok_def lockable_def)
  qed
qed

section \<open>Releasing undecodable claims\<close>

lemma epoch_id: "epoch i w l a j \<Longrightarrow> j_id j = i"
  by (simp add: epoch_def)

lemma lock_current_worker_InrE:
  assumes "lock_current_worker w q t g = (Inr b, g')"
  obtains "later g g'" "b \<longleftrightarrow> (\<exists>r. find_worker w q (pg_db g) = Some r \<and> (t = None \<or> w_lease_token r = t))"
  using assms unfolding lock_current_worker_def
  by (auto elim!: sbind_InrE worker_registration_InrE split: option.splits if_splits)

lemma fail_epoch_InrE:
  assumes "fail_epoch i w l a e g = (Inr n, g')"
  obtains now where "pg_now g \<le> now" "n = count_where (epoch i w l a) (jobs (pg_db g))"
    "pg_db g' = (pg_db g)\<lparr>jobs := update_where (epoch i w l a)
        (failed_row (json_err (truncate_error_payload e)) now) (jobs (pg_db g))\<rparr>"
proof -
  from assms obtain g1 d where g1: "later g g1" "g' = g1\<lparr>pg_db := d\<rparr>"
    "update_jobs (epoch i w l a) (failed_row (json_err (truncate_error_payload e)) (pg_now g1)) (pg_db g1) = (Inr n, d)"
    unfolding fail_epoch_def by (rule stmt_InrE)
  from update_jobs_Inr [OF g1(3)] laterD(1,5) [OF g1(1)] g1(2) show thesis
    using that [of "pg_now g1"] by simp
qed

lemma fail_epoch_exact:
  assumes ok: "db_ok (pg_db g)" and run: "fail_epoch i w l a e g = (Inr n, g')"
  shows "n \<le> 1" and "n = 0 \<Longrightarrow> pg_db g' = pg_db g"
    and "n = 1 \<Longrightarrow> \<exists>now \<ge> pg_now g. \<exists>j \<in> set (jobs (pg_db g)). epoch i w l a j \<and>
       pg_db g' = (pg_db g)\<lparr>jobs := update_where (\<lambda>k. k = j)
          (\<lambda>k. k\<lparr>j_status := if j_max_attempts j \<le> a + 1 then Killed else Failed,
                j_attempts := min (a + 1) (j_max_attempts j), j_done_at := Some now,
                j_last_result := Some (json_err (truncate_error_payload e))\<rparr>) (jobs (pg_db g))\<rparr>"
proof -
  from run obtain now where now: "pg_now g \<le> now" "n = count_where (epoch i w l a) (jobs (pg_db g))"
    and eq: "pg_db g' = (pg_db g)\<lparr>jobs := update_where (epoch i w l a)
        (failed_row (json_err (truncate_error_payload e)) now) (jobs (pg_db g))\<rparr>"
    by (rule fail_epoch_InrE)
  have dist: "distinct (map j_id (jobs (pg_db g)))" using ok by (simp add: db_ok_def)
  show "n \<le> 1" unfolding now(2) using dist epoch_id by (rule count_where_key_le_1)
  show "n = 0 \<Longrightarrow> pg_db g' = pg_db g" using now(2) eq by (simp add: update_where_count_zero)
  assume "n = 1"
  then obtain j where j: "j \<in> set (jobs (pg_db g))" "epoch i w l a j"
    using now(2) count_where_zero [of "epoch i w l a" "jobs (pg_db g)"] by auto
  have "epoch i w l a k \<longleftrightarrow> k = j" if "k \<in> set (jobs (pg_db g))" for k
    using that j distinct_key_unique [OF dist that j(1)] by (auto simp: epoch_def)
  then have "update_where (epoch i w l a) (failed_row (json_err (truncate_error_payload e)) now) (jobs (pg_db g))
      = update_where (\<lambda>k. k = j) (\<lambda>k. k\<lparr>j_status := if j_max_attempts j \<le> a + 1 then Killed else Failed,
              j_attempts := min (a + 1) (j_max_attempts j), j_done_at := Some now,
              j_last_result := Some (json_err (truncate_error_payload e))\<rparr>) (jobs (pg_db g))"
    using j(2) by (auto simp: update_where_def failed_row_def epoch_def)
  with j eq now(1) show "\<exists>now \<ge> pg_now g. \<exists>j \<in> set (jobs (pg_db g)). epoch i w l a j \<and>
       pg_db g' = (pg_db g)\<lparr>jobs := update_where (\<lambda>k. k = j)
          (\<lambda>k. k\<lparr>j_status := if j_max_attempts j \<le> a + 1 then Killed else Failed,
                j_attempts := min (a + 1) (j_max_attempts j), j_done_at := Some now,
                j_last_result := Some (json_err (truncate_error_payload e))\<rparr>) (jobs (pg_db g))\<rparr>"
    by (intro exI [of _ now] conjI bexI [of _ j]) simp_all
qed

lemma find_Some_mem: "find P xs = Some x \<Longrightarrow> x \<in> set xs \<and> P x"
  by (auto simp: find_Some_iff)

lemma task_queue_type:
  assumes "task_queue i None op g = (Inr (Some queue), g')" and ok: "db_ok (pg_db g)"
    and j: "j \<in> set (jobs (pg_db g))" "j_id j = i"
  shows "j_job_type j = queue"
proof -
  from assms(1) have "map_option j_job_type (find (\<lambda>j. j_id j = i) (jobs (pg_db g))) = Some queue"
    unfolding task_queue_def by (auto elim!: stmt_InrE simp: laterD)
  then obtain k where "find (\<lambda>j. j_id j = i) (jobs (pg_db g)) = Some k" "j_job_type k = queue"
    by (auto simp: map_option_eq_Some)
  then have "k \<in> set (jobs (pg_db g))" "j_id k = i" "j_job_type k = queue"
    using find_Some_mem [of "\<lambda>j. j_id j = i"] by auto
  with j ok show ?thesis
    using distinct_key_unique [of j_id "jobs (pg_db g)" j k] by (auto simp: db_ok_def)
qed

lemma fail_undecodable_cases:
  assumes ok: "db_ok (pg_db g)" and run: "fail_undecodable_task i w l a e t g = (Inr n, g')"
  obtains (idle) "n = 0" "pg_db g' = pg_db g"
  | (ran) ga gb where "later g ga" "fail_epoch i w l a e ga = (Inr n, gb)" "pg_db g' = pg_db gb"
      "\<And>j. j \<in> set (jobs (pg_db g)) \<Longrightarrow> j_id j = i \<Longrightarrow> t \<noteq> None \<Longrightarrow>
        \<exists>r. find_worker w (j_job_type j) (pg_db g) = Some r \<and> w_lease_token r = t"
proof (cases t)
  case None
  with run obtain ga gb where "later g ga" "fail_epoch i w l a e ga = (Inr n, gb)" "pg_db g' = pg_db gb"
    unfolding fail_undecodable_task_def by (auto elim: conn_txn_InrE)
  with None show thesis using ran by blast
next
  case (Some tk)
  with run obtain ga gc where ga: "later g ga" and db: "pg_db g' = pg_db gc"
    and body: "sbind (task_queue i None ''locating undecodable task'') (\<lambda>found.
         case found of None \<Rightarrow> sreturn 0 | Some queue \<Rightarrow>
           sbind (lock_current_worker w queue (Some tk)) (\<lambda>current.
               if current then fail_epoch i w l a e else sreturn 0)) ga = (Inr n, gc)"
    unfolding fail_undecodable_task_def by (auto elim: conn_txn_InrE)
  from body obtain found gb where tq: "task_queue i None ''locating undecodable task'' ga = (Inr found, gb)"
    and rest: "(case found of None \<Rightarrow> sreturn 0 | Some queue \<Rightarrow>
           sbind (lock_current_worker w queue (Some tk)) (\<lambda>current.
               if current then fail_epoch i w l a e else sreturn 0)) gb = (Inr n, gc)"
    by (rule sbind_InrE)
  have gb: "later g gb" using ga task_queue_Inr [OF tq] by (rule later_trans)
  show thesis
  proof (cases found)
    case None
    with rest db laterD(1) [OF gb] show thesis by (intro idle) auto
  next
    case q: (Some queue)
    with rest obtain b gd where lk: "lock_current_worker w queue (Some tk) gb = (Inr b, gd)"
      and fe: "(if b then fail_epoch i w l a e else sreturn 0) gd = (Inr n, gc)"
      by (auto elim!: sbind_InrE)
    from lk have gd: "later gb gd"
      and b: "b \<longleftrightarrow> (\<exists>r. find_worker w queue (pg_db g) = Some r \<and> w_lease_token r = Some tk)"
      using laterD(1) [OF gb] by (auto elim: lock_current_worker_InrE)
    have lat: "later g gd" using gb gd by (rule later_trans)
    show thesis
    proof (cases b)
      case False
      with fe db laterD(1) [OF lat] show thesis by (intro idle) auto
    next
      case True
      have "j_job_type j = queue" if "j \<in> set (jobs (pg_db g))" "j_id j = i" for j
        using task_queue_type [OF tq [unfolded q]] ok that laterD(1) [OF ga] by simp
      with True fe b Some show thesis by (intro ran [OF lat _ db]) auto
    qed
  qed
qed

lemma epoch_iff: "epoch i w l a j \<longleftrightarrow>
    j_id j = i \<and> (j_status j = Queued \<or> j_status j = Running) \<and> j_lock_by j = Some w \<and>
    j_lock_at j = Some (l * 1000000) \<and> j_attempts j = a"
  by (auto simp: epoch_def to_timestamp_def is_active_def)

lemma fail_undecodable_exact_raw:
  assumes ok: "db_ok (pg_db g)" and run: "fail_undecodable_task i w l a e t g = (Inr n, g')"
  shows "n \<le> 1 \<and> (n = 0 \<longrightarrow> pg_db g' = pg_db g) \<and>
    (n = 1 \<longrightarrow> (\<exists>now \<ge> pg_now g. \<exists>j \<in> set (jobs (pg_db g)). epoch i w l a j \<and>
       (t \<noteq> None \<longrightarrow> (\<exists>r. find_worker w (j_job_type j) (pg_db g) = Some r \<and> w_lease_token r = t)) \<and>
       pg_db g' = (pg_db g)\<lparr>jobs := update_where (\<lambda>k. k = j)
          (\<lambda>k. k\<lparr>j_status := if j_max_attempts j \<le> a + 1 then Killed else Failed,
                j_attempts := min (a + 1) (j_max_attempts j), j_done_at := Some now,
                j_last_result := Some (json_err (truncate_error_payload e))\<rparr>) (jobs (pg_db g))\<rparr>))"
  using ok run
proof (cases rule: fail_undecodable_cases)
  case (ran ga gb)
  have ok': "db_ok (pg_db ga)" and db: "pg_db ga = pg_db g" "pg_now g \<le> pg_now ga"
    using ok laterD(1,5) [OF ran(1)] by simp_all
  note ex = fail_epoch_exact [OF ok' ran(2)]
  show ?thesis
  proof (intro conjI impI)
    assume "n = 1"
    from ex(3) [OF this, unfolded db(1)] obtain now j where *: "pg_now ga \<le> now" "j \<in> set (jobs (pg_db g))"
      "epoch i w l a j"
      "pg_db gb = (pg_db g)\<lparr>jobs := update_where (\<lambda>k. k = j)
          (\<lambda>k. k\<lparr>j_status := if j_max_attempts j \<le> a + 1 then Killed else Failed,
                j_attempts := min (a + 1) (j_max_attempts j), j_done_at := Some now,
                j_last_result := Some (json_err (truncate_error_payload e))\<rparr>) (jobs (pg_db g))\<rparr>" by blast
    then show "\<exists>now \<ge> pg_now g. \<exists>j \<in> set (jobs (pg_db g)). epoch i w l a j \<and>
       (t \<noteq> None \<longrightarrow> (\<exists>r. find_worker w (j_job_type j) (pg_db g) = Some r \<and> w_lease_token r = t)) \<and>
       pg_db g' = (pg_db g)\<lparr>jobs := update_where (\<lambda>k. k = j)
          (\<lambda>k. k\<lparr>j_status := if j_max_attempts j \<le> a + 1 then Killed else Failed,
                j_attempts := min (a + 1) (j_max_attempts j), j_done_at := Some now,
                j_last_result := Some (json_err (truncate_error_payload e))\<rparr>) (jobs (pg_db g))\<rparr>"
      unfolding ran(3)
      using ran(4) [OF *(2) epoch_id [OF *(3)]] order_trans [OF db(2) *(1)]
      by (intro exI [of _ now] conjI bexI [of _ j] impI *(2-4))
  qed (use ex(1,2) ran(3) db in simp_all)
qed simp

text \<open>
  Releasing a claim whose payload does not decode charges one attempt to at most the one row
  that still holds exactly that claim epoch, and only while the caller's token owns the
  registration of the row's queue: the row becomes \<open>Failed\<close>, or \<open>Killed\<close> when the charged
  attempt exhausts the budget, with the truncated error as its result. A count of zero means
  nothing changed.
\<close>

lemma fail_undecodable_exact:
  assumes ok: "db_ok (pg_db g)" and run: "fail_undecodable_task i w l a e t g = (Inr n, g')"
  shows "n \<le> 1 \<and> (n = 0 \<longrightarrow> pg_db g' = pg_db g) \<and>
    (n = 1 \<longrightarrow> (\<exists>now \<ge> pg_now g. \<exists>j \<in> set (jobs (pg_db g)).
       j_id j = i \<and> (j_status j = Queued \<or> j_status j = Running) \<and> j_lock_by j = Some w \<and>
       j_lock_at j = Some (l * 1000000) \<and> j_attempts j = a \<and>
       (t \<noteq> None \<longrightarrow> (\<exists>r. find_worker w (j_job_type j) (pg_db g) = Some r \<and> w_lease_token r = t)) \<and>
       pg_db g' = (pg_db g)\<lparr>jobs := update_where (\<lambda>k. k = j)
          (\<lambda>k. k\<lparr>j_status := if j_max_attempts j \<le> a + 1 then Killed else Failed,
                j_attempts := min (a + 1) (j_max_attempts j), j_done_at := Some now,
                j_last_result := Some (json_err (truncate_error_payload e))\<rparr>) (jobs (pg_db g))\<rparr>))"
  using fail_undecodable_exact_raw [OF assms] unfolding epoch_iff conj_assoc .

end
