(* ===== verification/Lease.thy ===== *)
theory Lease
  imports Errors
begin

text \<open>
  Local liveness of worker names (\<^verbatim>\<open>src/lease.rs\<close>): the registry shared by the clones of a
  storage, registration attempts, the future a heartbeat waits on before its first renewal, and
  the guard whose drop retires a name. The counters are \<^verbatim>\<open>u64\<close> atomics and wrap. The second
  half runs the future against concurrent registrations and retirements one atomic access at a
  time and shows that no wakeup is lost.
\<close>

section \<open>Leases\<close>

type_synonym waker = nat

record lease =
  l_worker_id :: string
  l_retired :: bool
  l_registered :: bool
  l_settled :: "64 word"
  l_pending :: "64 word"
  l_waiters :: "waker list"

definition fresh_lease :: "string \<Rightarrow> lease" where
  "fresh_lease worker_id =
     \<lparr>l_worker_id = worker_id, l_retired = False, l_registered = False, l_settled = 0,
      l_pending = 0, l_waiters = []\<rparr>"

type_synonym registry = "string \<rightharpoonup> lease"

text \<open>The lease of a name, created on first use; an \<^verbatim>\<open>Arc\<close> to it is the name itself.\<close>

definition for_worker :: "string \<Rightarrow> registry \<Rightarrow> lease \<times> registry" where
  "for_worker worker_id leases =
     (case leases worker_id of
        Some lease \<Rightarrow> (lease, leases)
      | None \<Rightarrow> (fresh_lease worker_id, leases(worker_id \<mapsto> fresh_lease worker_id)))"

text \<open>Taking the waiters yields the wakers to wake.\<close>

definition wake_waiters :: "lease \<Rightarrow> lease \<times> waker list" where
  "wake_waiters l = (l\<lparr>l_waiters := []\<rparr>, l_waiters l)"

definition retire :: "lease \<Rightarrow> lease \<times> waker list" where
  "retire l = wake_waiters (l\<lparr>l_retired := True\<rparr>)"

definition ensure_active :: "lease \<Rightarrow> (error, unit) result" where
  "ensure_active l = (if l_retired l then Inl (WorkerRetired (l_worker_id l)) else Inr ())"

section \<open>Registration attempts\<close>

definition begin_registration :: "lease \<Rightarrow> lease" where
  "begin_registration l = l\<lparr>l_pending := l_pending l + 1\<rparr>"

definition finish_registration :: "bool \<Rightarrow> lease \<Rightarrow> lease \<times> waker list" where
  "finish_registration succeeded l =
     wake_waiters (let l1 = (if succeeded then l\<lparr>l_registered := True\<rparr> else l);
                       l2 = l1\<lparr>l_settled := l_settled l1 + 1\<rparr>
                   in l2\<lparr>l_pending := l_pending l2 - 1\<rparr>)"

text \<open>Settling consumes the attempt; dropping an unsettled attempt settles it as refused.\<close>

record attempt =
  at_settled :: bool

definition settle_attempt :: "bool \<Rightarrow> attempt \<Rightarrow> lease \<Rightarrow> attempt \<times> lease \<times> waker list" where
  "settle_attempt succeeded a l = (a\<lparr>at_settled := True\<rparr>, finish_registration succeeded l)"

definition drop_attempt :: "attempt \<Rightarrow> lease \<Rightarrow> lease \<times> waker list" where
  "drop_attempt a l = (if \<not> at_settled a then finish_registration False l else (l, []))"

section \<open>The future a heartbeat waits on\<close>

record registration_wait =
  rg_settled_before :: "64 word"

definition registration :: "lease \<Rightarrow> registration_wait" where
  "registration l = \<lparr>rg_settled_before = l_settled l\<rparr>"

definition is_settled :: "registration_wait \<Rightarrow> lease \<Rightarrow> bool" where
  "is_settled r l \<longleftrightarrow>
     l_registered l \<or> l_retired l \<or> (rg_settled_before r < l_settled l \<and> l_pending l = 0)"

definition add_waiter :: "waker \<Rightarrow> lease \<Rightarrow> lease" where
  "add_waiter w l = (if w \<in> set (l_waiters l) then l else l\<lparr>l_waiters := l_waiters l @ [w]\<rparr>)"

definition poll_registration :: "registration_wait \<Rightarrow> waker \<Rightarrow> lease \<Rightarrow> bool \<times> lease" where
  "poll_registration r w l =
     (if is_settled r l then (True, l)
      else (let l1 = add_waiter w l in (is_settled r l1, l1)))"

section \<open>Guards\<close>

record guard =
  gd_armed :: bool

definition disarm :: "guard \<Rightarrow> guard" where
  "disarm gd = gd\<lparr>gd_armed := False\<rparr>"

definition drop_guard :: "guard \<Rightarrow> lease \<Rightarrow> lease \<times> waker list" where
  "drop_guard gd l = (if gd_armed gd then retire l else (l, []))"

section \<open>One atomic access at a time\<close>

text \<open>
  The accesses of \<open>finish_registration\<close> and \<open>retire\<close> to the shared lease, in program
  order. A wakeup takes the whole list of waiters under its mutex.
\<close>

datatype access = SetRegistered | AddSettled | SubPending | SetRetired | WakeAll

definition finish_accesses :: "bool \<Rightarrow> access list" where
  "finish_accesses succeeded =
     (if succeeded then [SetRegistered] else []) @ [AddSettled, SubPending, WakeAll]"

definition retire_accesses :: "access list" where
  "retire_accesses = [SetRetired, WakeAll]"

fun run_access :: "access \<Rightarrow> lease \<Rightarrow> lease \<times> waker list" where
  "run_access SetRegistered l = (l\<lparr>l_registered := True\<rparr>, [])"
| "run_access AddSettled l = (l\<lparr>l_settled := l_settled l + 1\<rparr>, [])"
| "run_access SubPending l = (l\<lparr>l_pending := l_pending l - 1\<rparr>, [])"
| "run_access SetRetired l = (l\<lparr>l_retired := True\<rparr>, [])"
| "run_access WakeAll l = wake_waiters l"

fun run_accesses :: "access list \<Rightarrow> lease \<Rightarrow> lease \<times> waker list" where
  "run_accesses [] l = (l, [])"
| "run_accesses (a # as) l =
     (let (l1, w1) = run_access a l; (l2, w2) = run_accesses as l1 in (l2, w1 @ w2))"

text \<open>
  One poll beside any number of settling or retiring threads, with other pollers and new attempts
  in between. Each check of \<open>is_settled\<close> is up to four atomic loads in program order
  (registered, retired, settled, pending), stopping at the first that decides it; between the two
  checks the waker is registered under the mutex. A new attempt does not wrap the counter of
  pending attempts: each attempt is a live value of the process, so there are fewer than
  \<open>2 ^ 64\<close>.
\<close>

datatype load = LoadRegistered | LoadRetired | LoadSettled | LoadPending

datatype poll_pc = Check load | Register | Recheck load | ReturnedReady | ReturnedPending

text \<open>The outcome of one load: decided, undecided (the next load), or not settled.\<close>

datatype verdict = Settled | Next load | NotSettled

fun run_load :: "registration_wait \<Rightarrow> load \<Rightarrow> lease \<Rightarrow> verdict" where
  "run_load r LoadRegistered l = (if l_registered l then Settled else Next LoadRetired)"
| "run_load r LoadRetired l = (if l_retired l then Settled else Next LoadSettled)"
| "run_load r LoadSettled l = (if rg_settled_before r < l_settled l then Next LoadPending else NotSettled)"
| "run_load r LoadPending l = (if l_pending l = 0 then Settled else NotSettled)"

definition after_check :: "verdict \<Rightarrow> poll_pc" where
  "after_check v = (case v of Settled \<Rightarrow> ReturnedReady | Next k \<Rightarrow> Check k | NotSettled \<Rightarrow> Register)"

definition after_recheck :: "verdict \<Rightarrow> poll_pc" where
  "after_recheck v =
     (case v of Settled \<Rightarrow> ReturnedReady | Next k \<Rightarrow> Recheck k | NotSettled \<Rightarrow> ReturnedPending)"

record race =
  ra_lease :: lease
  ra_pc :: poll_pc
  ra_threads :: "access list list"
  ra_woken :: "waker list"

inductive race_step :: "registration_wait \<Rightarrow> waker \<Rightarrow> race \<Rightarrow> race \<Rightarrow> bool"
  for r :: registration_wait and w :: waker where
  check: "ra_pc s = Check k \<Longrightarrow>
    race_step r w s (s\<lparr>ra_pc := after_check (run_load r k (ra_lease s))\<rparr>)"
| register: "ra_pc s = Register \<Longrightarrow>
    race_step r w s (s\<lparr>ra_lease := add_waiter w (ra_lease s), ra_pc := Recheck LoadRegistered\<rparr>)"
| recheck: "ra_pc s = Recheck k \<Longrightarrow>
    race_step r w s (s\<lparr>ra_pc := after_recheck (run_load r k (ra_lease s))\<rparr>)"
| thread: "ra_threads s = before @ (a # as) # after \<Longrightarrow> run_access a (ra_lease s) = (l, ws) \<Longrightarrow>
    race_step r w s (s\<lparr>ra_lease := l, ra_threads := before @ as # after, ra_woken := ra_woken s @ ws\<rparr>)"
| begin_attempt: "l_pending (ra_lease s) + 1 \<noteq> 0 \<Longrightarrow>
    race_step r w s (s\<lparr>ra_lease := begin_registration (ra_lease s)\<rparr>)"
| spawn_finish: "race_step r w s (s\<lparr>ra_threads := ra_threads s @ [finish_accesses b]\<rparr>)"
| spawn_retire: "race_step r w s (s\<lparr>ra_threads := ra_threads s @ [retire_accesses]\<rparr>)"
| other_poller: "race_step r w s (s\<lparr>ra_lease := add_waiter v (ra_lease s)\<rparr>)"

inductive_cases race_stepE: "race_step r w s s'"

definition race_start :: "lease \<Rightarrow> race" where
  "race_start l = \<lparr>ra_lease = l, ra_pc = Check LoadRegistered, ra_threads = [], ra_woken = []\<rparr>"

section \<open>Liveness of names\<close>

text \<open>
  The interface the acknowledgement and the streams use: retiring a name is permanent and touches
  no other name.
\<close>

locale liveness =
  fixes retired :: "'r \<Rightarrow> string \<Rightarrow> bool" and retire_name :: "string \<Rightarrow> 'r \<Rightarrow> 'r"
  assumes retired_retire: "retired (retire_name n r) m \<longleftrightarrow> m = n \<or> retired r m"
begin

lemma retire_permanent: "retired r m \<Longrightarrow> retired (retire_name n r) m"
  by (simp add: retired_retire)

lemma retire_many: "retired (fold retire_name ns r) m \<longleftrightarrow> m \<in> set ns \<or> retired r m"
  by (induction ns arbitrary: r) (auto simp: retired_retire)

lemma retire_commute: "retired (retire_name a (retire_name b r)) m = retired (retire_name b (retire_name a r)) m"
  by (auto simp: retired_retire)

end

definition name_retired :: "registry \<Rightarrow> string \<Rightarrow> bool" where
  "name_retired leases n = (case leases n of Some l \<Rightarrow> l_retired l | None \<Rightarrow> False)"

text \<open>Retiring through an \<^verbatim>\<open>Arc\<close> of the registry: the lease of the name, in place.\<close>

definition retire_in :: "string \<Rightarrow> registry \<Rightarrow> registry" where
  "retire_in n leases = (let (l, leases1) = for_worker n leases in leases1(n \<mapsto> fst (retire l)))"

interpretation names: liveness name_retired retire_in
  by unfold_locales
     (auto simp: name_retired_def retire_in_def for_worker_def retire_def wake_waiters_def
        fresh_lease_def Let_def split: option.splits prod.splits)

lemma for_worker_keeps_retired: "name_retired (snd (for_worker n leases)) m = name_retired leases m"
  by (auto simp: name_retired_def for_worker_def fresh_lease_def split: option.splits)

lemma for_worker_retired: "l_retired (fst (for_worker n leases)) = name_retired leases n"
  by (auto simp: name_retired_def for_worker_def fresh_lease_def split: option.splits)

section \<open>Refinement of the accesses\<close>

lemma finish_accesses_run: "run_accesses (finish_accesses b) l = finish_registration b l"
  by (simp add: finish_accesses_def finish_registration_def wake_waiters_def Let_def)

lemma retire_accesses_run: "run_accesses retire_accesses l = retire l"
  by (simp add: retire_accesses_def retire_def wake_waiters_def)

text \<open>Undisturbed, the loads of a check decide \<open>is_settled\<close>.\<close>

lemma loads_decide:
  "is_settled r l \<longleftrightarrow> run_load r LoadRegistered l = Settled \<or> run_load r LoadRetired l = Settled \<or>
     (run_load r LoadSettled l = Next LoadPending \<and> run_load r LoadPending l = Settled)"
  by (auto simp: is_settled_def)

section \<open>No lost wakeup\<close>

text \<open>A thread that still has an access to make ends by waking everybody.\<close>

definition ends_awake :: "access list \<Rightarrow> bool" where
  "ends_awake as \<longleftrightarrow> as = [] \<or> last as = WakeAll"

text \<open>
  What the loads of the second check have established so far: a condition that was read false and
  holds now was established by a thread that has not finished.
\<close>

fun established :: "registration_wait \<Rightarrow> poll_pc \<Rightarrow> lease \<Rightarrow> bool" where
  "established r (Recheck LoadRegistered) l = False"
| "established r (Recheck LoadRetired) l = l_registered l"
| "established r (Recheck LoadSettled) l = (l_registered l \<or> l_retired l)"
| "established r (Recheck LoadPending) l = (l_registered l \<or> l_retired l)"
| "established r ReturnedPending l = is_settled r l"
| "established r pc l = False"

definition waiting :: "poll_pc \<Rightarrow> bool" where
  "waiting pc \<longleftrightarrow> pc = ReturnedPending \<or> (\<exists>k. pc = Recheck k)"

definition race_inv :: "registration_wait \<Rightarrow> waker \<Rightarrow> race \<Rightarrow> bool" where
  "race_inv r w s \<longleftrightarrow>
     (\<forall>as \<in> set (ra_threads s). ends_awake as) \<and>
     (waiting (ra_pc s) \<and> w \<notin> set (ra_woken s) \<longrightarrow> w \<in> set (l_waiters (ra_lease s))) \<and>
     (w \<notin> set (ra_woken s) \<and> established r (ra_pc s) (ra_lease s) \<longrightarrow>
        (\<exists>as \<in> set (ra_threads s). as \<noteq> []))"

lemma established_waiting: "established r pc l \<Longrightarrow> waiting pc"
  by (cases "(r, pc, l)" rule: established.cases) (auto simp: waiting_def)

lemma established_next: "established r (after_recheck (run_load r k l)) l \<Longrightarrow> established r (Recheck k) l"
  by (cases k) (auto simp: after_recheck_def is_settled_def split: if_splits)

lemma established_check: "\<not> established r (after_check v) l" "\<not> waiting (after_check v)"
  by (auto simp: after_check_def waiting_def split: verdict.splits)

lemma waiting_next: "waiting (after_recheck v) \<Longrightarrow> waiting (Recheck k)"
  by (simp add: waiting_def)

lemma established_begin:
  "l_pending l + 1 \<noteq> 0 \<Longrightarrow> established r pc (begin_registration l) \<Longrightarrow> established r pc l"
  by (cases "(r, pc, l)" rule: established.cases) (auto simp: begin_registration_def is_settled_def)

lemma ends_awake_tl: "ends_awake (a # as) \<Longrightarrow> ends_awake as"
  by (auto simp: ends_awake_def split: if_splits)

lemma ends_awake_more: "ends_awake (a # as) \<Longrightarrow> a \<noteq> WakeAll \<Longrightarrow> as \<noteq> []"
  by (auto simp: ends_awake_def)

lemma add_waiter_simps [simp]:
  "set (l_waiters (add_waiter v l)) = insert v (set (l_waiters l))"
  "is_settled r (add_waiter v l) = is_settled r l"
  by (auto simp: add_waiter_def is_settled_def)

lemma run_access_waiters:
  "run_access a l = (l', ws) \<Longrightarrow> a \<noteq> WakeAll \<Longrightarrow> l_waiters l' = l_waiters l \<and> ws = []"
  by (cases a) auto

lemma established_add_waiter [simp]: "established r pc (add_waiter v l) = established r pc l"
  by (cases "(r, pc, l)" rule: established.cases) (auto simp: add_waiter_def is_settled_def)

lemma race_inv_step:
  assumes "race_step r w s s'" and inv: "race_inv r w s"
  shows "race_inv r w s'"
  using assms(1)
proof cases
  case (check k)
  with inv show ?thesis by (simp add: race_inv_def established_check)
next
  case (recheck k)
  with inv show ?thesis
    by (auto simp: race_inv_def dest!: established_next [of r k] waiting_next)
next
  case (thread before a as after l ws)
  then have th: "ends_awake (a # as)" using inv by (simp add: race_inv_def)
  show ?thesis
  proof (cases "a = WakeAll")
    case True
    then have "l = (ra_lease s)\<lparr>l_waiters := []\<rparr>" "ws = l_waiters (ra_lease s)"
      using thread(3) by (simp_all add: wake_waiters_def)
    with thread inv th show ?thesis
      by (auto simp: race_inv_def dest: ends_awake_tl dest!: established_waiting)
  next
    case False
    with th have "as \<noteq> []" by (rule ends_awake_more)
    moreover have "l_waiters l = l_waiters (ra_lease s)" "ws = []"
      using run_access_waiters [OF thread(3) False] by simp_all
    ultimately show ?thesis
      using thread inv th by (auto simp: race_inv_def dest: ends_awake_tl)
  qed
next
  case begin_attempt
  with inv show ?thesis
    by (auto simp: race_inv_def dest: established_begin) (simp_all add: begin_registration_def)
next
  case register
  with inv show ?thesis by (simp add: race_inv_def)
qed (use inv in \<open>auto simp: race_inv_def ends_awake_def finish_accesses_def retire_accesses_def\<close>)

lemma race_inv_reachable:
  assumes "(race_step r w)\<^sup>*\<^sup>* (race_start l) s"
  shows "race_inv r w s"
  using assms
proof (induction rule: rtranclp_induct)
  case base
  then show ?case by (simp add: race_inv_def race_start_def waiting_def)
qed (rule race_inv_step)

text \<open>
  C31. A heartbeat that was told to wait for its registration is woken: in every interleaving of its
  poll with settling and retiring threads, other pollers and new attempts, once the poll has
  returned pending, the registration is settled and the threads are done, its waker has been
  woken.
\<close>

theorem no_lost_wakeup:
  assumes "(race_step r w)\<^sup>*\<^sup>* (race_start l) s"
    and "ra_pc s = ReturnedPending" and "is_settled r (ra_lease s)"
    and "\<forall>as \<in> set (ra_threads s). as = []"
  shows "w \<in> set (ra_woken s)"
  using race_inv_reachable [OF assms(1)] assms(2-4) by (auto simp: race_inv_def)

text \<open>
  A heartbeat created before an attempt that is refused is released only when no attempt of the
  name is in flight: while another attempt is pending, and the name is neither registered nor
  retired, the wait is not over; when the last attempt settles, it is over, unless the counter of
  settled attempts wrapped.
\<close>

lemma registration_waits_for_pending_attempts:
  assumes "\<not> l_retired l" and "\<not> l_registered l"
  shows "(l_pending l \<noteq> 1 \<longrightarrow> \<not> is_settled r (fst (finish_registration False l))) \<and>
    (l_pending l = 1 \<and> rg_settled_before r < l_settled l + 1 \<longrightarrow>
       is_settled r (fst (finish_registration False l))) \<and>
    is_settled r (fst (finish_registration True l)) \<and>
    fst (drop_attempt \<lparr>at_settled = False\<rparr> l) = fst (finish_registration False l)"
  using assms
  by (auto simp: is_settled_def finish_registration_def wake_waiters_def drop_attempt_def Let_def)

end
