(* ===== verification/Ack.thy ===== *)
theory Ack
  imports Fetch Lease
begin

text \<open>
  Starting and acknowledging claimed tasks (\<^verbatim>\<open>src/queries/ack.rs\<close>, \<^verbatim>\<open>src/ack.rs\<close>): the
  acknowledgement statement, the claim record with its shared cells, the acknowledger, the lock
  middleware and the completion obligations that retire a worker which may have lost one. The
  handler behind the middleware is a parameter.
\<close>

section \<open>The acknowledgement statement\<close>

record ack_update =
  au_task_id :: string
  au_attempts :: int
  au_started_attempts :: int
  au_result :: "json option"
  au_status :: status
  au_worker_id :: string
  au_queue :: string
  au_lock_at :: int
  au_lease_token :: "string option"

definition ack_match :: "ack_update \<Rightarrow> job_row \<Rightarrow> bool" where
  "ack_match u j \<longleftrightarrow>
     j_id j = au_task_id u \<and> j_job_type j = au_queue u \<and> j_lock_by j = Some (au_worker_id u) \<and>
     j_lock_at j = Some (to_timestamp (au_lock_at u)) \<and> j_attempts j = au_started_attempts u \<and>
     is_active (j_status j)"

definition acked_row :: "ack_update \<Rightarrow> timestamp \<Rightarrow> job_row \<Rightarrow> job_row" where
  "acked_row u now j =
     j\<lparr>j_status := au_status u, j_attempts := au_attempts u, j_last_result := au_result u,
       j_done_at := Some now\<rparr>"

abbreviation ack_stale :: "ack_update \<Rightarrow> error" where
  "ack_stale u \<equiv> stale_acknowledgement (au_task_id u) (au_queue u) (au_worker_id u)"

definition ack_task :: "ack_update \<Rightarrow> unit sql" where
  "ack_task u = with_conn (transaction (
     sbind (if au_lease_token u \<noteq> None
            then lock_current_worker (au_worker_id u) (au_queue u) (au_lease_token u)
            else sreturn True)
     (\<lambda>current. if \<not> current then sthrow (ack_stale u)
      else sbind (stmt ''acknowledging task'' (\<lambda>g.
                    update_jobs (ack_match u) (acked_row u (pg_now g)) (pg_db g)))
      (\<lambda>count. if count = 0 then sthrow (ack_stale u) else sreturn ()))))"

section \<open>Claim records\<close>

text \<open>
  The atomic cells of \<^verbatim>\<open>ClaimAcknowledgement\<close>, shared by every clone of a task through the
  address in its claim record. A cell that was never written is fresh.
\<close>

record ack_cells =
  ac_done :: bool
  ac_started :: bool
  ac_attempted :: bool

definition fresh_cells :: ack_cells where
  "fresh_cells = \<lparr>ac_done = False, ac_started = False, ac_attempted = False\<rparr>"

text \<open>The process: the database connection, the lease registry and the cells.\<close>

record proc =
  p_pg :: pg
  p_leases :: registry
  p_cells :: "nat \<Rightarrow> ack_cells"

definition on_pg :: "'a sql \<Rightarrow> proc \<Rightarrow> (error, 'a) result \<times> proc" where
  "on_pg f st = (let (r, g) = f (p_pg st) in (r, st\<lparr>p_pg := g\<rparr>))"

definition set_cells :: "(ack_cells \<Rightarrow> ack_cells) \<Rightarrow> claim \<Rightarrow> proc \<Rightarrow> proc" where
  "set_cells f c st =
     st\<lparr>p_cells := (p_cells st)(cl_cells c := f (p_cells st (cl_cells c)))\<rparr>"

definition is_acknowledged :: "claim \<Rightarrow> proc \<Rightarrow> bool" where
  "is_acknowledged c st = ac_done (p_cells st (cl_cells c))"

definition mark_acknowledged :: "claim \<Rightarrow> proc \<Rightarrow> proc" where
  "mark_acknowledged = set_cells (\<lambda>a. a\<lparr>ac_done := True\<rparr>)"

definition has_started :: "claim \<Rightarrow> proc \<Rightarrow> bool" where
  "has_started c st = ac_started (p_cells st (cl_cells c))"

definition mark_started :: "claim \<Rightarrow> proc \<Rightarrow> proc" where
  "mark_started = set_cells (\<lambda>a. a\<lparr>ac_started := True\<rparr>)"

definition mark_start_attempted :: "claim \<Rightarrow> proc \<Rightarrow> proc" where
  "mark_start_attempted = set_cells (\<lambda>a. a\<lparr>ac_attempted := True\<rparr>)"

definition start_refused :: "claim \<Rightarrow> proc \<Rightarrow> bool" where
  "start_refused c st \<longleftrightarrow> ac_attempted (p_cells st (cl_cells c)) \<and> \<not> has_started c st"

definition some_claim :: "(claim \<Rightarrow> proc \<Rightarrow> bool) \<Rightarrow> claim option \<Rightarrow> proc \<Rightarrow> bool" where
  "some_claim P c st = (case c of None \<Rightarrow> False | Some x \<Rightarrow> P x st)"

definition on_claim :: "(claim \<Rightarrow> proc \<Rightarrow> proc) \<Rightarrow> claim option \<Rightarrow> proc \<Rightarrow> proc" where
  "on_claim f c st = (case c of None \<Rightarrow> st | Some x \<Rightarrow> f x st)"

section \<open>Completion obligations\<close>

text \<open>A guard is the name of the lease it would retire and whether it is armed.\<close>

record obligation =
  ob_guard :: "(string \<times> guard) option"
  ob_claim :: "claim option"

definition armed_guard :: "string \<Rightarrow> string \<times> guard" where
  "armed_guard n = (n, \<lparr>gd_armed = True\<rparr>)"

definition ob_disarm :: "obligation \<Rightarrow> obligation" where
  "ob_disarm ob = ob\<lparr>ob_guard := map_option (map_prod id disarm) (ob_guard ob)\<rparr>"

text \<open>The lease of a name is created in the registry when it is looked up.\<close>

definition lease_handle :: "string option \<Rightarrow> proc \<Rightarrow> proc" where
  "lease_handle n st = (case n of
     None \<Rightarrow> st | Some w \<Rightarrow> st\<lparr>p_leases := snd (for_worker w (p_leases st))\<rparr>)"

definition drop_lease_guard :: "(string \<times> guard) option \<Rightarrow> proc \<Rightarrow> proc" where
  "drop_lease_guard gd st = (case gd of
     None \<Rightarrow> st
   | Some (n, a) \<Rightarrow> if gd_armed a then st\<lparr>p_leases := retire_in n (p_leases st)\<rparr> else st)"

definition drop_obligation :: "obligation \<Rightarrow> proc \<Rightarrow> proc" where
  "drop_obligation ob st =
     drop_lease_guard
       (ob_guard (if some_claim is_acknowledged (ob_claim ob) st then ob_disarm ob else ob)) st"

section \<open>The acknowledger\<close>

text \<open>\<open>pa_leases\<close>: whether the acknowledger carries the storage's lease registry.\<close>

record pg_acknowledger =
  pa_lease_token :: "string option"
  pa_leases :: bool

definition pg_ack_new :: pg_acknowledger where
  "pg_ack_new = \<lparr>pa_lease_token = None, pa_leases = False\<rparr>"

definition pg_ack_with_lease_token :: "string \<Rightarrow> pg_acknowledger" where
  "pg_ack_with_lease_token token = \<lparr>pa_lease_token = Some token, pa_leases = False\<rparr>"

definition pg_ack_with_lease_registry :: "string \<Rightarrow> pg_acknowledger" where
  "pg_ack_with_lease_registry token = \<lparr>pa_lease_token = Some token, pa_leases = True\<rparr>"

definition acknowledgement_attempt :: "'a task \<Rightarrow> (error, nat) result" where
  "acknowledgement_attempt task =
     (case t_claim task of
        None \<Rightarrow> Inr (t_attempt task)
      | Some claim \<Rightarrow>
          rbind (ok_or (t_task_id task) (MissingField ''task_id'')) (\<lambda>task_id.
          rbind (ok_or (t_lock_by task) (MissingField ''lock_by'')) (\<lambda>worker_id.
          rbind (ok_or (t_queue task) (MissingField ''queue'')) (\<lambda>queue.
          rbind (ok_or (t_lock_at task) (MissingField ''lock_at'')) (\<lambda>lock_at.
            if cl_task_id claim \<noteq> Some task_id \<or> cl_lock_at claim \<noteq> Some lock_at
            then Inl (stale_acknowledgement task_id queue worker_id)
            else ok_or (usize_checked_add (cl_completed claim) 1)
                   (InvalidArgument ''task attempt counter cannot be incremented''))))))"

text \<open>A result of a handler: the display text of its error, or its value.\<close>

definition calculate_status :: "int \<Rightarrow> nat \<Rightarrow> (string, 'r) result \<Rightarrow> status" where
  "calculate_status max_attempts attempts res =
     (case res of
        Inr _ \<Rightarrow> Done
      | Inl _ \<Rightarrow> if 0 \<le> max_attempts \<and> attempts < nat max_attempts then Failed else Killed)"

text \<open>\<open>ser\<close> is \<^verbatim>\<open>serde_json::to_value\<close> of a \<^verbatim>\<open>Result<Res, String>\<close>.\<close>

definition build_ack_response ::
    "((string, 'r) result \<Rightarrow> (string, json) result) \<Rightarrow> (string, 'r) result \<Rightarrow> (string, json option) result" where
  "build_ack_response ser res = map_sum id Some (ser (map_sum truncate_error_payload id res))"

definition attempts_i32 :: "nat \<Rightarrow> (error, int) result" where
  "attempts_i32 n = ok_or (i32_try_from (int n))
     (InvalidArgument ''task attempt counter exceeds i32::MAX and cannot be stored'')"

text \<open>The update an acknowledgement sends, with the early returns in the order of the code.\<close>

definition ack_update_of ::
    "((string, 'r) result \<Rightarrow> (string, json) result) \<Rightarrow> pg_acknowledger \<Rightarrow> (string, 'r) result \<Rightarrow>
     'a task \<Rightarrow> (error, ack_update) result" where
  "ack_update_of ser ak res task =
     rbind (acknowledgement_attempt task) (\<lambda>attempts_raw.
     let status = calculate_status (t_max_attempts task) attempts_raw res in
     rbind (attempts_i32 attempts_raw) (\<lambda>attempts.
     rbind (ok_or (t_task_id task) (MissingField ''task_id'')) (\<lambda>task_id.
     rbind (map_sum Json id (build_ack_response ser res)) (\<lambda>response.
     rbind (ok_or (t_lock_by task) (MissingField ''lock_by'')) (\<lambda>worker_id.
     rbind (ok_or (t_queue task) (MissingField ''queue'')) (\<lambda>queue.
     rbind (ok_or (t_lock_at task) (MissingField ''lock_at'')) (\<lambda>lock_at.
       Inr \<lparr>au_task_id = task_id, au_attempts = attempts,
            au_started_attempts = max i32_min (attempts - 1), au_result = response,
            au_status = status, au_worker_id = worker_id, au_queue = queue, au_lock_at = lock_at,
            au_lease_token = pa_lease_token ak\<rparr>)))))))"

definition ack_repeat :: "'a task \<Rightarrow> (error, unit) result" where
  "ack_repeat task =
     rbind (ok_or (t_task_id task) (MissingField ''task_id'')) (\<lambda>task_id.
     rbind (ok_or (t_queue task) (MissingField ''queue'')) (\<lambda>queue.
     rbind (ok_or (t_lock_by task) (MissingField ''lock_by'')) (\<lambda>worker_id.
       Inl (already_acknowledged task_id queue worker_id))))"

definition ack_obligation :: "pg_acknowledger \<Rightarrow> 'a task \<Rightarrow> obligation" where
  "ack_obligation ak task =
     \<lparr>ob_guard = (if pa_leases ak then map_option armed_guard (t_lock_by task) else None),
      ob_claim = t_claim task\<rparr>"

definition ack_run ::
    "((string, 'r) result \<Rightarrow> (string, json) result) \<Rightarrow> pg_acknowledger \<Rightarrow> (string, 'r) result \<Rightarrow>
     'a task \<Rightarrow> obligation \<Rightarrow> proc \<Rightarrow> (error, unit) result \<times> obligation \<times> proc" where
  "ack_run ser ak res task ob st =
     (if some_claim start_refused (t_claim task) st then (Inr (), ob_disarm ob, st)
      else if some_claim is_acknowledged (t_claim task) st then (ack_repeat task, ob_disarm ob, st)
      else case ack_update_of ser ak res task of
        Inl e \<Rightarrow> (Inl e, ob, st)
      | Inr u \<Rightarrow> (case on_pg (ack_task u) st of
          (Inl e, st1) \<Rightarrow> (Inl e, ob, st1)
        | (Inr _, st1) \<Rightarrow> (Inr (), ob_disarm ob, on_claim mark_acknowledged (t_claim task) st1)))"

definition ack ::
    "((string, 'r) result \<Rightarrow> (string, json) result) \<Rightarrow> pg_acknowledger \<Rightarrow> (string, 'r) result \<Rightarrow>
     'a task \<Rightarrow> proc \<Rightarrow> (error, unit) result \<times> proc" where
  "ack ser ak res task st =
     (let st0 = (if pa_leases ak then lease_handle (t_lock_by task) st else st);
          (r, ob, st1) = ack_run ser ak res task (ack_obligation ak task) st0
      in (r, drop_obligation ob st1))"

text \<open>
  The future of an acknowledgement dropped while its statement is in flight: the statement may
  still run on the blocking pool, its report is lost, and the obligation drops as it is.
\<close>

definition ack_dropped :: "pg_acknowledger \<Rightarrow> 'a task \<Rightarrow> ack_update \<Rightarrow> bool \<Rightarrow> proc \<Rightarrow> proc" where
  "ack_dropped ak task u ran_anyway st =
     (let st0 = (if pa_leases ak then lease_handle (t_lock_by task) st else st);
          st1 = (if ran_anyway then snd (on_pg (ack_task u) st0) else st0)
      in drop_obligation (ack_obligation ak task) st1)"

section \<open>Starting a claim\<close>

record start_refusal =
  sr_error :: error
  sr_still_owed :: bool

definition lease_active :: "string option \<Rightarrow> proc \<Rightarrow> (error, unit) result" where
  "lease_active n st = (case n of
     None \<Rightarrow> Inr () | Some w \<Rightarrow> ensure_active (fst (for_worker w (p_leases st))))"

definition claim_epoch :: "'a task \<Rightarrow> proc \<Rightarrow> int option \<times> nat option \<times> bool" where
  "claim_epoch task st = (case t_claim task of
     Some c \<Rightarrow> (cl_lock_at c, Some (cl_completed c), has_started c st)
   | None \<Rightarrow> (t_lock_at task, None, True))"

definition start_attempts :: "nat option \<Rightarrow> (error, int option) result" where
  "start_attempts n = (case n of
     None \<Rightarrow> Inr None
   | Some k \<Rightarrow> rbind (ok_or (i32_try_from (int k))
        (InvalidArgument ''task attempt counter does not fit the attempts column'')) (\<lambda>i. Inr (Some i)))"

definition start_claim_of ::
    "string option \<Rightarrow> string \<Rightarrow> 'a task \<Rightarrow> proc \<Rightarrow> (error, start_claim) result" where
  "start_claim_of token worker_id task st =
     (case claim_epoch task st of (lock_at, attempts, restart) \<Rightarrow>
        rbind (ok_or (t_task_id task) (MissingField ''task_id'')) (\<lambda>task_id.
        rbind (ok_or (t_queue task) (MissingField ''queue'')) (\<lambda>queue.
        rbind (ok_or lock_at (MissingField ''lock_at'')) (\<lambda>l.
        rbind (start_attempts attempts) (\<lambda>a.
          Inr \<lparr>sc_task_id = task_id, sc_queue = queue, sc_worker_id = worker_id, sc_lock_at = l,
               sc_attempts = a, sc_restart = restart, sc_lease_token = token\<rparr>)))))"

definition or_default :: "string option \<Rightarrow> string" where
  "or_default s = (case s of None \<Rightarrow> '''' | Some x \<Rightarrow> x)"

definition start_claim ::
    "string option \<Rightarrow> string option \<Rightarrow> string \<Rightarrow> 'a task \<Rightarrow> proc \<Rightarrow>
     (start_refusal, 'a task) result \<times> proc" where
  "start_claim token lease worker_id task st =
     (if some_claim is_acknowledged (t_claim task) st
      then (Inl \<lparr>sr_error = already_acknowledged (or_default (t_task_id task))
                              (or_default (t_queue task)) worker_id, sr_still_owed = False\<rparr>, st)
      else
        let st1 = on_claim mark_start_attempted (t_claim task) st in
        case lease_active lease st1 of
          Inl e \<Rightarrow> (Inl \<lparr>sr_error = e, sr_still_owed = False\<rparr>, st1)
        | Inr _ \<Rightarrow> (case start_claim_of token worker_id task st of
            Inl e \<Rightarrow> (Inl \<lparr>sr_error = e, sr_still_owed = True\<rparr>, st1)
          | Inr c \<Rightarrow> (case on_pg (start_task c) st1 of
              (Inl e, st2) \<Rightarrow> (Inl \<lparr>sr_error = e, sr_still_owed = True\<rparr>, st2)
            | (Inr started, st2) \<Rightarrow>
                if \<not> started
                then (Inl \<lparr>sr_error = claim_lost (sc_task_id c) (sc_queue c) worker_id,
                           sr_still_owed = False\<rparr>, st2)
                else (Inr (task\<lparr>t_status := Running\<rparr>), on_claim mark_started (t_claim task) st2))))"

definition pg_ack_start :: "pg_acknowledger \<Rightarrow> 'a task \<Rightarrow> proc \<Rightarrow> (error, 'a task) result \<times> proc" where
  "pg_ack_start ak task st =
     (case t_lock_by task of
        None \<Rightarrow> (Inl (MissingField ''lock_by''), st)
      | Some worker_id \<Rightarrow>
          let lease = (if pa_leases ak then Some worker_id else None);
              st0 = lease_handle lease st;
              gd = map_option armed_guard lease
          in case start_claim (pa_lease_token ak) lease worker_id task st0 of
               (Inr task', st1) \<Rightarrow> (Inr task', st1)
             | (Inl refusal, st1) \<Rightarrow>
                 (Inl (sr_error refusal),
                  if sr_still_owed refusal then drop_lease_guard gd st1 else st1))"

section \<open>The lock middleware\<close>

record lock_service =
  ls_leases :: bool
  ls_lease_token :: "string option"

record pg_middleware =
  mw_lock :: lock_service
  mw_ack :: "pg_acknowledger option"

definition pg_middleware_new :: "bool \<Rightarrow> pg_middleware" where
  "pg_middleware_new auto_ack =
     \<lparr>mw_lock = \<lparr>ls_leases = False, ls_lease_token = None\<rparr>,
      mw_ack = (if auto_ack then Some pg_ack_new else None)\<rparr>"

definition pg_middleware_with_lease_token :: "bool \<Rightarrow> string \<Rightarrow> pg_middleware" where
  "pg_middleware_with_lease_token auto_ack token =
     \<lparr>mw_lock = \<lparr>ls_leases = False, ls_lease_token = Some token\<rparr>,
      mw_ack = (if auto_ack then Some (pg_ack_with_lease_token token) else None)\<rparr>"

definition pg_middleware_with_lease_registry :: "bool \<Rightarrow> string \<Rightarrow> pg_middleware" where
  "pg_middleware_with_lease_registry auto_ack token =
     \<lparr>mw_lock = \<lparr>ls_leases = True, ls_lease_token = Some token\<rparr>,
      mw_ack = (if auto_ack then Some (pg_ack_with_lease_registry token) else None)\<rparr>"

definition is_preclaimed :: "string option \<Rightarrow> string option \<Rightarrow> bool \<Rightarrow> bool" where
  "is_preclaimed lock_by worker_id has_lock_at \<longleftrightarrow>
     (case (lock_by, worker_id) of (Some stored, Some current) \<Rightarrow> stored = current | _ \<Rightarrow> False) \<and>
     has_lock_at"

definition preclaimed :: "'a task \<Rightarrow> bool" where
  "preclaimed task = is_preclaimed (t_lock_by task) (t_worker task) (t_lock_at task \<noteq> None)"

datatype 'e service_error = Abort error | HandlerError 'e

text \<open>\<^verbatim>\<open>call\<close> up to the returned future: the obligation that is held from then on.\<close>

definition call_obligation :: "lock_service \<Rightarrow> 'a task \<Rightarrow> proc \<Rightarrow> obligation" where
  "call_obligation svc task st =
     (let lease = (if ls_leases svc then t_worker task else None);
          acknowledged = (preclaimed task \<and> some_claim is_acknowledged (t_claim task) st)
      in \<lparr>ob_guard = (if preclaimed task \<and> \<not> acknowledged then map_option armed_guard lease else None),
          ob_claim = t_claim task\<rparr>)"

text \<open>Adopting a claim made by \<^verbatim>\<open>lock_task\<close>: its context, attempts and a new claim record.\<close>

definition adopt_claim :: "compact task \<Rightarrow> 'a task \<Rightarrow> proc \<Rightarrow> 'a task \<times> proc" where
  "adopt_claim claimed req st =
     (let n = pg_next_claim (p_pg st);
          req1 = record_claim n (req\<lparr>t_queue := t_queue claimed, t_lock_by := t_lock_by claimed,
             t_lock_at := t_lock_at claimed, t_max_attempts := t_max_attempts claimed,
             t_priority := t_priority claimed, t_meta := t_meta claimed,
             t_attempt := t_attempt claimed, t_status := Running\<rparr>);
          st1 = st\<lparr>p_pg := (p_pg st)\<lparr>pg_next_claim := Suc n\<rparr>\<rparr>
      in (req1, on_claim mark_started (t_claim req1) st1))"

definition admit ::
    "foreign \<Rightarrow> lock_service \<Rightarrow> 'a task \<Rightarrow> obligation \<Rightarrow> proc \<Rightarrow>
     (error, 'a task) result \<times> obligation \<times> proc" where
  "admit fx svc req ob st =
     (case t_worker req of
        None \<Rightarrow> (Inl (MissingField ''worker_context''), ob, st)
      | Some worker_id \<Rightarrow> (case t_task_id req of
          None \<Rightarrow> (Inl (MissingField ''task_id''), ob, st)
        | Some task_id \<Rightarrow>
            let lease = (if ls_leases svc then Some worker_id else None) in
            if preclaimed req \<and> some_claim is_acknowledged (t_claim req) st
            then (Inl (already_acknowledged task_id (or_default (t_queue req)) worker_id),
                  ob_disarm ob, st)
            else if preclaimed req
            then (case start_claim (ls_lease_token svc) lease worker_id req st of
                (Inl refusal, st1) \<Rightarrow>
                  (Inl (sr_error refusal), if sr_still_owed refusal then ob else ob_disarm ob, st1)
              | (Inr req1, st1) \<Rightarrow> (Inr req1, ob, st1))
            else (case lease_active lease st of
                Inl e \<Rightarrow> (Inl e, ob, st)
              | Inr _ \<Rightarrow>
                  let ob1 = ob\<lparr>ob_guard := map_option armed_guard lease\<rparr> in
                  (case on_pg (lock_task_with_token fx task_id worker_id (t_queue req)
                                (ls_lease_token svc)) st of
                     (Inl e, st1) \<Rightarrow>
                       (Inl e, (case e of ClaimOutcomeUnknown _ _ \<Rightarrow> ob1 | _ \<Rightarrow> ob_disarm ob1), st1)
                   | (Inr claimed, st1) \<Rightarrow>
                       (case adopt_claim claimed req st1 of
                          (req1, st2) \<Rightarrow> (Inr req1, ob1\<lparr>ob_claim := t_claim req1\<rparr>, st2))))))"

text \<open>
  The future of \<^verbatim>\<open>call\<close>: admit, run the handler, drop the obligation. A refusal counts as a
  dispatch on the attempt counter the caller shares, which is returned.
\<close>

definition dispatch ::
    "foreign \<Rightarrow> lock_service \<Rightarrow> ('a task \<Rightarrow> proc \<Rightarrow> ('e, 'r) result \<times> proc) \<Rightarrow> 'a task \<Rightarrow>
     obligation \<Rightarrow> proc \<Rightarrow> ('e service_error, 'r) result \<times> nat \<times> proc" where
  "dispatch fx svc inner req ob st =
     (case admit fx svc req ob st of
        (Inl e, ob1, st1) \<Rightarrow> (Inl (Abort e), Suc (t_attempt req), drop_obligation ob1 st1)
      | (Inr req1, ob1, st1) \<Rightarrow>
          (case inner req1 st1 of (r, st2) \<Rightarrow>
             (map_sum HandlerError id r, t_attempt req, drop_obligation (ob_disarm ob1) st2)))"

definition call ::
    "foreign \<Rightarrow> lock_service \<Rightarrow> ('a task \<Rightarrow> proc \<Rightarrow> ('e, 'r) result \<times> proc) \<Rightarrow> 'a task \<Rightarrow>
     proc \<Rightarrow> ('e service_error, 'r) result \<times> nat \<times> proc" where
  "call fx svc inner req st =
     (let st0 = lease_handle (if ls_leases svc then t_worker req else None) st
      in dispatch fx svc inner req (call_obligation svc req st0) st0)"

section \<open>Locking without a storage\<close>

definition lock_task_api :: "foreign \<Rightarrow> string \<Rightarrow> string \<Rightarrow> unit sql" where
  "lock_task_api fx task_id worker_id =
     sbind (lock_task fx task_id worker_id None) (\<lambda>_. sreturn ())"

definition lock_task_in_queue :: "foreign \<Rightarrow> string \<Rightarrow> string \<Rightarrow> string \<Rightarrow> unit sql" where
  "lock_task_in_queue fx task_id worker_id queue =
     sbind (lock_task fx task_id worker_id (Some queue)) (\<lambda>_. sreturn ())"

section \<open>The statement\<close>

text \<open>A transaction whose closure cannot succeed changes nothing and reports an error.\<close>

lemma conn_txn_unchanged:
  assumes "\<And>g1 x g2. later g g1 \<Longrightarrow> f g1 = (Inr x, g2) \<Longrightarrow> False"
  shows "pg_db (snd (with_conn (transaction f) g)) = pg_db g \<and>
         (\<exists>e. fst (with_conn (transaction f) g) = Inl e)"
proof -
  have t: "pg_db h' = pg_db g \<and> (\<exists>e. r = Inl e)"
    if "transaction f h = (r, h')" "later g h" for h r h'
    using that(1)
  proof (cases rule: transaction_cases)
    case (aborted e)
    then show ?thesis using laterD(1) [OF that(2)] by simp
  next
    case (committed g1 x g2 flt)
    then show ?thesis using assms [of g1 x g2] later_trans [OF that(2)] by blast
  qed
  have pool: "later g (g\<lparr>pg_pool := p\<rparr>)" for p by (simp add: later_def)
  have "pg_db (snd (transaction f h)) = pg_db g \<and> (\<exists>e. fst (transaction f h) = Inl e)"
    if "later g h" for h
    using t [of h "fst (transaction f h)" "snd (transaction f h)"] that by simp
  with pool show ?thesis
    by (auto simp: with_conn_def split: list.splits pool_step.splits)
qed

lemma ack_body_InrE:
  assumes ok: "db_ok (pg_db g)"
    and run: "sbind (if au_lease_token u \<noteq> None
            then lock_current_worker (au_worker_id u) (au_queue u) (au_lease_token u) else sreturn True)
     (\<lambda>current. if \<not> current then sthrow (ack_stale u)
      else sbind (stmt ''acknowledging task'' (\<lambda>g.
                    update_jobs (ack_match u) (acked_row u (pg_now g)) (pg_db g)))
      (\<lambda>count. if count = 0 then sthrow (ack_stale u) else sreturn ())) g = (Inr x, g')"
  obtains now j where "pg_now g \<le> now" "j \<in> set (jobs (pg_db g))" "ack_match u j"
    "au_lease_token u \<noteq> None \<Longrightarrow>
       \<exists>r. find_worker (au_worker_id u) (au_queue u) (pg_db g) = Some r \<and> w_lease_token r = au_lease_token u"
    "pg_db g' = (pg_db g)\<lparr>jobs := update_where (\<lambda>k. k = j) (acked_row u now) (jobs (pg_db g))\<rparr>"
proof -
  from run obtain gb where tok: "(if au_lease_token u \<noteq> None
        then lock_current_worker (au_worker_id u) (au_queue u) (au_lease_token u) else sreturn True) g = (Inr True, gb)"
    and rest: "sbind (stmt ''acknowledging task'' (\<lambda>g.
                    update_jobs (ack_match u) (acked_row u (pg_now g)) (pg_db g)))
      (\<lambda>count. if count = 0 then sthrow (ack_stale u) else sreturn ()) gb = (Inr x, g')"
    by (elim sbind_InrE) (auto split: if_splits)
  have gb: "later g gb" "au_lease_token u \<noteq> None \<Longrightarrow>
       \<exists>r. find_worker (au_worker_id u) (au_queue u) (pg_db g) = Some r \<and> w_lease_token r = au_lease_token u"
    using tok by (auto elim: lock_current_worker_InrE split: if_splits)
  from rest obtain n gc where st: "stmt ''acknowledging task'' (\<lambda>g.
                    update_jobs (ack_match u) (acked_row u (pg_now g)) (pg_db g)) gb = (Inr n, gc)"
    and n: "n \<noteq> 0" "gc = g'" by (elim sbind_InrE) (auto split: if_splits)
  from st obtain g1 d where g1: "later gb g1" "gc = g1\<lparr>pg_db := d\<rparr>"
    "update_jobs (ack_match u) (acked_row u (pg_now g1)) (pg_db g1) = (Inr n, d)" by (rule stmt_InrE)
  have l1: "later g g1" using gb(1) g1(1) by (rule later_trans)
  have db: "pg_db g1 = pg_db g" by (rule laterD(1) [OF l1])
  have cnt: "n = count_where (ack_match u) (jobs (pg_db g))"
    and d: "d = (pg_db g)\<lparr>jobs := update_where (ack_match u) (acked_row u (pg_now g1)) (jobs (pg_db g))\<rparr>"
    using update_jobs_Inr [OF g1(3)] unfolding db by blast+
  from n(1) cnt count_where_zero [of "ack_match u" "jobs (pg_db g)"]
  obtain j where j: "j \<in> set (jobs (pg_db g))" "ack_match u j" by auto
  have "ack_match u k \<longleftrightarrow> k = j" if "k \<in> set (jobs (pg_db g))" for k
    using that j ok distinct_key_unique [of j_id "jobs (pg_db g)" k j]
    by (auto simp: db_ok_def ack_match_def)
  then have "update_where (ack_match u) (acked_row u (pg_now g1)) (jobs (pg_db g)) =
      update_where (\<lambda>k. k = j) (acked_row u (pg_now g1)) (jobs (pg_db g))"
    by (rule update_where_cong)
  with d n(2) g1(2) show thesis
    by (intro that [OF laterD(5) [OF l1] j gb(2)]) auto
qed

lemma ack_task_InrE:
  assumes ok: "db_ok (pg_db g)" and run: "ack_task u g = (Inr x, g')"
  obtains now j where "pg_now g \<le> now" "j \<in> set (jobs (pg_db g))" "ack_match u j"
    "au_lease_token u \<noteq> None \<Longrightarrow>
       \<exists>r. find_worker (au_worker_id u) (au_queue u) (pg_db g) = Some r \<and> w_lease_token r = au_lease_token u"
    "pg_db g' = (pg_db g)\<lparr>jobs := update_where (\<lambda>k. k = j) (acked_row u now) (jobs (pg_db g))\<rparr>"
proof -
  from run obtain g1 g2 where g1: "later g g1" "pg_db g' = pg_db g2"
    and body: "sbind (if au_lease_token u \<noteq> None
            then lock_current_worker (au_worker_id u) (au_queue u) (au_lease_token u) else sreturn True)
     (\<lambda>current. if \<not> current then sthrow (ack_stale u)
      else sbind (stmt ''acknowledging task'' (\<lambda>g.
                    update_jobs (ack_match u) (acked_row u (pg_now g)) (pg_db g)))
      (\<lambda>count. if count = 0 then sthrow (ack_stale u) else sreturn ())) g1 = (Inr x, g2)"
    unfolding ack_task_def by (rule conn_txn_InrE)
  have db: "pg_db g1 = pg_db g" "pg_now g \<le> pg_now g1" using laterD(1,5) [OF g1(1)] by simp_all
  from ok [folded db(1)] body show thesis
  proof (rule ack_body_InrE)
    fix now j
    assume *: "pg_now g1 \<le> now" "j \<in> set (jobs (pg_db g1))" "ack_match u j"
      "au_lease_token u \<noteq> None \<Longrightarrow>
       \<exists>r. find_worker (au_worker_id u) (au_queue u) (pg_db g1) = Some r \<and> w_lease_token r = au_lease_token u"
      "pg_db g2 = (pg_db g1)\<lparr>jobs := update_where (\<lambda>k. k = j) (acked_row u now) (jobs (pg_db g1))\<rparr>"
    show thesis
      using *(2,4,5) order_trans [OF db(2) *(1)] unfolding db(1) g1(2) [symmetric]
      by (intro that [OF _ _ *(3)])
  qed
qed

text \<open>The fence of an acknowledgement, written out for the statement of the property.\<close>

abbreviation still_claimed :: "ack_update \<Rightarrow> job_row \<Rightarrow> bool" where
  "still_claimed u j \<equiv> j_id j = au_task_id u \<and> j_job_type j = au_queue u \<and>
     j_lock_by j = Some (au_worker_id u) \<and> j_lock_at j = Some (au_lock_at u * 1000000) \<and>
     j_attempts j = au_started_attempts u \<and> (j_status j = Queued \<or> j_status j = Running)"

abbreviation settled_as :: "ack_update \<Rightarrow> timestamp \<Rightarrow> job_row \<Rightarrow> job_row" where
  "settled_as u now j \<equiv> j\<lparr>j_status := au_status u, j_attempts := au_attempts u,
     j_last_result := au_result u, j_done_at := Some now\<rparr>"

lemma ack_match_iff: "ack_match u j \<longleftrightarrow> still_claimed u j"
  by (auto simp: ack_match_def to_timestamp_def is_active_def)

lemma acked_row_eq: "acked_row u now = settled_as u now"
  by (simp add: acked_row_def fun_eq_iff)

lemma ack_task_fenced_raw:
  assumes ok: "db_ok (pg_db g)" and run: "ack_task u g = (r, g')"
  shows "(r = Inr () \<longrightarrow> (\<exists>now \<ge> pg_now g. \<exists>j \<in> set (jobs (pg_db g)). ack_match u j \<and>
       (au_lease_token u \<noteq> None \<longrightarrow> (\<exists>w. find_worker (au_worker_id u) (au_queue u) (pg_db g) = Some w \<and>
          w_lease_token w = au_lease_token u)) \<and>
       pg_db g' = (pg_db g)\<lparr>jobs := update_where (\<lambda>k. k = j) (acked_row u now) (jobs (pg_db g))\<rparr>)) \<and>
    ((\<forall>j \<in> set (jobs (pg_db g)). \<not> ack_match u j) \<or>
     (au_lease_token u \<noteq> None \<and> \<not> (\<exists>w. find_worker (au_worker_id u) (au_queue u) (pg_db g) = Some w \<and>
          w_lease_token w = au_lease_token u)) \<longrightarrow>
       pg_db g' = pg_db g \<and> (\<exists>e. r = Inl e))"
proof (intro conjI impI)
  assume "r = Inr ()"
  with ok run show "\<exists>now \<ge> pg_now g. \<exists>j \<in> set (jobs (pg_db g)). ack_match u j \<and>
       (au_lease_token u \<noteq> None \<longrightarrow> (\<exists>w. find_worker (au_worker_id u) (au_queue u) (pg_db g) = Some w \<and>
          w_lease_token w = au_lease_token u)) \<and>
       pg_db g' = (pg_db g)\<lparr>jobs := update_where (\<lambda>k. k = j) (acked_row u now) (jobs (pg_db g))\<rparr>"
    by (metis ack_task_InrE)
next
  assume none: "(\<forall>j \<in> set (jobs (pg_db g)). \<not> ack_match u j) \<or>
     (au_lease_token u \<noteq> None \<and> \<not> (\<exists>w. find_worker (au_worker_id u) (au_queue u) (pg_db g) = Some w \<and>
          w_lease_token w = au_lease_token u))"
  have "pg_db (snd (ack_task u g)) = pg_db g \<and> (\<exists>e. fst (ack_task u g) = Inl e)"
    unfolding ack_task_def
  proof (rule conn_txn_unchanged)
    fix g1 x g2
    assume l: "later g g1" and body: "sbind (if au_lease_token u \<noteq> None
            then lock_current_worker (au_worker_id u) (au_queue u) (au_lease_token u) else sreturn True)
     (\<lambda>current. if \<not> current then sthrow (ack_stale u)
      else sbind (stmt ''acknowledging task'' (\<lambda>g.
                    update_jobs (ack_match u) (acked_row u (pg_now g)) (pg_db g)))
      (\<lambda>count. if count = 0 then sthrow (ack_stale u) else sreturn ())) g1 = (Inr x, g2)"
    have db: "pg_db g1 = pg_db g" by (rule laterD(1) [OF l])
    from ok [folded db] body show False
      by (rule ack_body_InrE) (use none db in auto)
  qed
  with run show "pg_db g' = pg_db g" "\<exists>e. r = Inl e" by simp_all
qed

text \<open>
  C6. A successful acknowledgement found the one active row that still holds the claim (same task,
  queue, owner, claim second and attempts) under a registration its token owns, and wrote the
  outcome to exactly that row. Without such a row or such a registration, after a recovery, a
  takeover, a release or an earlier acknowledgement, the call never succeeds and the tables stay
  unchanged, whatever the connection does.
\<close>

theorem ack_task_fenced:
  assumes ok: "db_ok (pg_db g)" and run: "ack_task u g = (r, g')"
  shows "(r = Inr () \<longrightarrow> (\<exists>now \<ge> pg_now g. \<exists>j \<in> set (jobs (pg_db g)). still_claimed u j \<and>
       (au_lease_token u \<noteq> None \<longrightarrow> (\<exists>w. find_worker (au_worker_id u) (au_queue u) (pg_db g) = Some w \<and>
          w_lease_token w = au_lease_token u)) \<and>
       pg_db g' = (pg_db g)\<lparr>jobs := update_where (\<lambda>k. k = j) (settled_as u now) (jobs (pg_db g))\<rparr>)) \<and>
    ((\<forall>j \<in> set (jobs (pg_db g)). \<not> still_claimed u j) \<or>
     (au_lease_token u \<noteq> None \<and> \<not> (\<exists>w. find_worker (au_worker_id u) (au_queue u) (pg_db g) = Some w \<and>
          w_lease_token w = au_lease_token u)) \<longrightarrow>
       pg_db g' = pg_db g \<and> (\<exists>e. r = Inl e))"
  using ack_task_fenced_raw [OF assms] unfolding ack_match_iff acked_row_eq .

section \<open>The lifecycle contract\<close>

definition ack_valid :: "ack_update \<Rightarrow> bool" where
  "ack_valid u \<longleftrightarrow> (au_status u = Failed \<or> is_terminal (au_status u)) \<and>
     au_attempts u = au_started_attempts u + 1"

lemma acked_row_evolves:
  assumes "ack_valid u" and "ack_match u j" and "job_checks j" and "job_checks (acked_row u now j)"
  shows "job_evolves j (acked_row u now j) \<and> job_shape (acked_row u now j)"
proof -
  have "is_active (j_status j)" using assms(2) by (simp add: ack_match_def)
  then have "(move (j_max_attempts j))\<^sup>*\<^sup>* (phase j) (phase (acked_row u now j))"
    by (rule hold_ends [OF _ assms(3) _ _ assms(4)])
       (use assms(1,2) in \<open>auto simp: acked_row_def ack_valid_def ack_match_def is_terminal_def\<close>)
  moreover
  have "\<not> is_terminal (j_status j)" using assms(2) by (cases "j_status j") (auto simp: ack_match_def)
  moreover have "\<not> is_active (au_status u) \<and> au_status u \<noteq> Pending"
    using assms(1) by (cases "au_status u") (auto simp: ack_valid_def)
  ultimately show ?thesis
    using assms
    by (auto simp: job_evolves_def same_task_def job_shape_def acked_row_def ack_valid_def ack_match_def)
qed

lemma ack_task_lifecycle:
  assumes "ack_valid u"
  shows "ensures lifecycle (ack_task u)"
  unfolding ack_task_def
proof (intro life.ensures_intros lock_current_worker_lifecycle life.ensures_stmt)
  fix g n d
  assume "update_jobs (ack_match u) (acked_row u (pg_now g)) (pg_db g) = (Inr n, d)"
  then show "lifecycle (pg_db g) d"
    by (rule update_jobs_lifecycle) (rule acked_row_evolves [OF assms])
qed

lemma calculate_status_valid: "\<not> is_terminal (calculate_status m n res) \<Longrightarrow> calculate_status m n res = Failed"
  by (auto simp: calculate_status_def split: sum.splits if_splits)

lemma ack_update_of_valid: "ack_update_of ser ak res task = Inr u \<Longrightarrow> ack_valid u"
  using calculate_status_valid
  by (auto simp: ack_update_of_def rbind_eq_Inr ok_or_eq_Inr ack_valid_def Let_def attempts_i32_def
      i32_try_from_Some in_i32_def i32_min_def)

lemma on_pg_db: "pg_db (p_pg (snd (on_pg f st))) = pg_db (snd (f (p_pg st)))"
  by (simp add: on_pg_def split: prod.splits)

lemma on_pg_lifecycle:
  "ensures lifecycle f \<Longrightarrow> on_pg f st = (r, st') \<Longrightarrow> lifecycle (pg_db (p_pg st)) (pg_db (p_pg st'))"
  by (metis ensuresD on_pg_db snd_conv)

lemma proc_frames [simp]:
  "p_pg (lease_handle n st) = p_pg st" "p_cells (lease_handle n st) = p_cells st"
  "p_pg (drop_lease_guard gd st) = p_pg st" "p_cells (drop_lease_guard gd st) = p_cells st"
  "p_pg (drop_obligation ob st) = p_pg st" "p_cells (drop_obligation ob st) = p_cells st"
  "p_pg (on_claim (set_cells f) c st) = p_pg st" "p_leases (on_claim (set_cells f) c st) = p_leases st"
  by (simp_all add: lease_handle_def drop_lease_guard_def drop_obligation_def on_claim_def set_cells_def
      split: option.splits prod.splits)

lemmas mark_defs = mark_acknowledged_def mark_started_def mark_start_attempted_def
lemmas cell_defs = is_acknowledged_def has_started_def start_refused_def some_claim_def

lemma some_claim_cells:
  "p_cells st' = p_cells st \<Longrightarrow> some_claim is_acknowledged c st' = some_claim is_acknowledged c st"
  "p_cells st' = p_cells st \<Longrightarrow> some_claim start_refused c st' = some_claim start_refused c st"
  by (simp_all add: cell_defs split: option.splits)

lemma ack_run_db: "ack_run ser ak res task ob st = (r, ob', st') \<Longrightarrow>
   lifecycle (pg_db (p_pg st)) (pg_db (p_pg st'))"
  unfolding ack_run_def
  by (auto simp: mark_defs life.refl split: if_splits sum.splits prod.splits
      dest!: ack_update_of_valid dest: on_pg_lifecycle [OF ack_task_lifecycle])

lemma ack_lifecycle: "lifecycle (pg_db (p_pg st)) (pg_db (p_pg (snd (ack ser ak res task st))))"
  using ack_run_db [of ser ak res task "ack_obligation ak task"
      "if pa_leases ak then lease_handle (t_lock_by task) st else st"]
  by (auto simp: ack_def split: prod.splits)

lemma start_claim_db:
  "start_claim tok lease w task st = (r, st') \<Longrightarrow> lifecycle (pg_db (p_pg st)) (pg_db (p_pg st'))"
  unfolding start_claim_def Let_def
  by (auto simp: mark_defs life.refl split: if_splits sum.splits prod.splits
      dest!: on_pg_lifecycle [OF start_task_lifecycle])

section \<open>One acknowledgement per claim\<close>

lemma set_cells_simps [simp]:
  "p_cells (set_cells f c st) k = (if k = cl_cells c then f (p_cells st k) else p_cells st k)"
  "p_pg (set_cells f c st) = p_pg st" "p_leases (set_cells f c st) = p_leases st"
  by (simp_all add: set_cells_def)

lemma on_pg_cells: "on_pg f st = (r, st') \<Longrightarrow> p_cells st' = p_cells st \<and> p_leases st' = p_leases st"
  by (auto simp: on_pg_def split: prod.splits)

lemma ack_repeat_error: "\<exists>e. ack_repeat task = Inl e"
  by (auto simp: ack_repeat_def ok_or_def split: option.splits)

lemma ack_acknowledged:
  assumes "t_claim task = Some c" and "is_acknowledged c st" and "\<not> start_refused c st"
  shows "fst (ack ser ak res task st) = ack_repeat task \<and> p_pg (snd (ack ser ak res task st)) = p_pg st \<and>
    p_cells (snd (ack ser ak res task st)) = p_cells st"
  using assms by (auto simp: ack_def ack_run_def cell_defs Let_def)

lemma ack_InrE:
  assumes run: "ack ser ak res task st = (Inr (), st')" and c: "t_claim task = Some c"
    and fresh: "\<not> start_refused c st"
  obtains u g where "ack_update_of ser ak res task = Inr u" "ack_task u (p_pg st) = (Inr (), g)"
    "p_pg st' = g" "p_cells st' = (p_cells st)(cl_cells c := (p_cells st (cl_cells c))\<lparr>ac_done := True\<rparr>)"
    "\<not> is_acknowledged c st"
proof -
  define st0 where "st0 = (if pa_leases ak then lease_handle (t_lock_by task) st else st)"
  have st0: "p_pg st0 = p_pg st" "p_cells st0 = p_cells st" by (simp_all add: st0_def)
  obtain ob st1 where ar: "ack_run ser ak res task (ack_obligation ak task) st0 = (Inr (), ob, st1)"
    and st': "st' = drop_obligation ob st1"
    using run by (auto simp: ack_def Let_def st0_def split: prod.splits)
  have nr: "\<not> some_claim start_refused (t_claim task) st0"
    using fresh c st0(2) by (simp add: cell_defs)
  have na: "\<not> some_claim is_acknowledged (t_claim task) st0"
    using ar nr ack_repeat_error [of task] by (auto simp: ack_run_def)
  obtain u st2 where u: "ack_update_of ser ak res task = Inr u" "on_pg (ack_task u) st0 = (Inr (), st2)"
    "st1 = on_claim mark_acknowledged (t_claim task) st2"
    using ar nr na by (auto simp: ack_run_def split: sum.splits prod.splits)
  show thesis
  proof (rule that [OF u(1)])
    show "ack_task u (p_pg st) = (Inr (), p_pg st2)"
      using u(2) st0(1) by (auto simp: on_pg_def split: prod.splits)
    show "p_pg st' = p_pg st2" using u(3) st' c by (simp add: on_claim_def mark_defs)
    show "p_cells st' = (p_cells st)(cl_cells c := (p_cells st (cl_cells c))\<lparr>ac_done := True\<rparr>)"
      using u(2,3) st' c st0(2) on_pg_cells [OF u(2)]
      by (simp add: on_claim_def mark_defs fun_eq_iff)
    show "\<not> is_acknowledged c st" using na c st0(2) by (simp add: cell_defs)
  qed
qed

text \<open>
  C9. A claim is acknowledged at most once: after an acknowledgement that committed, every further
  acknowledgement through any clone of the task is refused without touching the tables, a start
  of the claim is refused as already acknowledged, and a re-dispatch aborts without running its
  handler.
\<close>

theorem acknowledged_once:
  assumes run: "ack ser ak res task st = (Inr (), st')" and c: "t_claim task = Some c"
    and fresh: "\<not> start_refused c st" and clone: "t_claim task2 = Some c2" "cl_cells c2 = cl_cells c"
  shows "(\<exists>e. fst (ack ser2 ak2 res2 task2 st') = Inl e) \<and>
    p_pg (snd (ack ser2 ak2 res2 task2 st')) = p_pg st' \<and>
    (\<exists>e. start_claim tok lease w task2 st' = (Inl \<lparr>sr_error = e, sr_still_owed = False\<rparr>, st')) \<and>
    (preclaimed task2 \<longrightarrow> (\<exists>e. fst (call fx svc inner task2 st') = Inl (Abort e) \<and>
        p_pg (snd (snd (call fx svc inner task2 st'))) = p_pg st' \<and>
        call fx svc inner task2 st' = call fx svc inner2 task2 st'))"
proof -
  from run c fresh have cells: "p_cells st' = (p_cells st)(cl_cells c := (p_cells st (cl_cells c))\<lparr>ac_done := True\<rparr>)"
    by (rule ack_InrE)
  have acked: "is_acknowledged c2 st'" and nr: "\<not> start_refused c2 st'"
    using cells fresh clone by (auto simp: cell_defs)
  note ack2 = ack_acknowledged [OF clone(1) acked nr, of ser2 ak2 res2]
  have sc: "some_claim is_acknowledged (t_claim task2) (lease_handle n st')" for n
    using acked clone by (simp add: cell_defs)
  have "\<exists>e. fst (call fx svc inner task2 st') = Inl (Abort e) \<and>
        p_pg (snd (snd (call fx svc inner task2 st'))) = p_pg st' \<and>
        call fx svc inner task2 st' = call fx svc inner2 task2 st'" if pre: "preclaimed task2"
    using pre sc by (auto simp: call_def dispatch_def admit_def Let_def split: option.splits)
  moreover have "\<exists>e. start_claim tok lease w task2 st' = (Inl \<lparr>sr_error = e, sr_still_owed = False\<rparr>, st')"
    using acked clone by (simp add: start_claim_def cell_defs)
  ultimately show ?thesis using ack2 ack_repeat_error [of task2] by auto
qed

section \<open>What an acknowledgement records\<close>

lemma task_of_claim:
  assumes "task_of fx j task" and "conv_faithful (fx_conv fx)" and checks: "job_checks j"
  shows "t_task_id task = Some (j_id j)" and "t_max_attempts task = j_max_attempts j"
    and "\<exists>c. t_claim task = Some c \<and> cl_completed c = nat (j_attempts j)"
proof -
  from assms(1) obtain t cells where t: "fx_conv fx (task_row_of j) = Inr t" "task = record_claim cells t"
    by (auto simp: task_of_def task_row_def split: sum.splits)
  have f: "t_task_id t = Some (r_id (task_row_of j))" "t_attempt t = r_attempts (task_row_of j)"
    "\<forall>m. r_max_attempts (task_row_of j) = Some m \<longrightarrow> t_max_attempts t = int m"
    using assms(2) t(1) unfolding conv_faithful_def by blast+
  have m: "0 < j_max_attempts j" "0 \<le> j_attempts j" using checks by (auto simp: job_checks_def)
  from f(3) m(1) have mx: "t_max_attempts t = j_max_attempts j" by (auto simp: task_row_of_def)
  show "t_task_id task = Some (j_id j)" using f(1) t(2) by (simp add: record_claim_def task_row_of_def)
  show "t_max_attempts task = j_max_attempts j" using mx t(2) by (simp add: record_claim_def)
  show "\<exists>c. t_claim task = Some c \<and> cl_completed c = nat (j_attempts j)"
    using f(2) m(2) t(2) by (simp add: record_claim_def task_row_of_def)
qed

text \<open>
  C11. Acknowledging a claimed task charges exactly one attempt, whatever the task's mutable counter
  says: the claimed row, whose attempts the claim recorded, gets one more attempt, the encoded
  result and a completion time, and ends \<open>Done\<close> on success, \<open>Failed\<close> while the retry budget
  allows another attempt and \<open>Killed\<close> otherwise. No other column and no other row changes.
\<close>

theorem ack_charges_one_attempt:
  assumes ok: "db_ok (pg_db (p_pg st))" and conv: "conv_faithful (fx_conv fx)"
    and j: "j \<in> set (jobs (pg_db (p_pg st)))" and task: "task_of fx j claimed"
    and req: "t_claim req = t_claim claimed" "t_task_id req = t_task_id claimed"
      "t_max_attempts req = t_max_attempts claimed"
    and run: "ack ser ak res req st = (Inr (), st')"
    and fresh: "\<not> some_claim start_refused (t_claim req) st"
  shows "\<exists>now \<ge> pg_now (p_pg st). \<exists>result. build_ack_response ser res = Inr result \<and>
    pg_db (p_pg st') = (pg_db (p_pg st))\<lparr>jobs := update_where (\<lambda>k. k = j)
      (\<lambda>k. k\<lparr>j_status := (case res of Inr _ \<Rightarrow> Done
                 | Inl _ \<Rightarrow> if j_attempts j + 1 < j_max_attempts j then Failed else Killed),
            j_attempts := j_attempts j + 1, j_last_result := result, j_done_at := Some now\<rparr>)
      (jobs (pg_db (p_pg st)))\<rparr>"
proof -
  have checks: "job_checks j" using ok j by (simp add: db_ok_def)
  note tc = task_of_claim [OF task conv checks]
  from tc(3) obtain c where c: "t_claim claimed = Some c" "cl_completed c = nat (j_attempts j)" by blast
  have rc: "t_claim req = Some c" using req(1) c(1) by simp
  from fresh rc have nf: "\<not> start_refused c st" by (simp add: some_claim_def)
  from run rc nf obtain u g where u: "ack_update_of ser ak res req = Inr u"
    and at: "ack_task u (p_pg st) = (Inr (), g)" "p_pg st' = g" by (rule ack_InrE)
  from u rc obtain raw result where raw: "acknowledgement_attempt req = Inr raw" "in_i32 (int raw)"
    and res: "build_ack_response ser res = Inr result"
    and uf: "au_task_id u = j_id j" "au_attempts u = int raw" "au_result u = result"
      "au_status u = calculate_status (t_max_attempts req) raw res"
    using req(2) tc(1)
    by (auto simp: ack_update_of_def rbind_eq_Inr ok_or_eq_Inr Let_def attempts_i32_def
        i32_try_from_Some map_sum_def split: sum.splits)
  have r1: "raw = nat (j_attempts j) + 1"
    using raw(1) rc c(2)
    by (auto simp: acknowledgement_attempt_def rbind_eq_Inr ok_or_eq_Inr usize_checked_add_Some split: if_splits)
  have pos: "0 \<le> j_attempts j" "0 < j_max_attempts j" using checks by (auto simp: job_checks_def)
  have st: "au_status u = (case res of Inr _ \<Rightarrow> Done
                 | Inl _ \<Rightarrow> if j_attempts j + 1 < j_max_attempts j then Failed else Killed)"
    using uf(4) req(3) tc(2) r1 pos by (auto simp: calculate_status_def split: sum.splits)
  from ok at(1) obtain now k where k: "pg_now (p_pg st) \<le> now" "k \<in> set (jobs (pg_db (p_pg st)))" "ack_match u k"
    and eq: "pg_db g = (pg_db (p_pg st))\<lparr>jobs := update_where (\<lambda>x. x = k) (acked_row u now) (jobs (pg_db (p_pg st)))\<rparr>"
    by (rule ack_task_InrE)
  have kj: "k = j"
    using k(2,3) j ok uf(1) distinct_key_unique [of j_id "jobs (pg_db (p_pg st))" k j]
    by (simp add: db_ok_def ack_match_def)
  have row: "acked_row u now = (\<lambda>k. k\<lparr>j_status := (case res of Inr _ \<Rightarrow> Done
                 | Inl _ \<Rightarrow> if j_attempts j + 1 < j_max_attempts j then Failed else Killed),
            j_attempts := j_attempts j + 1, j_last_result := result, j_done_at := Some now\<rparr>)"
    unfolding acked_row_def fun_eq_iff using st uf(2,3) r1 pos(1) by simp
  from eq kj at(2) row have "pg_db (p_pg st') = (pg_db (p_pg st))\<lparr>jobs := update_where (\<lambda>k. k = j)
      (\<lambda>k. k\<lparr>j_status := (case res of Inr _ \<Rightarrow> Done
                 | Inl _ \<Rightarrow> if j_attempts j + 1 < j_max_attempts j then Failed else Killed),
            j_attempts := j_attempts j + 1, j_last_result := result, j_done_at := Some now\<rparr>)
      (jobs (pg_db (p_pg st)))\<rparr>" by simp
  with k(1) res show ?thesis by blast
qed

section \<open>Obligations\<close>

lemma retired_lease_handle [simp]: "name_retired (p_leases (lease_handle n st)) m = name_retired (p_leases st) m"
  by (simp add: lease_handle_def for_worker_keeps_retired split: option.splits)

lemma retired_drop_guard:
  "name_retired (p_leases (drop_lease_guard gd st)) m \<longleftrightarrow>
   name_retired (p_leases st) m \<or> (\<exists>a. gd = Some (m, a) \<and> gd_armed a)"
  by (auto simp: drop_lease_guard_def names.retired_retire split: option.splits prod.splits)

lemma retired_drop_obligation:
  "name_retired (p_leases (drop_obligation ob st)) m \<longleftrightarrow>
   name_retired (p_leases st) m \<or>
   (\<not> some_claim is_acknowledged (ob_claim ob) st \<and> (\<exists>a. ob_guard ob = Some (m, a) \<and> gd_armed a))"
  by (auto simp: drop_obligation_def retired_drop_guard ob_disarm_def disarm_def)

lemma ob_disarm_guard: "ob_guard (ob_disarm ob) = Some (m, a) \<Longrightarrow> \<not> gd_armed a"
  by (auto simp: ob_disarm_def disarm_def)

lemma ack_obligation_armed:
  "(\<exists>a. ob_guard (ack_obligation ak task) = Some (m, a) \<and> gd_armed a) \<longleftrightarrow> pa_leases ak \<and> t_lock_by task = Some m"
  "ob_claim (ack_obligation ak task) = t_claim task"
  by (auto simp: ack_obligation_def armed_guard_def)

lemma failed_ack_retires:
  assumes run: "ack ser ak res task st = (r, st')"
  shows "name_retired (p_leases st') m \<longleftrightarrow> name_retired (p_leases st) m \<or>
      (pa_leases ak \<and> t_lock_by task = Some m \<and> (\<exists>e. r = Inl e) \<and>
       \<not> some_claim start_refused (t_claim task) st \<and> \<not> some_claim is_acknowledged (t_claim task) st)"
proof -
  define st0 where "st0 = (if pa_leases ak then lease_handle (t_lock_by task) st else st)"
  have st0: "p_cells st0 = p_cells st" "name_retired (p_leases st0) m = name_retired (p_leases st) m"
    by (simp_all add: st0_def)
  obtain ob st1 where ar: "ack_run ser ak res task (ack_obligation ak task) st0 = (r, ob, st1)"
    and st': "st' = drop_obligation ob st1"
    using run by (auto simp: ack_def Let_def st0_def split: prod.splits)
  have cl: "some_claim start_refused (t_claim task) st0 = some_claim start_refused (t_claim task) st"
    "some_claim is_acknowledged (t_claim task) st0 = some_claim is_acknowledged (t_claim task) st"
    by (rule some_claim_cells(2) [OF st0(1)], rule some_claim_cells(1) [OF st0(1)])
  show ?thesis
  proof (cases "some_claim start_refused (t_claim task) st \<or> some_claim is_acknowledged (t_claim task) st")
    case True
    then have "ob = ob_disarm (ack_obligation ak task) \<and> st1 = st0"
      using ar unfolding ack_run_def cl by (metis prod.inject)
    then show ?thesis using True st0(2) st' by (auto simp: retired_drop_obligation dest: ob_disarm_guard)
  next
    case False
    have keep: "name_retired (p_leases st2) m = name_retired (p_leases st) m \<and>
        some_claim is_acknowledged (t_claim task) st2 = some_claim is_acknowledged (t_claim task) st"
      if "on_pg (ack_task v) st0 = (x, st2)" for v x st2
    proof -
      have "p_cells st2 = p_cells st" "p_leases st2 = p_leases st0"
        using on_pg_cells [OF that] st0(1) by simp_all
      then show ?thesis using st0(2) some_claim_cells(1) [of st2 st "t_claim task"] by simp
    qed
    have "(\<exists>e. r = Inl e) \<and> ob = ack_obligation ak task \<and>
          name_retired (p_leases st1) m = name_retired (p_leases st) m \<and>
          \<not> some_claim is_acknowledged (t_claim task) st1 \<or>
        r = Inr () \<and> ob = ob_disarm (ack_obligation ak task) \<and>
          name_retired (p_leases st1) m = name_retired (p_leases st) m"
      using ar False cl keep st0
      by (auto simp: ack_run_def mark_defs split: sum.splits prod.splits)
    then show ?thesis using False ack_obligation_armed(1) [of ak task m] ack_obligation_armed(2) [of ak task] st'
      by (auto simp: retired_drop_obligation dest: ob_disarm_guard)
  qed
qed

lemma dropped_ack_retires:
  assumes a: "pa_leases ak" "t_lock_by task = Some m" "\<not> some_claim is_acknowledged (t_claim task) st"
  shows "name_retired (p_leases (ack_dropped ak task u ran_anyway st)) m"
proof -
  define st0 where "st0 = (if pa_leases ak then lease_handle (t_lock_by task) st else st)"
  define st2 where "st2 = (if ran_anyway then snd (on_pg (ack_task u) st0) else st0)"
  have "p_cells st2 = p_cells st" by (simp add: st0_def st2_def on_pg_def split: prod.splits)
  then have "\<not> some_claim is_acknowledged (t_claim task) st2"
    using a some_claim_cells(1) [of st2 st "t_claim task"] by simp
  moreover have "ack_dropped ak task u ran_anyway st = drop_obligation (ack_obligation ak task) st2"
    by (simp add: ack_dropped_def Let_def st0_def st2_def)
  ultimately show ?thesis using a ack_obligation_armed(1) [of ak task m] ack_obligation_armed(2) [of ak task] by (simp add: retired_drop_obligation)
qed

text \<open>
  C35. An acknowledgement of a storage-registered worker that fails, and one whose future is dropped
  while its statement runs, retires exactly that worker's name, so that its heartbeat stops and
  recovery can hand the claim back. One that succeeds, one of a claim whose start was refused and
  one of an acknowledged claim retire nobody.
\<close>

theorem lost_acknowledgement_retires:
  assumes run: "ack ser ak res task st = (r, st')"
  shows "(name_retired (p_leases st') m \<longleftrightarrow> name_retired (p_leases st) m \<or>
      (pa_leases ak \<and> t_lock_by task = Some m \<and> (\<exists>e. r = Inl e) \<and>
       \<not> some_claim start_refused (t_claim task) st \<and> \<not> some_claim is_acknowledged (t_claim task) st)) \<and>
    (pa_leases ak \<and> t_lock_by task = Some m \<and> \<not> some_claim is_acknowledged (t_claim task) st \<longrightarrow>
       name_retired (p_leases (ack_dropped ak task u ran_anyway st)) m)"
  using failed_ack_retires [OF run, of m] dropped_ack_retires [of ak task m st u ran_anyway] by blast

section \<open>Lost claims\<close>

text \<open>Tables with a property that makes every statement of an operation a no-op.\<close>

lemma frozen_relation: "db_relation (\<lambda>d d'. Q d \<longrightarrow> d' = d)"
  by unfold_locales auto

lemma start_task_none:
  assumes "\<forall>j \<in> set (jobs (pg_db g)). \<not> startable c j"
  shows "pg_db (snd (start_task c g)) = pg_db g" and "db_ok (pg_db g) \<Longrightarrow> fst (start_task c g) \<noteq> Inr True"
proof -
  let ?Q = "\<lambda>d. \<forall>j \<in> set (jobs d). \<not> startable c j"
  have "ensures (\<lambda>d d'. ?Q d \<longrightarrow> d' = d) (start_task c)"
    unfolding start_task_def
  proof (intro db_relation.ensures_with_conn [OF frozen_relation] db_relation.ensures_sbind [OF frozen_relation]
      db_relation.ensures_stmt [OF frozen_relation] db_relation.ensures_sreturn [OF frozen_relation] impI)
    fix g n d
    assume u: "update_jobs (\<lambda>j. list_ex (start_owner c) (workers (pg_db g)) \<and> startable c j)
         (\<lambda>j. j\<lparr>j_status := Running\<rparr>) (pg_db g) = (Inr n, d)" and none: "?Q (pg_db g)"
    have "update_where (\<lambda>j. list_ex (start_owner c) (workers (pg_db g)) \<and> startable c j)
         (\<lambda>j. j\<lparr>j_status := Running\<rparr>) (jobs (pg_db g)) = jobs (pg_db g)"
      using none by (simp add: update_where_none)
    with update_jobs_Inr [OF u] show "d = pg_db g" by simp
  qed
  from ensuresD [OF this, of g] assms show "pg_db (snd (start_task c g)) = pg_db g" by blast
  assume ok: "db_ok (pg_db g)"
  show "fst (start_task c g) \<noteq> Inr True"
  proof
    assume "fst (start_task c g) = Inr True"
    then have "start_task c g = (Inr True, snd (start_task c g))" by (rule run_fst)
    with start_task_InrE(1) [OF ok this] assms show False by (auto simp: list_ex_iff)
  qed
qed

lemma start_claim_lost:
  assumes ok: "db_ok (pg_db (p_pg st))" and c: "t_claim req = Some c" "\<not> is_acknowledged c st"
    and lost: "\<forall>j \<in> set (jobs (pg_db (p_pg st))). \<not> (Some (j_id j) = t_task_id req \<and> j_lock_by j = Some w \<and>
       j_lock_at j = map_option to_timestamp (cl_lock_at c) \<and> j_attempts j = int (cl_completed c) \<and>
       is_active (j_status j))"
  obtains refusal st' where "start_claim tok lease w req st = (Inl refusal, st')"
    "pg_db (p_pg st') = pg_db (p_pg st)" "p_cells st' = p_cells (mark_start_attempted c st)"
proof -
  define st1 where "st1 = mark_start_attempted c st"
  have st1: "p_pg st1 = p_pg st" by (simp add: st1_def mark_defs)
  have na: "\<not> some_claim is_acknowledged (t_claim req) st" using c by (simp add: some_claim_def)
  show thesis
  proof (cases "\<exists>u. lease_active lease st1 = Inr u")
    case False
    then obtain e where "lease_active lease st1 = Inl e" by (cases "lease_active lease st1") auto
    then show thesis using na c st1
      by (intro that) (auto simp: start_claim_def st1_def on_claim_def Let_def)
  next
    case act: True
    show thesis
    proof (cases "start_claim_of tok w req st")
      case (Inl e)
      then show thesis using na c st1 act
        by (intro that) (auto simp: start_claim_def st1_def on_claim_def Let_def)
    next
      case (Inr k)
      then have k: "Some (sc_task_id k) = t_task_id req" "sc_worker_id k = w"
        "cl_lock_at c = Some (sc_lock_at k)" "sc_attempts k = Some (int (cl_completed c))"
        using c(1) by (auto simp: start_claim_of_def claim_epoch_def start_attempts_def rbind_eq_Inr ok_or_eq_Inr
            i32_try_from_Some)
      then have none: "\<forall>j \<in> set (jobs (pg_db (p_pg st1))). \<not> startable k j"
        using lost st1 by (fastforce simp: startable_def)
      obtain r g where run: "start_task k (p_pg st1) = (r, g)" by fastforce
      have g: "pg_db g = pg_db (p_pg st)" "r \<noteq> Inr True"
        using start_task_none [OF none] run ok st1 by simp_all
      have pgrun: "on_pg (start_task k) st1 = (r, st1\<lparr>p_pg := g\<rparr>)" using run by (simp add: on_pg_def)
      show thesis
        using na c act Inr pgrun g
        by (intro that [of "case r of Inl e \<Rightarrow> \<lparr>sr_error = e, sr_still_owed = True\<rparr>
              | Inr _ \<Rightarrow> \<lparr>sr_error = claim_lost (sc_task_id k) (sc_queue k) w, sr_still_owed = False\<rparr>"
              "st1\<lparr>p_pg := g\<rparr>"])
           (auto simp: start_claim_def st1_def [symmetric] on_claim_def Let_def split: sum.splits)
    qed
  qed
qed

text \<open>
  C10. A claim that was lost before it started never runs: when no row holds the recorded epoch any
  more, the middleware aborts the dispatch without running its handler and without changing the
  tables, and an acknowledgement of that refused dispatch, by an acknowledger outside the
  middleware, succeeds without writing anything.
\<close>

theorem lost_claim_never_runs:
  assumes ok: "db_ok (pg_db (p_pg st))" and pre: "preclaimed req"
    and c: "t_claim req = Some c" "\<not> is_acknowledged c st" and wt: "t_worker req = Some w" "t_task_id req = Some i"
    and lost: "\<forall>j \<in> set (jobs (pg_db (p_pg st))). \<not> (j_id j = i \<and> j_lock_by j = Some w \<and>
       j_lock_at j = map_option to_timestamp (cl_lock_at c) \<and> j_attempts j = int (cl_completed c) \<and>
       is_active (j_status j))"
  shows "\<exists>e n st'. call fx svc inner req st = (Inl (Abort e), n, st') \<and>
    call fx svc inner2 req st = (Inl (Abort e), n, st') \<and>
    pg_db (p_pg st') = pg_db (p_pg st) \<and>
    (\<not> has_started c st \<longrightarrow> fst (ack ser ak res req st') = Inr () \<and>
       p_pg (snd (ack ser ak res req st')) = p_pg st')"
proof -
  define st0 where "st0 = lease_handle (if ls_leases svc then t_worker req else None) st"
  have st0: "p_pg st0 = p_pg st" "p_cells st0 = p_cells st" by (simp_all add: st0_def)
  have c0: "\<not> is_acknowledged c st0" using c(2) st0(2) by (simp add: is_acknowledged_def)
  obtain refusal st1 where sc: "start_claim (ls_lease_token svc) (if ls_leases svc then Some w else None) w req st0
      = (Inl refusal, st1)" and db: "pg_db (p_pg st1) = pg_db (p_pg st)"
    and cells: "p_cells st1 = p_cells (mark_start_attempted c st0)"
    using start_claim_lost [OF _ c(1) c0, of w "ls_lease_token svc"] ok lost wt(2) st0 by (metis option.inject)
  define ob where "ob = (if sr_still_owed refusal then call_obligation svc req st0
       else ob_disarm (call_obligation svc req st0))"
  define st' where "st' = drop_obligation ob st1"
  have run: "call fx svc inner req st = (Inl (Abort (sr_error refusal)), Suc (t_attempt req), st')"
    "call fx svc inner2 req st = (Inl (Abort (sr_error refusal)), Suc (t_attempt req), st')"
    using wt pre c c0 sc unfolding st'_def ob_def
    by (auto simp: call_def dispatch_def admit_def st0_def [symmetric] some_claim_def Let_def)
  have "fst (ack ser ak res req st') = Inr () \<and> p_pg (snd (ack ser ak res req st')) = p_pg st'"
    if "\<not> has_started c st"
  proof -
    have "start_refused c st'" using that st0(2) cells by (simp add: st'_def cell_defs mark_defs)
    then show ?thesis using c(1) by (auto simp: ack_def ack_run_def cell_defs Let_def)
  qed
  moreover have "pg_db (p_pg st') = pg_db (p_pg st)" using db by (simp add: st'_def)
  ultimately show ?thesis
    using run by (intro exI [of _ "sr_error refusal"] exI [of _ "Suc (t_attempt req)"] exI [of _ st'] conjI) simp_all
qed
end
