(* ===== verification/Middleware.thy ===== *)
theory Middleware
  imports Ack
begin

text \<open>
  The middleware of the backend (\<^verbatim>\<open>PgMiddleware\<close> of \<^verbatim>\<open>src/ack.rs\<close>): the lock
  service around the acknowledging service of \<^verbatim>\<open>apalis-core\<close>, or around the handler alone when
  acknowledgement is manual. The acknowledging layer is a parameter; its documented behaviour, to run the
  inner service, acknowledge its outcome with the parts of the task and hand the outcome on, is the
  hypothesis \<open>acknowledges\<close>. The composition shows what the components give together: a claimed task
  is run once and settled.
\<close>

section \<open>Layers\<close>

definition lock_task_layer_new :: lock_service where
  "lock_task_layer_new = \<lparr>ls_leases = False, ls_lease_token = None\<rparr>"

type_synonym ('a, 'e, 'r) service = "'a task \<Rightarrow> proc \<Rightarrow> ('e, 'r) result \<times> proc"

datatype ('a, 'e, 'r) pg_middleware_service =
    AutoAck lock_service "('a, 'e, 'r) service"
  | ManualAck lock_service "('a, 'e, 'r) service"

definition auto_ack :: "pg_middleware \<Rightarrow> bool" where
  "auto_ack mw \<longleftrightarrow> mw_ack mw \<noteq> None"

text \<open>\<^verbatim>\<open>PgMiddleware::layer\<close>: the claim is acquired before the parts are snapshot for the acknowledgement.\<close>

definition layer ::
    "(pg_acknowledger \<Rightarrow> ('a, 'e, 'r) service \<Rightarrow> ('a, 'e, 'r) service) \<Rightarrow> pg_middleware \<Rightarrow> ('a, 'e, 'r) service \<Rightarrow>
     ('a, 'e, 'r) pg_middleware_service" where
  "layer acknowledge mw inner = (case mw_ack mw of
     Some ak \<Rightarrow> AutoAck (mw_lock mw) (acknowledge ak inner)
   | None \<Rightarrow> ManualAck (mw_lock mw) inner)"

definition middleware_call ::
    "foreign \<Rightarrow> ('a, 'e, 'r) pg_middleware_service \<Rightarrow> 'a task \<Rightarrow> proc \<Rightarrow>
     ('e service_error, 'r) result \<times> nat \<times> proc" where
  "middleware_call fx service req st = (case service of
     AutoAck lock inner \<Rightarrow> call fx lock inner req st
   | ManualAck lock inner \<Rightarrow> call fx lock inner req st)"

text \<open>
  The documented behaviour of the acknowledging layer: \<open>txt\<close> is the text of a handler's error and
  \<open>wrap\<close> the error a failed acknowledgement is reported as.
\<close>

definition acknowledges ::
    "((string, 'r) result \<Rightarrow> (string, json) result) \<Rightarrow> ('e \<Rightarrow> string) \<Rightarrow> (error \<Rightarrow> 'e) \<Rightarrow>
     (pg_acknowledger \<Rightarrow> ('a, 'e, 'r) service \<Rightarrow> ('a, 'e, 'r) service) \<Rightarrow> bool" where
  "acknowledges ser txt wrap acknowledge \<longleftrightarrow> (\<forall>ak inner req st. acknowledge ak inner req st =
     (case inner req st of (r, st1) \<Rightarrow> (case ack ser ak (map_sum txt id r) req st1 of
        (Inl e, st2) \<Rightarrow> (Inl (wrap e), st2)
      | (Inr _, st2) \<Rightarrow> (r, st2))))"

section \<open>Statements that succeed\<close>

lemma update_one_row:
  assumes ok: "db_ok d" and j: "j \<in> set (jobs d)" and only: "\<And>k. P k \<Longrightarrow> j_id k = j_id j" and "P j"
    and checks: "job_checks (f j)" "job_fk (workers d) (f j)"
  shows "update_jobs P f d = (Inr 1, d\<lparr>jobs := update_where (\<lambda>k. k = j) f (jobs d)\<rparr>)"
proof -
  have iff: "P k \<longleftrightarrow> k = j" if "k \<in> set (jobs d)" for k
  proof
    assume "P k"
    then have "j_id k = j_id j" by (rule only)
    with that j ok show "k = j" using distinct_key_unique [of j_id "jobs d" k j] by (simp add: db_ok_def)
  qed (simp add: \<open>P j\<close>)
  have "count_where P (jobs d) \<le> 1"
    using ok by (intro count_where_key_le_1 [where k = j_id and x = "j_id j"]) (auto simp: db_ok_def only)
  moreover have "count_where P (jobs d) \<noteq> 0" using j \<open>P j\<close> by (auto simp: count_where_zero)
  ultimately have "count_where P (jobs d) = 1" by simp
  moreover have "update_where P f (jobs d) = update_where (\<lambda>k. k = j) f (jobs d)" by (rule update_where_cong) (rule iff)
  moreover have "update_jobs P f d = (Inr (count_where P (jobs d)), d\<lparr>jobs := update_where P f (jobs d)\<rparr>)"
    by (rule update_jobs_passes) (use iff checks in auto)
  ultimately show ?thesis by simp
qed

lemma start_task_quiet:
  assumes quiet: "quiet g" and ok: "db_ok (pg_db g)" and j: "j \<in> set (jobs (pg_db g))" and st: "startable c j"
    and reg: "find_worker (sc_worker_id c) (sc_queue c) (pg_db g) = Some r"
      "sc_lease_token c = None \<or> w_lease_token r = sc_lease_token c"
  shows "start_task c g = (Inr True,
    g\<lparr>pg_db := (pg_db g)\<lparr>jobs := update_where (\<lambda>k. k = j) (\<lambda>k. k\<lparr>j_status := Running\<rparr>) (jobs (pg_db g))\<rparr>\<rparr>)"
proof -
  let ?P = "\<lambda>j. list_ex (start_owner c) (workers (pg_db g)) \<and> startable c j"
  have owner: "list_ex (start_owner c) (workers (pg_db g))"
    using find_worker_Some [OF reg(1)] reg(2) by (auto simp: list_ex_iff start_owner_def)
  have "job_checks j" "job_fk (workers (pg_db g)) j" using ok j by (auto simp: db_ok_def)
  then have checks: "job_checks (j\<lparr>j_status := Running\<rparr>)" "job_fk (workers (pg_db g)) (j\<lparr>j_status := Running\<rparr>)"
    using st by (auto simp: job_checks_def job_fk_def startable_def is_active_def)
  have "update_jobs ?P (\<lambda>j. j\<lparr>j_status := Running\<rparr>) (pg_db g) =
      (Inr 1, (pg_db g)\<lparr>jobs := update_where (\<lambda>k. k = j) (\<lambda>k. k\<lparr>j_status := Running\<rparr>) (jobs (pg_db g))\<rparr>)"
    by (rule update_one_row [OF ok j]) (use st owner checks in \<open>auto simp: startable_def\<close>)
  then show ?thesis
    using quiet by (simp add: start_task_def quiet_def stmt_quiet sbind_def)
qed

lemma ack_task_quiet:
  assumes quiet: "quiet g" and ok: "db_ok (pg_db g)" and j: "j \<in> set (jobs (pg_db g))" and m: "ack_match u j"
    and reg: "find_worker (au_worker_id u) (au_queue u) (pg_db g) = Some r"
      "au_lease_token u = None \<or> w_lease_token r = au_lease_token u"
    and u: "0 \<le> au_attempts u" "au_attempts u \<le> j_max_attempts j" "au_status u \<in> {Done, Failed, Killed}"
  shows "ack_task u g = (Inr (),
    g\<lparr>pg_db := (pg_db g)\<lparr>jobs := update_where (\<lambda>k. k = j) (acked_row u (pg_now g)) (jobs (pg_db g))\<rparr>\<rparr>)"
proof -
  have row: "job_checks j" "job_fk (workers (pg_db g)) j" using ok j by (auto simp: db_ok_def)
  have upd: "update_jobs (ack_match u) (acked_row u (pg_now g)) (pg_db g) =
      (Inr 1, (pg_db g)\<lparr>jobs := update_where (\<lambda>k. k = j) (acked_row u (pg_now g)) (jobs (pg_db g))\<rparr>)"
  proof (rule update_one_row [OF ok j])
    show "job_checks (acked_row u (pg_now g) j)" using row(1) u by (auto simp: job_checks_def acked_row_def is_active_def)
    show "job_fk (workers (pg_db g)) (acked_row u (pg_now g) j)" using row(2) by (simp add: job_fk_def acked_row_def split: option.splits)
  qed (use m in \<open>auto simp: ack_match_def\<close>)
  have lock: "(if au_lease_token u \<noteq> None
      then lock_current_worker (au_worker_id u) (au_queue u) (au_lease_token u) else sreturn True) g = (Inr True, g)"
    using quiet reg by (simp add: lock_current_worker_def worker_registration_def quiet_def stmt_quiet sbind_def)
  show ?thesis
    unfolding ack_task_def
    using quiet lock upd by (simp add: quiet_def transaction_quiet stmt_quiet sbind_def)
qed

section \<open>A claimed task is run once and settled\<close>

text \<open>What a worker holds of a claimed row: the decoded task with the name of the worker that runs it.\<close>

definition held_task :: "foreign \<Rightarrow> (compact \<Rightarrow> (string, 'a) result) \<Rightarrow> job_row \<Rightarrow> string \<Rightarrow> 'a task \<Rightarrow> bool" where
  "held_task fx decode j w req \<longleftrightarrow>
     (\<exists>claimed decoded. task_of fx j claimed \<and> try_map decode claimed = Inr decoded \<and> req = decoded\<lparr>t_worker := Some w\<rparr>)"

lemma held_task_fields:
  assumes held: "held_task fx decode j w req" and conv: "conv_faithful (fx_conv fx)" and checks: "job_checks j"
    and row: "j_lock_by j = Some w" "j_lock_at j = Some (l * 1000000)"
  obtains n where "t_worker req = Some w" "t_task_id req = Some (j_id j)" "t_queue req = Some (j_job_type j)"
    "t_lock_by req = Some w" "t_lock_at req = Some l" "t_max_attempts req = j_max_attempts j"
    "t_claim req = Some \<lparr>cl_task_id = Some (j_id j), cl_lock_at = Some l, cl_completed = nat (j_attempts j), cl_cells = n\<rparr>"
proof -
  from held obtain claimed decoded where h: "task_of fx j claimed" "try_map decode claimed = Inr decoded"
    "req = decoded\<lparr>t_worker := Some w\<rparr>" by (auto simp: held_task_def)
  from h(1) obtain t n where t: "fx_conv fx (task_row_of j) = Inr t" "claimed = record_claim n t"
    by (auto simp: task_of_def task_row_def split: sum.splits)
  have f: "t_task_id t = Some (j_id j)" "t_queue t = Some (j_job_type j)" "t_lock_by t = Some w" "t_lock_at t = Some l"
    "t_attempt t = nat (j_attempts j)" "t_max_attempts t = j_max_attempts j"
    using conv [unfolded conv_faithful_def, rule_format, OF t(1)] row checks
    by (auto simp: task_row_of_def job_checks_def eq_nat_nat_iff max_def split: if_splits)
  have d: "t_task_id decoded = t_task_id claimed" "t_queue decoded = t_queue claimed" "t_lock_by decoded = t_lock_by claimed"
    "t_lock_at decoded = t_lock_at claimed" "t_max_attempts decoded = t_max_attempts claimed" "t_claim decoded = t_claim claimed"
    using h(2) by (auto simp: try_map_def map_sum_def split: sum.splits)
  show thesis by (rule that [of n]) (simp_all add: h(3) d t(2) f record_claim_def)
qed

text \<open>The row an acknowledged outcome leaves.\<close>

definition settled_row :: "('e, 'r) result \<Rightarrow> json option \<Rightarrow> timestamp \<Rightarrow> job_row \<Rightarrow> job_row" where
  "settled_row res result now k =
     k\<lparr>j_status := (case res of Inr _ \<Rightarrow> Done | Inl _ \<Rightarrow> if j_attempts k + 1 < j_max_attempts k then Failed else Killed),
       j_attempts := j_attempts k + 1, j_last_result := result, j_done_at := Some now\<rparr>"

lemma start_claim_quiet:
  assumes quiet: "quiet (p_pg st)" and ok: "db_ok (pg_db (p_pg st))" and j: "j \<in> set (jobs (pg_db (p_pg st)))"
    and row: "j_status j = Queued" "j_lock_by j = Some w" "j_lock_at j = Some (l * 1000000)"
    and reg: "find_worker w (j_job_type j) (pg_db (p_pg st)) = Some r" "w_lease_token r = Some token"
    and req: "t_task_id req = Some (j_id j)" "t_queue req = Some (j_job_type j)"
      "t_claim req = Some c" "cl_lock_at c = Some l" "cl_completed c = nat (j_attempts j)"
    and fresh: "p_cells st (cl_cells c) = fresh_cells" and live: "\<not> name_retired (p_leases st) w"
  shows "start_claim (Some token) (Some w) w req st = (Inr (req\<lparr>t_status := Running\<rparr>),
    st\<lparr>p_pg := (p_pg st)\<lparr>pg_db := (pg_db (p_pg st))\<lparr>jobs := update_where (\<lambda>k. k = j) (\<lambda>k. k\<lparr>j_status := Running\<rparr>)
        (jobs (pg_db (p_pg st)))\<rparr>\<rparr>,
      p_cells := (p_cells st)(cl_cells c := \<lparr>ac_done = False, ac_started = True, ac_attempted = True\<rparr>)\<rparr>)"
proof -
  have checks: "job_checks j" using ok j by (simp add: db_ok_def)
  let ?c = "\<lparr>sc_task_id = j_id j, sc_queue = j_job_type j, sc_worker_id = w, sc_lock_at = l,
    sc_attempts = Some (j_attempts j), sc_restart = False, sc_lease_token = Some token\<rparr>"
  have sc: "start_claim_of (Some token) w req st = Inr ?c"
    using req fresh checks
    by (auto simp: start_claim_of_def claim_epoch_def has_started_def fresh_cells_def start_attempts_def
        i32_try_from_def in_i32_def job_checks_def i32_min_def i32_max_def)
  have "start_task ?c (p_pg st) = (Inr True, (p_pg st)\<lparr>pg_db := (pg_db (p_pg st))\<lparr>jobs :=
      update_where (\<lambda>k. k = j) (\<lambda>k. k\<lparr>j_status := Running\<rparr>) (jobs (pg_db (p_pg st)))\<rparr>\<rparr>)"
    using row reg by (intro start_task_quiet [OF quiet ok j]) (simp_all add: startable_def to_timestamp_def)
  moreover have "lease_active (Some w) (on_claim mark_start_attempted (t_claim req) st) = Inr ()"
    using live by (simp add: lease_active_def ensure_active_def for_worker_retired mark_defs)
  moreover have "\<not> some_claim is_acknowledged (t_claim req) st"
    using req(3) fresh by (simp add: cell_defs fresh_cells_def)
  ultimately show ?thesis
    using req(3) fresh
    by (simp add: start_claim_def sc on_pg_def mark_defs on_claim_def set_cells_def fresh_cells_def fun_upd_def fun_eq_iff
        Let_def cong: if_cong)
qed

lemma ack_quiet:
  assumes quiet: "quiet (p_pg st)" and ok: "db_ok (pg_db (p_pg st))" and j: "j \<in> set (jobs (pg_db (p_pg st)))"
    and row: "j_status j = Running" "j_lock_by j = Some w" "j_lock_at j = Some (l * 1000000)"
      "j_attempts j < j_max_attempts j"
    and reg: "find_worker w (j_job_type j) (pg_db (p_pg st)) = Some r" "w_lease_token r = Some token"
    and req: "t_task_id req = Some (j_id j)" "t_queue req = Some (j_job_type j)" "t_lock_by req = Some w"
      "t_lock_at req = Some l" "t_max_attempts req = j_max_attempts j" "t_claim req = Some c" "cl_task_id c = Some (j_id j)"
      "cl_lock_at c = Some l" "cl_completed c = nat (j_attempts j)"
    and cells: "p_cells st (cl_cells c) = \<lparr>ac_done = False, ac_started = True, ac_attempted = True\<rparr>"
    and live: "\<not> name_retired (p_leases st) w" and ser: "build_ack_response ser res = Inr result"
  obtains st' where "ack ser (pg_ack_with_lease_registry token) res req st = (Inr (), st')"
    "\<not> name_retired (p_leases st') w" "\<And>n. n \<noteq> cl_cells c \<Longrightarrow> p_cells st' n = p_cells st n"
    "p_pg st' = (p_pg st)\<lparr>pg_db := (pg_db (p_pg st))\<lparr>jobs := update_where (\<lambda>k. k = j)
      (settled_row res result (pg_now (p_pg st))) (jobs (pg_db (p_pg st)))\<rparr>\<rparr>"
proof -
  have checks: "job_checks j" using ok j by (simp add: db_ok_def)
  then have pos: "0 \<le> j_attempts j" "j_attempts j + 1 \<le> i32_max" using row(4) by (auto simp: job_checks_def)
  let ?status = "case res of Inr _ \<Rightarrow> Done | Inl _ \<Rightarrow> if j_attempts j + 1 < j_max_attempts j then Failed else Killed"
  let ?u = "\<lparr>au_task_id = j_id j, au_attempts = j_attempts j + 1, au_started_attempts = j_attempts j, au_result = result,
    au_status = ?status, au_worker_id = w, au_queue = j_job_type j, au_lock_at = l, au_lease_token = Some token\<rparr>"
  have raw: "acknowledgement_attempt req = Inr (nat (j_attempts j) + 1)"
    using req pos by (simp add: acknowledgement_attempt_def usize_checked_add_def usize_max_def i32_max_def)
  have status: "calculate_status (j_max_attempts j) (nat (j_attempts j) + 1) res = ?status"
    using pos row(4) by (auto simp: calculate_status_def split: sum.split)
  have u: "ack_update_of ser (pg_ack_with_lease_registry token) res req = Inr ?u"
    using req pos ser raw status
    by (simp add: ack_update_of_def attempts_i32_def i32_try_from_def in_i32_def i32_min_def i32_max_def Let_def
        pg_ack_with_lease_registry_def)
  let ?st0 = "lease_handle (Some w) st"
  let ?g = "(p_pg st)\<lparr>pg_db := (pg_db (p_pg st))\<lparr>jobs := update_where (\<lambda>k. k = j) (acked_row ?u (pg_now (p_pg st))) (jobs (pg_db (p_pg st)))\<rparr>\<rparr>"
  have "ack_task ?u (p_pg st) = (Inr (), ?g)"
    using row reg pos
    by (intro ack_task_quiet [OF quiet ok j]) (auto simp: ack_match_def to_timestamp_def is_active_def split: sum.split)
  then have at: "on_pg (ack_task ?u) ?st0 = (Inr (), ?st0\<lparr>p_pg := ?g\<rparr>)" by (simp add: on_pg_def)
  let ?st1 = "on_claim mark_acknowledged (Some c) (?st0\<lparr>p_pg := ?g\<rparr>)"
  let ?ob = "ack_obligation (pg_ack_with_lease_registry token) req"
  have "\<not> some_claim start_refused (Some c) ?st0" "\<not> some_claim is_acknowledged (Some c) ?st0"
    using cells by (simp_all add: cell_defs)
  then have "ack_run ser (pg_ack_with_lease_registry token) res req ?ob ?st0 = (Inr (), ob_disarm ?ob, ?st1)"
    using u at req(6) by (simp add: ack_run_def)
  then have run: "ack ser (pg_ack_with_lease_registry token) res req st = (Inr (), drop_obligation (ob_disarm ?ob) ?st1)"
    using req(3) by (simp add: ack_def pg_ack_with_lease_registry_def)
  show thesis
  proof (rule that [OF run])
    have "p_leases ?st1 = p_leases ?st0" by (simp add: mark_defs)
    with live show "\<not> name_retired (p_leases (drop_obligation (ob_disarm ?ob) ?st1)) w"
      by (auto simp: retired_drop_obligation dest: ob_disarm_guard)
    show "p_cells (drop_obligation (ob_disarm ?ob) ?st1) n = p_cells st n" if "n \<noteq> cl_cells c" for n
      using that by (simp add: on_claim_def mark_defs)
    have "update_where (\<lambda>k. k = j) (acked_row ?u (pg_now (p_pg st))) (jobs (pg_db (p_pg st))) =
        update_where (\<lambda>k. k = j) (settled_row res result (pg_now (p_pg st))) (jobs (pg_db (p_pg st)))"
      by (auto simp: update_where_def acked_row_def settled_row_def)
    then show "p_pg (drop_obligation (ob_disarm ?ob) ?st1) = (p_pg st)\<lparr>pg_db := (pg_db (p_pg st))\<lparr>jobs := update_where (\<lambda>k. k = j)
      (settled_row res result (pg_now (p_pg st))) (jobs (pg_db (p_pg st)))\<rparr>\<rparr>" by (simp add: mark_defs)
  qed
qed

lemma update_where_twice:
  assumes "\<And>k. k \<in> set rows \<Longrightarrow> k = f j \<Longrightarrow> k = j"
  shows "update_where (\<lambda>k. k = f j) g (update_where (\<lambda>k. k = j) f rows) = update_where (\<lambda>k. k = j) (\<lambda>k. g (f k)) rows"
  using assms by (auto simp: update_where_def)

lemma settled_row_started: "settled_row res result now (k\<lparr>j_status := s\<rparr>) = settled_row res result now k"
  by (cases res) (simp_all add: settled_row_def)

lemma settled_row_txt: "settled_row (map_sum txt id res) result now = settled_row res result now"
  by (cases res) (simp_all add: settled_row_def fun_eq_iff)

lemma start_then_ack_quiet:
  assumes quiet: "quiet (p_pg st)" and inv: "db_inv (pg_db (p_pg st))"
    and j: "j \<in> set (jobs (pg_db (p_pg st)))" "j_status j = Queued" "j_lock_by j = Some w" "j_lock_at j = Some (l * 1000000)"
      "j_attempts j < j_max_attempts j"
    and reg: "find_worker w (j_job_type j) (pg_db (p_pg st)) = Some r" "w_lease_token r = Some token"
    and f: "t_task_id req = Some (j_id j)" "t_queue req = Some (j_job_type j)" "t_lock_by req = Some w"
      "t_lock_at req = Some l" "t_max_attempts req = j_max_attempts j"
      "t_claim req = Some \<lparr>cl_task_id = Some (j_id j), cl_lock_at = Some l, cl_completed = nat (j_attempts j), cl_cells = n\<rparr>"
    and cells: "p_cells st n = fresh_cells" and live: "\<not> name_retired (p_leases st) w"
    and ser: "build_ack_response ser res = Inr result"
  obtains st1 st2 where "start_claim (Some token) (Some w) w req st = (Inr (req\<lparr>t_status := Running\<rparr>), st1)"
    "ack ser (pg_ack_with_lease_registry token) res (req\<lparr>t_status := Running\<rparr>) st1 = (Inr (), st2)"
    "\<not> name_retired (p_leases st2) w" "db_inv (pg_db (p_pg st2))" "\<And>m. m \<noteq> n \<Longrightarrow> p_cells st2 m = p_cells st m"
    "p_pg st2 = (p_pg st)\<lparr>pg_db := (pg_db (p_pg st))\<lparr>jobs := update_where (\<lambda>k. k = j)
      (settled_row res result (pg_now (p_pg st))) (jobs (pg_db (p_pg st)))\<rparr>\<rparr>"
proof -
  have ok: "db_ok (pg_db (p_pg st))" using inv by (rule db_inv_ok)
  let ?c = "\<lparr>cl_task_id = Some (j_id j), cl_lock_at = Some l, cl_completed = nat (j_attempts j), cl_cells = n\<rparr>"
  let ?j1 = "j\<lparr>j_status := Running\<rparr>" let ?req = "req\<lparr>t_status := Running\<rparr>"
  let ?d1 = "(pg_db (p_pg st))\<lparr>jobs := update_where (\<lambda>k. k = j) (\<lambda>k. k\<lparr>j_status := Running\<rparr>) (jobs (pg_db (p_pg st)))\<rparr>"
  let ?st1 = "st\<lparr>p_pg := (p_pg st)\<lparr>pg_db := ?d1\<rparr>,
      p_cells := (p_cells st)(n := \<lparr>ac_done = False, ac_started = True, ac_attempted = True\<rparr>)\<rparr>"
  have start: "start_claim (Some token) (Some w) w req st = (Inr ?req, ?st1)"
    using start_claim_quiet [of st j w l r token req ?c] quiet ok j reg f cells live by simp
  have "lifecycle (pg_db (p_pg st)) (pg_db (p_pg ?st1))" by (rule start_claim_db [OF start])
  then have inv1: "db_inv ?d1" using inv by (simp add: lifecycle_def)
  then have ok1: "db_ok ?d1" by (rule db_inv_ok)
  have reg1: "find_worker w (j_job_type j) ?d1 = Some r" using reg(1) by (simp add: find_worker_def)
  have j1: "?j1 \<in> set (jobs ?d1)" using j(1) by (simp add: update_where_in)
  obtain st2 where a: "ack ser (pg_ack_with_lease_registry token) res ?req ?st1 = (Inr (), st2)" "\<not> name_retired (p_leases st2) w"
    "\<And>m. m \<noteq> cl_cells ?c \<Longrightarrow> p_cells st2 m = p_cells ?st1 m"
    "p_pg st2 = (p_pg ?st1)\<lparr>pg_db := (pg_db (p_pg ?st1))\<lparr>jobs := update_where (\<lambda>k. k = ?j1)
      (settled_row res result (pg_now (p_pg ?st1))) (jobs (pg_db (p_pg ?st1)))\<rparr>\<rparr>"
    by (rule ack_quiet [of ?st1 ?j1 w l r token ?req ?c ser res result])
      (use quiet ok1 j1 j reg(2) reg1 f live ser in \<open>simp_all add: quiet_def\<close>)
  have inv2: "db_inv (pg_db (p_pg st2))"
    using ack_lifecycle [of ?st1 ser "pg_ack_with_lease_registry token" res ?req] inv1 a(1) by (simp add: lifecycle_def)
  have twice: "k = j" if "k \<in> set (jobs (pg_db (p_pg st)))" "k = ?j1" for k
    using distinct_key_unique [of j_id "jobs (pg_db (p_pg st))" k j] that ok j(1) by (simp add: db_ok_def)
  have "p_pg st2 = (p_pg st)\<lparr>pg_db := (pg_db (p_pg st))\<lparr>jobs := update_where (\<lambda>k. k = j)
      (settled_row res result (pg_now (p_pg st))) (jobs (pg_db (p_pg st)))\<rparr>\<rparr>"
    unfolding a(4) using update_where_twice [of "jobs (pg_db (p_pg st))" "\<lambda>k. k\<lparr>j_status := Running\<rparr>" j, OF twice]
    by (simp add: settled_row_started)
  with start inv2 a(1-3) show thesis by (intro that) simp_all
qed

lemma claimed_task_settles:
  assumes quiet: "quiet (p_pg st)" and inv: "db_inv (pg_db (p_pg st))" and conv: "conv_faithful (fx_conv fx)"
    and j: "j \<in> set (jobs (pg_db (p_pg st)))" "j_status j = Queued" "j_lock_by j = Some w" "j_lock_at j = Some (l * 1000000)"
      "j_attempts j < j_max_attempts j"
    and reg: "find_worker w (j_job_type j) (pg_db (p_pg st)) = Some r" "w_lease_token r = Some token"
    and held: "held_task fx decode j w req" and fresh: "\<forall>c. t_claim req = Some c \<longrightarrow> p_cells st (cl_cells c) = fresh_cells"
    and live: "\<not> name_retired (p_leases st) w"
    and layer: "acknowledges ser txt wrap acknowledge" and handler: "\<forall>s. inner (req\<lparr>t_status := Running\<rparr>) s = (res, s)"
    and ser: "build_ack_response ser (map_sum txt id res) = Inr result"
  obtains st' where "middleware_call fx (layer acknowledge (pg_middleware_with_lease_registry True token) inner) req st =
      (map_sum HandlerError id res, t_attempt req, st')" "\<not> name_retired (p_leases st') w" "db_inv (pg_db (p_pg st'))"
    "p_pg st' = (p_pg st)\<lparr>pg_db := (pg_db (p_pg st))\<lparr>jobs := update_where (\<lambda>k. k = j)
      (settled_row res result (pg_now (p_pg st))) (jobs (pg_db (p_pg st)))\<rparr>\<rparr>"
    "\<And>n. \<forall>c. t_claim req = Some c \<longrightarrow> cl_cells c \<noteq> n \<Longrightarrow> p_cells st' n = p_cells st n"
proof -
  have "job_checks j" using inv j(1) by (auto simp: db_ok_def)
  with held conv j(3,4) obtain n where f: "t_worker req = Some w" "t_task_id req = Some (j_id j)" "t_queue req = Some (j_job_type j)"
    "t_lock_by req = Some w" "t_lock_at req = Some l" "t_max_attempts req = j_max_attempts j"
    "t_claim req = Some \<lparr>cl_task_id = Some (j_id j), cl_lock_at = Some l, cl_completed = nat (j_attempts j), cl_cells = n\<rparr>"
    using held_task_fields [of fx decode j w req l] by blast
  let ?lock = "\<lparr>ls_leases = True, ls_lease_token = Some token\<rparr>" let ?ak = "pg_ack_with_lease_registry token"
  let ?st0 = "lease_handle (Some w) st" let ?req = "req\<lparr>t_status := Running\<rparr>"
  have cells: "p_cells st n = fresh_cells" using fresh f(7) by simp
  obtain st1 st2 where a: "start_claim (Some token) (Some w) w req ?st0 = (Inr ?req, st1)"
    "ack ser ?ak (map_sum txt id res) ?req st1 = (Inr (), st2)" "\<not> name_retired (p_leases st2) w" "db_inv (pg_db (p_pg st2))"
    "\<And>m. m \<noteq> n \<Longrightarrow> p_cells st2 m = p_cells ?st0 m"
    "p_pg st2 = (p_pg ?st0)\<lparr>pg_db := (pg_db (p_pg ?st0))\<lparr>jobs := update_where (\<lambda>k. k = j)
      (settled_row (map_sum txt id res) result (pg_now (p_pg ?st0))) (jobs (pg_db (p_pg ?st0)))\<rparr>\<rparr>"
    by (rule start_then_ack_quiet [of ?st0 j w l r token req n ser "map_sum txt id res" result])
      (use quiet inv j reg f cells live ser in simp_all)
  have ackd: "acknowledge ?ak inner ?req st1 = (res, st2)" using layer handler a(2) by (simp add: acknowledges_def)
  let ?ob = "call_obligation ?lock req ?st0"
  have pre: "preclaimed req" using f by (simp add: preclaimed_def is_preclaimed_def)
  have "\<not> some_claim is_acknowledged (t_claim req) ?st0" using f(7) cells by (simp add: cell_defs fresh_cells_def)
  then have "admit fx ?lock req ?ob ?st0 = (Inr ?req, ?ob, st1)"
    using f pre a(1) by (simp add: admit_def)
  then have run: "call fx ?lock (acknowledge ?ak inner) req st =
      (map_sum HandlerError id res, t_attempt req, drop_obligation (ob_disarm ?ob) st2)"
    using ackd f(1) by (simp add: call_def dispatch_def)
  show thesis
  proof (rule that)
    show "middleware_call fx (layer acknowledge (pg_middleware_with_lease_registry True token) inner) req st =
        (map_sum HandlerError id res, t_attempt req, drop_obligation (ob_disarm ?ob) st2)"
      using run by (simp add: middleware_call_def layer_def pg_middleware_with_lease_registry_def)
    show "\<not> name_retired (p_leases (drop_obligation (ob_disarm ?ob) st2)) w"
      using a(3) by (auto simp: retired_drop_obligation dest: ob_disarm_guard)
    show "p_cells (drop_obligation (ob_disarm ?ob) st2) m = p_cells st m"
      if "\<forall>c. t_claim req = Some c \<longrightarrow> cl_cells c \<noteq> m" for m
      using that a(5) [of m] f(7) by simp
    show "db_inv (pg_db (p_pg (drop_obligation (ob_disarm ?ob) st2)))" using a(4) by simp
  qed (simp add: a(6) settled_row_txt)
qed

text \<open>
  C5. A claimed task is run once and settled. On a connection where nothing fails, dispatching a task the
  worker claimed and still owns, through the middleware with automatic acknowledgement, starts the claim,
  runs the handler, and writes its outcome: the row is \<open>Done\<close> on success, \<open>Failed\<close> while the
  budget allows another attempt and \<open>Killed\<close> otherwise, with one more attempt and the encoded
  result; no other row changes, the handler's outcome is returned, and the worker stays active.
\<close>

theorem claimed_task_is_settled:
  assumes quiet: "quiet (p_pg st)" and inv: "db_inv (pg_db (p_pg st))" and conv: "conv_faithful (fx_conv fx)"
    and j: "j \<in> set (jobs (pg_db (p_pg st)))" "j_status j = Queued" "j_lock_by j = Some w" "j_lock_at j = Some (l * 1000000)"
      "j_attempts j < j_max_attempts j"
    and reg: "find_worker w (j_job_type j) (pg_db (p_pg st)) = Some r" "w_lease_token r = Some token"
    and held: "held_task fx decode j w req" and fresh: "\<forall>c. t_claim req = Some c \<longrightarrow> p_cells st (cl_cells c) = fresh_cells"
    and live: "\<not> name_retired (p_leases st) w"
    and layer: "acknowledges ser txt wrap acknowledge" and handler: "\<forall>s. inner (req\<lparr>t_status := Running\<rparr>) s = (res, s)"
    and ser: "build_ack_response ser (map_sum txt id res) = Inr result"
  shows "\<exists>st'. middleware_call fx (layer acknowledge (pg_middleware_with_lease_registry True token) inner) req st =
      (map_sum HandlerError id res, t_attempt req, st') \<and> \<not> name_retired (p_leases st') w \<and>
    pg_db (p_pg st') = (pg_db (p_pg st))\<lparr>jobs := update_where (\<lambda>k. k = j)
      (\<lambda>k. k\<lparr>j_status := (case res of Inr _ \<Rightarrow> Done
                 | Inl _ \<Rightarrow> if j_attempts j + 1 < j_max_attempts j then Failed else Killed),
            j_attempts := j_attempts j + 1, j_last_result := result, j_done_at := Some (pg_now (p_pg st))\<rparr>)
      (jobs (pg_db (p_pg st)))\<rparr>"
proof -
  let ?js = "jobs (pg_db (p_pg st))" let ?now = "pg_now (p_pg st)"
  obtain st' where "middleware_call fx (layer acknowledge (pg_middleware_with_lease_registry True token) inner) req st =
      (map_sum HandlerError id res, t_attempt req, st')" "\<not> name_retired (p_leases st') w"
    "p_pg st' = (p_pg st)\<lparr>pg_db := (pg_db (p_pg st))\<lparr>jobs := update_where (\<lambda>k. k = j) (settled_row res result ?now) ?js\<rparr>\<rparr>"
    using claimed_task_settles [of st fx j w l r token decode req ser "txt" wrap acknowledge inner res result] assms by metis
  moreover have "update_where (\<lambda>k. k = j) (settled_row res result ?now) ?js = update_where (\<lambda>k. k = j)
      (\<lambda>k. k\<lparr>j_status := (case res of Inr _ \<Rightarrow> Done
                 | Inl _ \<Rightarrow> if j_attempts j + 1 < j_max_attempts j then Failed else Killed),
            j_attempts := j_attempts j + 1, j_last_result := result, j_done_at := Some ?now\<rparr>) ?js"
    by (auto simp: update_where_def settled_row_def)
  ultimately show ?thesis by simp
qed

end
