(* ===== verification/Fetcher.thy ===== *)
theory Fetcher
  imports Ack
begin

text \<open>
  The task streams of a worker (\<^verbatim>\<open>src/fetcher.rs\<close>): the polling fetcher, the gate that
  registers the worker before anything is claimed, the lease check around every poll, and the
  decoding stage with the release of claims whose payload does not decode. A poll strategy is an
  opaque stream and is given by the answers it will give; the futures of the crate are given by the
  number of polls at which they are pending. A future takes effect at the poll that completes it.
\<close>

section \<open>The polling fetcher\<close>

text \<open>One answer of the poll strategy: pending, a permit for one fetch, or the end of the stream.\<close>

datatype tick = NotYet | Tick | Exhausted

datatype stream_state = WaitForPoll | Ended | Fetching nat | Buffered "compact task list"

record poll_fetcher =
  pf_config :: config
  pf_worker :: worker_ctx
  pf_poller :: "tick list"
  pf_latency :: "nat list"
  pf_state :: stream_state
  pf_previous :: nat
  pf_lease_token :: "string option"

definition with_factory ::
    "config \<Rightarrow> worker_ctx \<Rightarrow> tick list \<Rightarrow> nat list \<Rightarrow> string option \<Rightarrow> poll_fetcher" where
  "with_factory cfg worker poller latency token =
     \<lparr>pf_config = cfg, pf_worker = worker, pf_poller = poller, pf_latency = latency, pf_state = WaitForPoll,
      pf_previous = 0, pf_lease_token = token\<rparr>"

text \<open>Starting a fetch: its future is pending as often as the environment says, else it is ready at once.\<close>

definition start_fetch :: "poll_fetcher \<Rightarrow> poll_fetcher" where
  "start_fetch f = (case pf_latency f of
     [] \<Rightarrow> f\<lparr>pf_state := Fetching 0\<rparr>
   | n # ns \<Rightarrow> f\<lparr>pf_state := Fetching n, pf_latency := ns\<rparr>)"

type_synonym 'w fetch = "'w \<Rightarrow> (error, compact task list) result \<times> 'w"
type_synonym item = "(error, compact task option) result"

definition fetch_weight :: "stream_state \<Rightarrow> nat" where
  "fetch_weight s = (case s of WaitForPoll \<Rightarrow> 0 | Ended \<Rightarrow> 0 | Fetching _ \<Rightarrow> 2 | Buffered _ \<Rightarrow> 1)"

lemma start_fetch_simps [simp]:
  "pf_poller (start_fetch f) = pf_poller f" "fetch_weight (pf_state (start_fetch f)) = 2"
  "\<exists>n. pf_state (start_fetch f) = Fetching n" "pf_config (start_fetch f) = pf_config f"
  by (auto simp: start_fetch_def fetch_weight_def split: list.split)

text \<open>
  The loop of \<^verbatim>\<open>poll_next\<close>. It goes round only after a permit of the strategy, so it ends
  when the answers of the strategy do: an exhausted list of answers is a pending strategy.
\<close>

function poll_next :: "'w fetch \<Rightarrow> (poll_fetcher, 'w, item) stream" where
  "poll_next fetch f g = (case pf_state f of
     WaitForPoll \<Rightarrow> (case pf_poller f of
       [] \<Rightarrow> (PollPending, f, g)
     | NotYet # ts \<Rightarrow> (PollPending, f\<lparr>pf_poller := ts\<rparr>, g)
     | Tick # ts \<Rightarrow> poll_next fetch (start_fetch (f\<lparr>pf_poller := ts\<rparr>)) g
     | Exhausted # ts \<Rightarrow>
         (PollReady (Some (Inl (PollStrategyExhausted (c_queue (pf_config f))))),
          f\<lparr>pf_poller := ts, pf_state := Ended\<rparr>, g))
   | Ended \<Rightarrow> (PollReady None, f, g)
   | Fetching (Suc n) \<Rightarrow> (PollPending, f\<lparr>pf_state := Fetching n\<rparr>, g)
   | Fetching 0 \<Rightarrow> (case fetch g of
       (Inr [], g1) \<Rightarrow> poll_next fetch (f\<lparr>pf_previous := 0, pf_state := WaitForPoll\<rparr>) g1
     | (Inr (t # ts), g1) \<Rightarrow>
         poll_next fetch (f\<lparr>pf_previous := length (t # ts), pf_state := Buffered (t # ts)\<rparr>) g1
     | (Inl e, g1) \<Rightarrow> (PollReady (Some (Inl e)), f\<lparr>pf_previous := 0, pf_state := WaitForPoll\<rparr>, g1))
   | Buffered [] \<Rightarrow> poll_next fetch (f\<lparr>pf_state := WaitForPoll\<rparr>) g
   | Buffered (t # ts) \<Rightarrow>
       (PollReady (Some (Inr (Some t))), f\<lparr>pf_state := if ts = [] then WaitForPoll else Buffered ts\<rparr>, g))"
  by pat_completeness auto

termination
  by (relation "measure (\<lambda>(fetch, f, g). 3 * length (pf_poller f) + fetch_weight (pf_state f))")
     (auto simp: fetch_weight_def [of "Fetching _"] fetch_weight_def [of "Buffered _"] fetch_weight_def [of WaitForPoll])

declare poll_next.simps [simp del]

text \<open>The fetch of a worker's polling fetcher.\<close>

definition fetch_of :: "foreign \<Rightarrow> poll_fetcher \<Rightarrow> pg fetch" where
  "fetch_of fx f = fetch_next fx (pf_config f) (pf_worker f) (pf_lease_token f)"

section \<open>Every fetched task is delivered once\<close>

text \<open>A series of polls, with what other sessions do to the world before each, and a log of the fetches.\<close>

definition logged :: "'w fetch \<Rightarrow> ('w \<times> (error, compact task list) result list) fetch" where
  "logged fetch = (\<lambda>(g, log). (case fetch g of (r, g1) \<Rightarrow> (r, (g1, log @ [r]))))"

definition elsewhere :: "('w \<Rightarrow> 'w) \<Rightarrow> 'w \<times> 'l \<Rightarrow> 'w \<times> 'l" where
  "elsewhere h = (\<lambda>(g, log). (h g, log))"

lemma elsewhere_simps [simp]: "elsewhere h (g, log) = (h g, log)"
  by (simp add: elsewhere_def)

fun poll_many ::
    "('s, 'w, 'i) stream \<Rightarrow> ('w \<Rightarrow> 'w) list \<Rightarrow> 's \<Rightarrow> 'w \<Rightarrow> 'i option poll list \<times> 's \<times> 'w" where
  "poll_many poll [] s g = ([], s, g)"
| "poll_many poll (other # others) s g =
     (case poll s (other g) of (r, s1, g1) \<Rightarrow> (case poll_many poll others s1 g1 of (rs, s2, g2) \<Rightarrow> (r # rs, s2, g2)))"

definition buffered :: "poll_fetcher \<Rightarrow> compact task list" where
  "buffered f = (case pf_state f of Buffered ts \<Rightarrow> ts | _ \<Rightarrow> [])"

definition item_tasks :: "item option poll \<Rightarrow> compact task list" where
  "item_tasks r = (case r of PollReady (Some (Inr (Some t))) \<Rightarrow> [t] | _ \<Rightarrow> [])"

definition item_errors :: "(error, 't) result option poll \<Rightarrow> error list" where
  "item_errors r = (case r of PollReady (Some (Inl e)) \<Rightarrow> [e] | _ \<Rightarrow> [])"

definition batch_tasks :: "(error, compact task list) result \<Rightarrow> compact task list" where
  "batch_tasks r = (case r of Inl _ \<Rightarrow> [] | Inr ts \<Rightarrow> ts)"

definition batch_errors :: "(error, compact task list) result \<Rightarrow> error list" where
  "batch_errors r = (case r of Inl e \<Rightarrow> [e] | Inr _ \<Rightarrow> [])"

definition ticks :: "poll_fetcher \<Rightarrow> nat" where
  "ticks f = length (filter (\<lambda>t. t = Tick) (pf_poller f)) + (case pf_state f of Fetching _ \<Rightarrow> 1 | _ \<Rightarrow> 0)"

text \<open>The end of the strategy is reported once.\<close>

definition exhaustion :: "poll_fetcher \<Rightarrow> poll_fetcher \<Rightarrow> error list" where
  "exhaustion f f' =
     (if pf_state f \<noteq> Ended \<and> pf_state f' = Ended then [PollStrategyExhausted (c_queue (pf_config f))] else [])"

definition delivers ::
    "poll_fetcher \<Rightarrow> (error, compact task list) result list \<Rightarrow> item option poll list \<Rightarrow> poll_fetcher \<Rightarrow> bool" where
  "delivers f log items f' \<longleftrightarrow>
     buffered f @ concat (map batch_tasks log) = concat (map item_tasks items) @ buffered f' \<and>
     concat (map batch_errors log) @ exhaustion f f' = concat (map item_errors items) \<and>
     length log + ticks f' = ticks f \<and> pf_config f' = pf_config f \<and> (pf_state f = Ended \<longrightarrow> log = [] \<and> f' = f)"

lemmas delivers_simps = delivers_def buffered_def item_tasks_def item_errors_def batch_tasks_def batch_errors_def
  ticks_def exhaustion_def

lemma ended_poll: "pf_state f = Ended \<Longrightarrow> poll_next fetch f g = (PollReady None, f, g)"
  by (simp add: poll_next.simps [of fetch f g])

lemma delivers_fetch:
  assumes "delivers (f\<lparr>pf_previous := k, pf_state := s\<rparr>) log items f'"
    and "pf_state f = Fetching 0" and "s = (if ts = [] then WaitForPoll else Buffered ts)"
  shows "delivers f (Inr ts # log) items f'"
  using assms by (auto simp: delivers_simps split: if_splits)

lemma delivers_tick:
  assumes "delivers (start_fetch (f\<lparr>pf_poller := ts\<rparr>)) log items f'" and "pf_state f = WaitForPoll" and "pf_poller f = Tick # ts"
  shows "delivers f log items f'"
  using assms by (auto simp: delivers_simps start_fetch_def split: if_splits list.splits)

lemma poll_fetching_delivers:
  assumes run: "poll_next (logged fetch) f (g, log) = (r, f', (g', log'))" and st: "pf_state f = Fetching 0"
    and again: "\<And>ts g1 f1. fetch g = (Inr ts, g1) \<Longrightarrow>
      f1 = f\<lparr>pf_previous := length ts, pf_state := if ts = [] then WaitForPoll else Buffered ts\<rparr> \<Longrightarrow>
      poll_next (logged fetch) f1 (g1, log @ [Inr ts]) = (r, f', (g', log')) \<Longrightarrow>
      \<exists>new. log' = (log @ [Inr ts]) @ new \<and> delivers f1 new [r] f'"
  shows "\<exists>new. log' = log @ new \<and> delivers f new [r] f'"
proof -
  note run' = run [unfolded poll_next.simps [of "logged fetch" f "(g, log)"]]
  obtain x g1 where f: "fetch g = (x, g1)" by fastforce
  then have l: "logged fetch (g, log) = (x, (g1, log @ [x]))" by (simp add: logged_def)
  show ?thesis
  proof (cases x)
    case (Inl e)
    with run' st l show ?thesis by (auto simp: delivers_simps)
  next
    case (Inr ts)
    let ?f1 = "f\<lparr>pf_previous := length ts, pf_state := if ts = [] then WaitForPoll else Buffered ts\<rparr>"
    have "poll_next (logged fetch) ?f1 (g1, log @ [Inr ts]) = (r, f', (g', log'))"
      using run' st l Inr by (cases ts) simp_all
    from again [OF f [unfolded Inr] HOL.refl this] obtain new where "log' = (log @ [Inr ts]) @ new" "delivers ?f1 new [r] f'" by blast
    with delivers_fetch [OF _ st HOL.refl] show ?thesis by auto
  qed
qed

lemma poll_next_delivers:
  "poll_next (logged fetch) f (g, log) = (r, f', (g', log')) \<Longrightarrow> \<exists>new. log' = log @ new \<and> delivers f new [r] f'"
proof (induction "logged fetch" f "(g, log)" arbitrary: g log rule: poll_next.induct)
  case (1 f)
  note run = 1(5) [unfolded poll_next.simps [of "logged fetch" f "(g, log)"]]
  show ?case
  proof (cases "pf_state f")
    case WaitForPoll
    show ?thesis
    proof (cases "pf_poller f")
      case Nil
      with run WaitForPoll show ?thesis by (simp add: delivers_simps)
    next
      case (Cons t ts)
      show ?thesis
      proof (cases "t = Tick")
        case True
        with run WaitForPoll Cons have rec: "poll_next (logged fetch) (start_fetch (f\<lparr>pf_poller := ts\<rparr>)) (g, log) = (r, f', (g', log'))"
          by simp
        from 1(1) [OF WaitForPoll Cons True rec] delivers_tick [OF _ WaitForPoll Cons [unfolded True]] show ?thesis by blast
      next
        case False
        with run WaitForPoll Cons show ?thesis by (cases t) (auto simp: delivers_simps)
      qed
    qed
  next
    case Ended
    with run show ?thesis by (auto simp: delivers_simps)
  next
    case (Fetching n)
    show ?thesis
    proof (cases n)
      case 0
      have "\<exists>new. log' = (log @ [Inr ts]) @ new \<and> delivers f1 new [r] f'"
        if f: "fetch g = (Inr ts, g1)" and f1: "f1 = f\<lparr>pf_previous := length ts, pf_state := if ts = [] then WaitForPoll else Buffered ts\<rparr>"
          and rec: "poll_next (logged fetch) f1 (g1, log @ [Inr ts]) = (r, f', (g', log'))" for ts g1 f1
      proof -
        have l: "logged fetch (g, log) = (Inr ts, (g1, log @ [Inr ts]))" using f by (simp add: logged_def)
        show ?thesis
        proof (cases ts)
          case Nil
          with 1(2) [OF Fetching 0 l [symmetric] HOL.refl Nil] rec f1 show ?thesis by simp
        next
          case (Cons t us)
          with 1(3) [OF Fetching 0 l [symmetric] HOL.refl Cons] rec f1 show ?thesis by simp
        qed
      qed
      from poll_fetching_delivers [OF 1(5) Fetching [unfolded 0] this] show ?thesis .
    next
      case (Suc k)
      with run Fetching show ?thesis by (auto simp: delivers_simps)
    qed
  next
    case (Buffered ts)
    show ?thesis
    proof (cases ts)
      case Nil
      with run Buffered have rec: "poll_next (logged fetch) (f\<lparr>pf_state := WaitForPoll\<rparr>) (g, log) = (r, f', (g', log'))" by simp
      from 1(4) [OF Buffered Nil rec] Buffered Nil show ?thesis by (auto simp: delivers_simps split: if_splits)
    next
      case (Cons t us)
      with run Buffered show ?thesis by (auto simp: delivers_simps split: if_splits)
    qed
  qed
qed

lemma delivers_trans:
  assumes "delivers f log items f1" and "delivers f1 log1 items1 f2"
  shows "delivers f (log @ log1) (items @ items1) f2"
proof (cases "pf_state f1 = Ended")
  case True
  with assms(2) have "log1 = []" "f2 = f1" by (auto simp: delivers_def)
  with assms show ?thesis by (auto simp: delivers_def exhaustion_def)
next
  case False
  then have "exhaustion f f1 = []" "pf_state f \<noteq> Ended" using assms(1) by (auto simp: exhaustion_def delivers_def)
  moreover have "buffered f @ concat (map batch_tasks (log @ log1)) = concat (map item_tasks (items @ items1)) @ buffered f2"
    using assms unfolding delivers_def by (metis append_assoc concat_append map_append)
  ultimately show ?thesis using assms False by (auto simp: delivers_def exhaustion_def)
qed

lemma poll_many_delivers:
  "poll_many (poll_next (logged fetch)) (map elsewhere others) f (g, log) = (items, f', (g', log')) \<Longrightarrow>
   \<exists>new. log' = log @ new \<and> delivers f new items f'"
proof (induction others arbitrary: f g log items)
  case Nil
  then show ?case by (auto simp: delivers_def exhaustion_def)
next
  case (Cons h others)
  obtain r f1 g1 log1 where one: "poll_next (logged fetch) f (h g, log) = (r, f1, (g1, log1))" by (metis prod.exhaust)
  obtain rs f2 w2 where rest: "poll_many (poll_next (logged fetch)) (map elsewhere others) f1 (g1, log1) = (rs, f2, w2)"
    by (metis prod.exhaust)
  from Cons.prems one rest have eq: "items = r # rs" "f2 = f'" "w2 = (g', log')" by simp_all
  from poll_next_delivers [OF one] obtain new where n: "log1 = log @ new" "delivers f new [r] f1" by blast
  from Cons.IH [OF rest [unfolded eq]] obtain new' where n': "log' = log1 @ new'" "delivers f1 new' rs f'" by blast
  from delivers_trans [OF n(2) n'(2)] n(1) n'(1) eq show ?case by auto
qed

text \<open>Logging changes nothing.\<close>

lemma poll_next_logged:
  "poll_next (logged fetch) f (g, log) = (r, f', (g', log')) \<Longrightarrow> poll_next fetch f g = (r, f', g')"
proof (induction "logged fetch" f "(g, log)" arbitrary: g log rule: poll_next.induct)
  case (1 f)
  note run = 1(5) [unfolded poll_next.simps [of "logged fetch" f "(g, log)"]]
  obtain x g1 where f: "fetch g = (x, g1)" by fastforce
  then have l: "logged fetch (g, log) = (x, (g1, log @ [x]))" by (simp add: logged_def)
  show ?case
    using run f l 1(1-4)
    by (simp add: poll_next.simps [of fetch f g]
        split: stream_state.splits list.splits tick.splits nat.splits sum.splits) auto
qed

lemma poll_many_logged:
  "poll_many (poll_next (logged fetch)) (map elsewhere others) f (g, log) = (items, f', (g', log')) \<Longrightarrow>
   poll_many (poll_next fetch) others f g = (items, f', g')"
proof (induction others arbitrary: f g log items)
  case (Cons h others)
  obtain r f1 g1 log1 where one: "poll_next (logged fetch) f (h g, log) = (r, f1, (g1, log1))" by (metis prod.exhaust)
  obtain rs f2 w2 where rest: "poll_many (poll_next (logged fetch)) (map elsewhere others) f1 (g1, log1) = (rs, f2, w2)"
    by (metis prod.exhaust)
  from Cons.prems one rest have eq: "items = r # rs" "f2 = f'" "w2 = (g', log')" by simp_all
  from poll_next_logged [OF one] Cons.IH [OF rest [unfolded eq]] eq show ?case by simp
qed simp

text \<open>
  C22. A polling fetcher delivers every task it claims exactly once and in the order of the claims,
  over any series of polls and whatever other sessions do in between: the tasks yielded so far,
  followed by the tasks still buffered, are the batches its fetches returned. Each fetch used up
  exactly one permit of the poll strategy, so a gate of the user is never bypassed. Every claim
  error reaches the caller, and so does, once, the end of the strategy, which ends the stream.
\<close>

theorem fetcher_delivers_each_claim_once:
  assumes "poll_many (poll_next (logged (fetch_of fx f))) (map elsewhere others) f (g, []) = (items, f', (g', log))"
    and "pf_state f = WaitForPoll"
  shows "poll_many (poll_next (fetch_of fx f)) others f g = (items, f', g') \<and>
    concat (map item_tasks items) @ buffered f' = concat (map batch_tasks log) \<and>
    length log + ticks f' = length (filter (\<lambda>t. t = Tick) (pf_poller f)) \<and>
    concat (map item_errors items) = concat (map batch_errors log) @
      (if pf_state f' = Ended then [PollStrategyExhausted (c_queue (pf_config f))] else [])"
proof -
  from poll_many_delivers [OF assms(1)] have "delivers f log items f'" by simp
  with poll_many_logged [OF assms(1)] assms(2) show ?thesis
    by (simp add: delivers_def buffered_def [of f] ticks_def [of f] exhaustion_def)
qed

end
