(* ===== verification/Streams.thy ===== *)
theory Streams
  imports Fetcher
begin

text \<open>
  The stages around a fetcher (\<^verbatim>\<open>src/fetcher.rs\<close>): the registration gate, the lease check
  of every poll, and the decoding of claimed tasks with the release of those that do not decode.
  The stages are written over any inner stream; the world is the process.
\<close>

section \<open>The registration gate\<close>

text \<open>
  Before the registration completed (its future is pending the given number of times), after it
  succeeded, and when nothing more will come.
\<close>

datatype gate = Registering nat | Admitted | Closed

definition register_then_stream ::
    "('w \<Rightarrow> (error, unit) result \<times> 'w) \<Rightarrow> ('b, 'w, item) stream \<Rightarrow> (gate \<times> 'b, 'w, item) stream" where
  "register_then_stream register body s g = (case s of
     (Registering (Suc n), b) \<Rightarrow> (PollPending, (Registering n, b), g)
   | (Registering 0, b) \<Rightarrow> (case register g of
       (Inr _, g1) \<Rightarrow> (PollReady (Some (Inr None)), (Admitted, b), g1)
     | (Inl e, g1) \<Rightarrow> (PollReady (Some (Inl e)), (Closed, b), g1))
   | (Admitted, b) \<Rightarrow> (case body b g of
       (r, b1, g1) \<Rightarrow> (r, (case r of PollReady None \<Rightarrow> Closed | _ \<Rightarrow> Admitted, b1), g1))
   | (Closed, b) \<Rightarrow> (PollReady None, (Closed, b), g))"

section \<open>The lease check\<close>

datatype registration_progress = NotBegun | PendingAttempt attempt | SettledAttempt

record 's lease_stream =
  ls_inner :: 's
  ls_name :: string
  ls_guard :: "(string \<times> guard) option"
  ls_retire_on_drop :: bool
  ls_registration :: registration_progress
  ls_ended :: bool

definition lease_stream_new :: "'s \<Rightarrow> string \<Rightarrow> bool \<Rightarrow> 's lease_stream" where
  "lease_stream_new inner name retire_on_drop =
     \<lparr>ls_inner = inner, ls_name = name, ls_guard = None, ls_retire_on_drop = retire_on_drop,
      ls_registration = NotBegun, ls_ended = False\<rparr>"

text \<open>Access to the lease of a name through its \<^verbatim>\<open>Arc\<close>.\<close>

definition on_lease :: "string \<Rightarrow> (lease \<Rightarrow> lease) \<Rightarrow> proc \<Rightarrow> proc" where
  "on_lease n f st = (case for_worker n (p_leases st) of (l, leases) \<Rightarrow> st\<lparr>p_leases := leases(n \<mapsto> f l)\<rparr>)"

definition retire_lease :: "string \<Rightarrow> proc \<Rightarrow> proc" where
  "retire_lease n st = st\<lparr>p_leases := retire_in n (p_leases st)\<rparr>"

definition begin_attempt :: "'s lease_stream \<Rightarrow> proc \<Rightarrow> 's lease_stream \<times> proc" where
  "begin_attempt s st =
     (if ls_retire_on_drop s \<and> ls_registration s = NotBegun
      then (s\<lparr>ls_registration := PendingAttempt \<lparr>at_settled = False\<rparr>\<rparr>, on_lease (ls_name s) begin_registration st)
      else (s, st))"

text \<open>The first item settles the attempt; a successful one arms the guard.\<close>

definition settle_first ::
    "(error, 't) result option poll \<Rightarrow> 's lease_stream \<Rightarrow> proc \<Rightarrow> 's lease_stream \<times> proc" where
  "settle_first r s st = (case ls_registration s of
     PendingAttempt a \<Rightarrow> (case r of
       PollReady (Some (Inr _)) \<Rightarrow>
         (s\<lparr>ls_guard := Some (armed_guard (ls_name s)), ls_registration := SettledAttempt\<rparr>,
          on_lease (ls_name s) (\<lambda>l. fst (snd (settle_attempt True a l))) st)
     | PollReady (Some (Inl _)) \<Rightarrow>
         (s\<lparr>ls_registration := SettledAttempt\<rparr>,
          on_lease (ls_name s) (\<lambda>l. fst (snd (settle_attempt False a l))) st)
     | _ \<Rightarrow> (s, st))
   | _ \<Rightarrow> (s, st))"

definition outcome_unknown :: "(error, 't) result option poll \<Rightarrow> bool" where
  "outcome_unknown r = (case r of PollReady (Some (Inl (ClaimOutcomeUnknown _ _))) \<Rightarrow> True | _ \<Rightarrow> False)"

definition lease_stream_poll ::
    "('s, proc, (error, 't) result) stream \<Rightarrow> ('s lease_stream, proc, (error, 't) result) stream" where
  "lease_stream_poll inner s st =
     (if ls_ended s then (PollReady None, s, st)
      else case ensure_active (fst (for_worker (ls_name s) (p_leases st))) of
        Inl e \<Rightarrow> (PollReady (Some (Inl e)), s\<lparr>ls_ended := True\<rparr>, st)
      | Inr _ \<Rightarrow>
          (case begin_attempt s st of (s1, st1) \<Rightarrow>
           case inner (ls_inner s1) st1 of (r, i, st2) \<Rightarrow>
           case settle_first r (s1\<lparr>ls_inner := i\<rparr>) st2 of (s3, st3) \<Rightarrow>
             (r, s3, if outcome_unknown r then retire_lease (ls_name s) st3 else st3)))"

definition lease_stream_drop :: "'s lease_stream \<Rightarrow> proc \<Rightarrow> proc" where
  "lease_stream_drop s st =
     (case ls_registration s of
        PendingAttempt a \<Rightarrow> on_lease (ls_name s) (\<lambda>l. fst (drop_attempt a l))
      | _ \<Rightarrow> id) (drop_lease_guard (ls_guard s) st)"

section \<open>Decoding\<close>

definition RELEASE_RETRY_LIMIT :: nat where "RELEASE_RETRY_LIMIT = 5"
definition RELEASE_RETRY_BASE_DELAY :: duration where "RELEASE_RETRY_BASE_DELAY = 100 * 1000000"
definition RELEASE_RETRY_BUDGET :: duration where "RELEASE_RETRY_BUDGET = 3 * 1000000000"

definition release_retry_delay :: "nat \<Rightarrow> duration" where
  "release_retry_delay failures = RELEASE_RETRY_BASE_DELAY * min (2 ^ (failures - 1)) (2 ^ 32 - 1)"

definition release_exhausted :: "nat \<Rightarrow> duration \<Rightarrow> bool" where
  "release_exhausted failures since_first_failure \<longleftrightarrow>
     RELEASE_RETRY_LIMIT < failures \<or> RELEASE_RETRY_BUDGET \<le> since_first_failure"

text \<open>What the codec does with a payload: a value, an error, or a panic with its message, if it has one.\<close>

datatype 'a decoding = Decoded 'a | Undecodable string | Panicked "string option"

definition codec_panic :: "string option \<Rightarrow> error" where
  "codec_panic payload =
     Decode (''the codec panicked: '' @ (case payload of Some m \<Rightarrow> m | None \<Rightarrow> ''the panic carried no message''))"

definition decode_task :: "(compact \<Rightarrow> 'a decoding) \<Rightarrow> compact task \<Rightarrow> (error, 'a task) result" where
  "decode_task dec t = (case dec (t_args t) of
     Panicked m \<Rightarrow> Inl (codec_panic m)
   | Undecodable m \<Rightarrow> try_map (\<lambda>_. Inl m) t
   | Decoded x \<Rightarrow> try_map (\<lambda>_. Inr x) t)"

record release_obligation =
  ro_task_id :: string
  ro_lock_at :: int
  ro_attempts :: int
  ro_decode_error :: error
  ro_failures :: nat
  ro_first_failure :: "nat option"

text \<open>
  The clock a failed release reads (the instant it may record as the first failure, then the instant
  it measures at), and what other sessions and tasks do to the process before each attempt.
\<close>

record surroundings =
  su_clock :: "nat \<Rightarrow> nat \<times> nat"
  su_during :: "nat \<Rightarrow> proc \<Rightarrow> proc"

function release_loop ::
    "foreign \<Rightarrow> surroundings \<Rightarrow> string \<Rightarrow> string option \<Rightarrow> release_obligation \<Rightarrow> proc \<Rightarrow>
     error \<times> duration list \<times> proc" where
  "release_loop fx su worker_id token ob st =
     (let slept = (if 0 < ro_failures ob then [release_retry_delay (ro_failures ob)] else []) in
      case on_pg (fail_undecodable_task (ro_task_id ob) worker_id (ro_lock_at ob) (ro_attempts ob)
                    (error_to_string fx (ro_decode_error ob)) token) (su_during su (ro_failures ob) st) of
        (Inr released, st1) \<Rightarrow>
          (ro_decode_error ob, slept, if released = 0 then retire_lease worker_id st1 else st1)
      | (Inl e, st1) \<Rightarrow>
          let failures = ro_failures ob + 1;
              first = (case ro_first_failure ob of Some t \<Rightarrow> t | None \<Rightarrow> fst (su_clock su (ro_failures ob)))
          in if release_exhausted failures (snd (su_clock su (ro_failures ob)) - first)
             then (e, slept, retire_lease worker_id st1)
             else (case release_loop fx su worker_id token (ob\<lparr>ro_failures := failures, ro_first_failure := Some first\<rparr>) st1 of
                     (e', pauses, st2) \<Rightarrow> (e', slept @ pauses, st2)))"
  by pat_completeness auto

termination
  by (relation "measure (\<lambda>(fx, su, w, t, ob, st). RELEASE_RETRY_LIMIT + 1 - ro_failures ob)")
     (auto simp: release_exhausted_def)

declare release_loop.simps [simp del]

definition decode_item ::
    "foreign \<Rightarrow> (compact \<Rightarrow> 'a decoding) \<Rightarrow> surroundings \<Rightarrow> string \<Rightarrow> string option \<Rightarrow> item \<Rightarrow> proc \<Rightarrow>
     (error, 'a task option) result \<times> duration list \<times> proc" where
  "decode_item fx dec su worker_id token row st = (case row of
     Inl e \<Rightarrow> (Inl e, [], st)
   | Inr None \<Rightarrow> (Inr None, [], st)
   | Inr (Some t) \<Rightarrow> (case decode_task dec t of
       Inr task \<Rightarrow> (Inr (Some task), [], st)
     | Inl decode_error \<Rightarrow>
         (case (t_task_id t, t_lock_at t, i32_try_from (int (t_attempt t))) of
            (Some i, Some l, Some a) \<Rightarrow>
              (case release_loop fx su worker_id token
                      \<lparr>ro_task_id = i, ro_lock_at = l, ro_attempts = a, ro_decode_error = decode_error,
                       ro_failures = 0, ro_first_failure = None\<rparr> st of
                 (e, slept, st1) \<Rightarrow> (Inl e, slept, st1))
          | _ \<Rightarrow> (Inl decode_error, [], st))))"

definition decode_task_stream ::
    "foreign \<Rightarrow> (compact \<Rightarrow> 'a decoding) \<Rightarrow> surroundings \<Rightarrow> string \<Rightarrow> string option \<Rightarrow>
     ('s, proc, item) stream \<Rightarrow> ('s, proc, (error, 'a task option) result) stream" where
  "decode_task_stream fx dec su worker_id token compact s st = (case compact s st of
     (PollPending, s1, st1) \<Rightarrow> (PollPending, s1, st1)
   | (PollReady None, s1, st1) \<Rightarrow> (PollReady None, s1, st1)
   | (PollReady (Some row), s1, st1) \<Rightarrow>
       (case decode_item fx dec su worker_id token row st1 of (r, slept, st2) \<Rightarrow> (PollReady (Some r), s1, st2)))"

section \<open>The pipeline of the polling mode\<close>

text \<open>\<^verbatim>\<open>PgFetcher::into_compact_stream\<close>, then the stages \<^verbatim>\<open>PostgresStorage::poll\<close> puts around it.\<close>

definition into_compact_stream ::
    "foreign \<Rightarrow> string \<Rightarrow> string \<Rightarrow> (gate \<times> poll_fetcher, proc, item) stream" where
  "into_compact_stream fx storage_name token s st =
     register_then_stream
       (on_pg (initial_heartbeat (pf_config (snd s)) (pf_worker (snd s)) storage_name token))
       (\<lambda>f. poll_next (on_pg (fetch_of fx f)) f) s st"

section \<open>A retired name issues nothing\<close>

lemma retire_lease_retired: "name_retired (p_leases (retire_lease n st)) m \<longleftrightarrow> m = n \<or> name_retired (p_leases st) m"
  by (simp add: retire_lease_def names.retired_retire)

lemma ensure_active_retired:
  "name_retired (p_leases st) n \<Longrightarrow> \<exists>m. ensure_active (fst (for_worker n (p_leases st))) = Inl (WorkerRetired m)"
  by (simp add: ensure_active_def for_worker_retired)

text \<open>A series of polls of a retired name: at most one report of the retirement, then the end.\<close>

definition only_retirement :: "(error, 't) result option poll list \<Rightarrow> bool" where
  "only_retirement items \<longleftrightarrow> list_all (\<lambda>r. r = PollReady None) items \<or>
     (\<exists>m rest. items = PollReady (Some (Inl (WorkerRetired m))) # rest \<and> list_all (\<lambda>r. r = PollReady None) rest)"

lemma ended_polls:
  "ls_ended s \<Longrightarrow> poll_many (lease_stream_poll inner) others s st = (items, s', st') \<Longrightarrow>
   list_all (\<lambda>r. r = PollReady None) items \<and> s' = s \<and> st' = fold (\<lambda>h. h) others st"
  by (induction others arbitrary: st items) (auto simp: lease_stream_poll_def split: prod.splits)

lemma retired_polls:
  assumes "name_retired (p_leases st) (ls_name s)" and "\<forall>h \<in> set others. \<forall>x. name_retired (p_leases x) (ls_name s) \<longrightarrow> name_retired (p_leases (h x)) (ls_name s)"
    and run: "poll_many (lease_stream_poll inner) others s st = (items, s', st')"
  shows "only_retirement items \<and> st' = fold (\<lambda>h. h) others st \<and> ls_inner s' = ls_inner s"
proof (cases "ls_ended s \<or> others = []")
  case True
  with run ended_polls [OF _ run] show ?thesis by (auto simp: only_retirement_def)
next
  case False
  then obtain h hs where o: "others = h # hs" by (cases others) auto
  with assms have "name_retired (p_leases (h st)) (ls_name s)" by simp
  then obtain m where "ensure_active (fst (for_worker (ls_name s) (p_leases (h st)))) = Inl (WorkerRetired m)"
    using ensure_active_retired by blast
  with False have one: "lease_stream_poll inner s (h st) = (PollReady (Some (Inl (WorkerRetired m))), s\<lparr>ls_ended := True\<rparr>, h st)"
    by (simp add: lease_stream_poll_def)
  obtain rs s2 st2 where rest: "poll_many (lease_stream_poll inner) hs (s\<lparr>ls_ended := True\<rparr>) (h st) = (rs, s2, st2)"
    by (metis prod.exhaust)
  with run one o have eq: "items = PollReady (Some (Inl (WorkerRetired m))) # rs" "s' = s2" "st' = st2" by simp_all
  from ended_polls [OF _ rest] eq o show ?thesis by (auto simp: only_retirement_def)
qed

lemma settle_first_name: "ls_name (fst (settle_first r s st)) = ls_name s"
  by (auto simp: settle_first_def split: registration_progress.split poll.split option.split sum.split)

lemma lease_poll_unknown:
  assumes "lease_stream_poll inner s st = (PollReady (Some (Inl (ClaimOutcomeUnknown op e))), s', st')"
  shows "name_retired (p_leases st') (ls_name s') \<and> ls_name s' = ls_name s"
proof -
  have act: "\<not> ls_ended s" using assms by (auto simp: lease_stream_poll_def)
  show ?thesis
  proof (cases "ensure_active (fst (for_worker (ls_name s) (p_leases st)))")
    case (Inl e')
    with assms act show ?thesis by (auto simp: lease_stream_poll_def ensure_active_def split: if_splits)
  next
    case (Inr u)
    obtain s1 st1 where b: "begin_attempt s st = (s1, st1)" by fastforce
    obtain r i st2 where q: "inner (ls_inner s1) st1 = (r, i, st2)" by (metis prod.exhaust)
    obtain s3 st3 where f: "settle_first r (s1\<lparr>ls_inner := i\<rparr>) st2 = (s3, st3)" by fastforce
    have "ls_name s1 = ls_name s" using b by (auto simp: begin_attempt_def split: if_splits)
    moreover have "ls_name s3 = ls_name s1" using settle_first_name [of r "s1\<lparr>ls_inner := i\<rparr>" st2] f by simp
    moreover have "s' = s3" "r = PollReady (Some (Inl (ClaimOutcomeUnknown op e)))" "st' = retire_lease (ls_name s) st3"
      using assms act Inr b q f by (auto simp: lease_stream_poll_def outcome_unknown_def split: if_splits)
    ultimately show ?thesis by (simp add: retire_lease_retired)
  qed
qed

text \<open>
  C23. A claim whose outcome is unknown stops its worker: the poll that reports it retires the name,
  and from then on polls of the stream run nothing: whatever the inner stream would do, the process
  stays as the rest of the program leaves it, the inner stream is not touched, and the caller gets one
  report of the retirement and then the end of the stream. So tasks that an unacknowledged commit may
  have claimed are not hidden behind a worker that goes on.
\<close>

theorem uncertain_claim_stops_worker:
  assumes "lease_stream_poll inner s st = (PollReady (Some (Inl (ClaimOutcomeUnknown op e))), s1, st1)"
    and "\<forall>h \<in> set others. \<forall>x. name_retired (p_leases x) (ls_name s) \<longrightarrow> name_retired (p_leases (h x)) (ls_name s)"
    and "poll_many (lease_stream_poll inner) others s1 st1 = (items, s2, st2)"
  shows "name_retired (p_leases st1) (ls_name s) \<and> st2 = fold (\<lambda>h. h) others st1 \<and> ls_inner s2 = ls_inner s1 \<and>
    only_retirement items"
proof -
  note ret = conjunct1 [OF lease_poll_unknown [OF assms(1)]] and name = conjunct2 [OF lease_poll_unknown [OF assms(1)]]
  from retired_polls [OF ret assms(2) [folded name] assms(3)] ret name show ?thesis by simp
qed

section \<open>Every claim is covered by a guard\<close>

text \<open>An inner stream that counts its polls.\<close>

definition counted :: "('b, 'w, 'i) stream \<Rightarrow> ('b \<times> nat, 'w, 'i) stream" where
  "counted body = (\<lambda>(b, n) g. (case body b g of (r, b1, g1) \<Rightarrow> (r, (b1, Suc n), g1)))"

definition covered :: "string \<Rightarrow> (gate \<times> 'b \<times> nat) lease_stream \<Rightarrow> bool" where
  "covered name s \<longleftrightarrow> ls_name s = name \<and> ls_retire_on_drop s \<and> (ls_guard s = None \<or> ls_guard s = Some (armed_guard name)) \<and>
     (ls_guard s = None \<longrightarrow> snd (snd (ls_inner s)) = 0 \<and> fst (ls_inner s) \<noteq> Admitted) \<and>
     ((\<exists>n. fst (ls_inner s) = Registering n) \<longrightarrow> ls_registration s \<noteq> SettledAttempt)"

lemma gate_poll_cases:
  assumes "register_then_stream register (counted body) (q, b, n) g = (r, (q', b', n'), g')"
  shows "(\<exists>k. q = Registering (Suc k) \<and> r = PollPending \<and> q' = Registering k \<and> n' = n) \<or>
    (q = Registering 0 \<and> (\<exists>e. r = PollReady (Some (Inl e))) \<and> q' = Closed \<and> n' = n) \<or>
    (q = Registering 0 \<and> r = PollReady (Some (Inr None)) \<and> q' = Admitted \<and> n' = n) \<or>
    (q = Admitted \<and> (q' = Admitted \<or> q' = Closed)) \<or> (q = Closed \<and> q' = Closed \<and> n' = n \<and> r = PollReady None)"
  using assms
  by (auto simp: register_then_stream_def counted_def split: gate.splits nat.splits sum.splits prod.splits poll.splits option.splits)

lemma covered_poll:
  assumes cov: "covered name s" and run: "lease_stream_poll (register_then_stream register (counted body)) s st = (r, s', st')"
  shows "covered name s'"
proof -
  obtain q b n where i: "ls_inner s = (q, b, n)" by (metis prod.exhaust)
  show ?thesis
  proof (cases "ls_ended s \<or> isl (ensure_active (fst (for_worker (ls_name s) (p_leases st))))")
    case True
    with run cov show ?thesis by (auto simp: lease_stream_poll_def covered_def split: sum.splits if_splits)
  next
    case False
    obtain s1 st1 where bg: "begin_attempt s st = (s1, st1)" by fastforce
    obtain r1 q' b' n' st2 where po: "register_then_stream register (counted body) (q, b, n) st1 = (r1, (q', b', n'), st2)"
      by (metis prod.exhaust)
    obtain s3 st3 where se: "settle_first r1 (s1\<lparr>ls_inner := (q', b', n')\<rparr>) st2 = (s3, st3)" by fastforce
    have s1: "ls_inner s1 = (q, b, n)" "ls_name s1 = name" "ls_guard s1 = ls_guard s" "ls_retire_on_drop s1"
      "ls_registration s1 = (if ls_registration s = NotBegun then PendingAttempt \<lparr>at_settled = False\<rparr> else ls_registration s)"
      using bg i cov by (auto simp: begin_attempt_def covered_def split: if_splits)
    have eq: "s' = s3" "r = r1"
      using run False bg po se i s1(1) by (auto simp: lease_stream_poll_def split: sum.splits)
    show ?thesis
      using gate_poll_cases [OF po] se cov i s1
      unfolding eq covered_def settle_first_def
      by (elim disjE conjE exE)
         (auto split: registration_progress.splits poll.splits option.splits sum.splits if_splits)
  qed
qed

lemma covered_polls:
  "covered name s \<Longrightarrow> poll_many (lease_stream_poll (register_then_stream register (counted body))) others s st = (items, s', st') \<Longrightarrow>
   covered name s'"
  by (induction others arbitrary: s st items) (auto dest: covered_poll split: prod.splits)

lemma settle_first_guard:
  "\<not> (\<exists>x. r = PollReady (Some (Inr x))) \<Longrightarrow> ls_guard (fst (settle_first r s st)) = ls_guard s"
  by (auto simp: settle_first_def split: registration_progress.split poll.split option.split sum.split)

lemma guard_poll:
  assumes "lease_stream_poll inner s st = (r, s', st')" and "\<not> (\<exists>x. r = PollReady (Some (Inr x)))"
  shows "ls_guard s' = ls_guard s"
proof (cases "ls_ended s \<or> isl (ensure_active (fst (for_worker (ls_name s) (p_leases st))))")
  case True
  with assms(1) show ?thesis by (auto simp: lease_stream_poll_def split: sum.splits if_splits)
next
  case False
  obtain s1 st1 where b: "begin_attempt s st = (s1, st1)" by fastforce
  obtain q i st2 where q: "inner (ls_inner s1) st1 = (q, i, st2)" by (metis prod.exhaust)
  obtain s3 st3 where f: "settle_first q (s1\<lparr>ls_inner := i\<rparr>) st2 = (s3, st3)" by fastforce
  have "s' = s3" "r = q" using assms(1) False b q f by (auto simp: lease_stream_poll_def split: sum.splits)
  moreover have "ls_guard s1 = ls_guard s" using b by (auto simp: begin_attempt_def split: if_splits)
  ultimately show ?thesis using settle_first_guard [of q "s1\<lparr>ls_inner := i\<rparr>" st2] f assms(2) by simp
qed

lemma guard_polls:
  "poll_many (lease_stream_poll inner) others s st = (items, s', st') \<Longrightarrow>
   (\<forall>r \<in> set items. \<not> (\<exists>x. r = PollReady (Some (Inr x)))) \<longrightarrow> ls_guard s' = ls_guard s"
proof (induction others arbitrary: s st items)
  case (Cons h others)
  obtain r s1 st1 where one: "lease_stream_poll inner s (h st) = (r, s1, st1)" by (metis prod.exhaust)
  obtain rs s2 st2 where rest: "poll_many (lease_stream_poll inner) others s1 st1 = (rs, s2, st2)" by (metis prod.exhaust)
  from Cons.prems one rest have eq: "items = r # rs" "s2 = s'" "st2 = st'" by simp_all
  from Cons.IH [OF rest [unfolded eq]] guard_poll [OF one] show ?case by (simp add: eq)
qed simp

text \<open>
  C15. No claim of a task stream is left without a guard. After any series of polls, with the rest of
  the program running in between: if the stream behind the registration gate was ever polled, dropping
  the task stream retires its worker's name, so that its claims become recoverable. If no item was a
  success, so the registration has not succeeded, the stream behind the gate was never polled, nothing
  was claimed, and dropping the task stream retires nobody.
\<close>

theorem claims_are_covered:
  assumes "poll_many (lease_stream_poll (register_then_stream register (counted body))) others
      (lease_stream_new (Registering k, b, 0) name True) st = (items, s, st')"
  shows "(0 < snd (snd (ls_inner s)) \<longrightarrow> name_retired (p_leases (lease_stream_drop s now)) name) \<and>
    ((\<forall>r \<in> set items. \<not> (\<exists>x. r = PollReady (Some (Inr x)))) \<longrightarrow> snd (snd (ls_inner s)) = 0 \<and>
       (\<forall>m. name_retired (p_leases (lease_stream_drop s now)) m \<longleftrightarrow> name_retired (p_leases now) m))"
proof -
  have "covered name (lease_stream_new (Registering k, b, 0) name True)"
    by (simp add: covered_def lease_stream_new_def)
  from covered_polls [OF this assms] have cov: "covered name s" .
  have keep: "name_retired (p_leases (on_lease n f st)) m \<longleftrightarrow> name_retired (p_leases st) m"
    if "\<And>l. l_retired (f l) = l_retired l" for n f st m
    using that by (auto simp: on_lease_def name_retired_def for_worker_def fresh_lease_def split: option.splits)
  have "name_retired (p_leases (lease_stream_drop s now)) m \<longleftrightarrow> name_retired (p_leases (drop_lease_guard (ls_guard s) now)) m" for m
    by (auto simp: lease_stream_drop_def drop_attempt_def finish_registration_def wake_waiters_def Let_def keep
        split: registration_progress.split)
  note drop = this
  have "(\<forall>r \<in> set items. \<not> (\<exists>x. r = PollReady (Some (Inr x)))) \<longrightarrow> ls_guard s = None"
    using guard_polls [OF assms] by (simp add: lease_stream_new_def)
  moreover have "name_retired (p_leases (lease_stream_drop s now)) name" if "0 < snd (snd (ls_inner s))"
  proof -
    from that cov have "ls_guard s = Some (armed_guard name)" by (auto simp: covered_def)
    then show ?thesis by (simp add: drop drop_lease_guard_def armed_guard_def names.retired_retire)
  qed
  moreover have "name_retired (p_leases (lease_stream_drop s now)) m \<longleftrightarrow> name_retired (p_leases now) m"
    if "ls_guard s = None" for m
    using that by (simp add: drop drop_lease_guard_def)
  moreover have "snd (snd (ls_inner s)) = 0" if "ls_guard s = None"
    using that cov by (simp add: covered_def)
  ultimately show ?thesis by blast
qed

section \<open>Undecodable claims\<close>

text \<open>The claim is released: its row was charged, by a release that reported it.\<close>

definition claim_released :: "foreign \<Rightarrow> string \<Rightarrow> string option \<Rightarrow> release_obligation \<Rightarrow> proc \<Rightarrow> bool" where
  "claim_released fx worker_id token ob st \<longleftrightarrow> (\<exists>g n. 0 < n \<and>
     fail_undecodable_task (ro_task_id ob) worker_id (ro_lock_at ob) (ro_attempts ob)
       (error_to_string fx (ro_decode_error ob)) token g = (Inr n, p_pg st))"

lemma release_retry_delay_le: "0 < k \<Longrightarrow> release_retry_delay k \<le> RELEASE_RETRY_BASE_DELAY * 2 ^ (k - 1)"
  by (simp add: release_retry_delay_def)

text \<open>The delays of the attempts from \<open>k\<close> failures on, at most.\<close>

fun delays_from :: "nat \<Rightarrow> nat \<Rightarrow> duration list" where
  "delays_from k 0 = []"
| "delays_from k (Suc n) = (if 0 < k then [release_retry_delay k] else []) @ delays_from (Suc k) n"

lemma release_loop_outcome:
  "ro_failures ob \<le> RELEASE_RETRY_LIMIT \<Longrightarrow> release_loop fx su w token ob st = (e, slept, st') \<Longrightarrow>
   (name_retired (p_leases st') w \<or> e = ro_decode_error ob \<and> claim_released fx w token ob st') \<and>
   (\<exists>n. n + ro_failures ob \<le> RELEASE_RETRY_LIMIT + 1 \<and> slept = delays_from (ro_failures ob) n)"
proof (induction fx su w token ob st arbitrary: e slept rule: release_loop.induct)
  case (1 fx su w token ob st)
  let ?slept = "if 0 < ro_failures ob then [release_retry_delay (ro_failures ob)] else []"
  obtain r st1 where q: "on_pg (fail_undecodable_task (ro_task_id ob) w (ro_lock_at ob) (ro_attempts ob)
      (error_to_string fx (ro_decode_error ob)) token) (su_during su (ro_failures ob) st) = (r, st1)" by fastforce
  have one: "?slept = delays_from (ro_failures ob) 1" by simp
  show ?case
  proof (cases r)
    case (Inr n)
    with 1(3) q have eq: "e = ro_decode_error ob" "slept = ?slept" "st' = (if n = 0 then retire_lease w st1 else st1)"
      by (simp_all add: release_loop.simps [of fx su w token ob st] Let_def)
    have "claim_released fx w token ob st1" if "n \<noteq> 0"
      unfolding claim_released_def using q Inr that
      by (intro exI [of _ "p_pg (su_during su (ro_failures ob) st)"] exI [of _ n])
         (auto simp: on_pg_def split: prod.splits)
    then have "name_retired (p_leases st') w \<or> e = ro_decode_error ob \<and> claim_released fx w token ob st'"
      using eq by (simp add: retire_lease_retired)
    moreover have "1 + ro_failures ob \<le> RELEASE_RETRY_LIMIT + 1" using 1(2) by simp
    moreover have "slept = delays_from (ro_failures ob) 1" unfolding eq(2) by (rule one)
    ultimately show ?thesis by blast
  next
    case (Inl e0)
    define first where "first = (case ro_first_failure ob of Some t \<Rightarrow> t | None \<Rightarrow> fst (su_clock su (ro_failures ob)))"
    define ob' where "ob' = ob\<lparr>ro_failures := ro_failures ob + 1, ro_first_failure := Some first\<rparr>"
    show ?thesis
    proof (cases "release_exhausted (ro_failures ob + 1) (snd (su_clock su (ro_failures ob)) - first)")
      case True
      with 1(3) q Inl have "slept = ?slept" "st' = retire_lease w st1"
        by (simp_all add: release_loop.simps [of fx su w token ob st] Let_def first_def)
      note eq = this
      have "name_retired (p_leases st') w" unfolding eq(2) by (simp add: retire_lease_retired)
      moreover have "1 + ro_failures ob \<le> RELEASE_RETRY_LIMIT + 1" using 1(2) by simp
      moreover have "slept = delays_from (ro_failures ob) 1" unfolding eq(1) by (rule one)
      ultimately show ?thesis by blast
    next
      case False
      obtain e' pauses st2 where rec: "release_loop fx su w token ob' st1 = (e', pauses, st2)" by (metis prod.exhaust)
      with 1(3) q Inl False have eq: "e = e'" "slept = ?slept @ pauses" "st' = st2"
        by (simp_all add: release_loop.simps [of fx su w token ob st] Let_def first_def ob'_def)
      have le: "ro_failures ob' \<le> RELEASE_RETRY_LIMIT" using False by (simp add: ob'_def release_exhausted_def)
      have ih: "(name_retired (p_leases st2) w \<or> e' = ro_decode_error ob' \<and> claim_released fx w token ob' st2) \<and>
        (\<exists>n. n + ro_failures ob' \<le> RELEASE_RETRY_LIMIT + 1 \<and> pauses = delays_from (ro_failures ob') n)"
        using 1(1) [OF refl q [symmetric] Inl refl refl False [unfolded first_def]] le rec eq(3)
        by (simp add: ob'_def first_def)
      then obtain n where n: "n + ro_failures ob' \<le> RELEASE_RETRY_LIMIT + 1" "pauses = delays_from (ro_failures ob') n" by blast
      have "claim_released fx w token ob' st2 = claim_released fx w token ob st2" "ro_decode_error ob' = ro_decode_error ob"
        by (simp_all add: claim_released_def ob'_def)
      moreover have "slept = delays_from (ro_failures ob) (Suc n)" using eq(2) n(2) by (simp add: ob'_def)
      moreover have "Suc n + ro_failures ob \<le> RELEASE_RETRY_LIMIT + 1" using n(1) by (simp add: ob'_def)
      ultimately show ?thesis using ih eq by blast
    qed
  qed
qed

lemma delays_from_zero: "n \<le> RELEASE_RETRY_LIMIT + 1 \<Longrightarrow>
  length (delays_from 0 n) \<le> RELEASE_RETRY_LIMIT \<and> sum_list (delays_from 0 n) \<le> 3100 * 1000000"
proof -
  assume "n \<le> RELEASE_RETRY_LIMIT + 1"
  then have "n < 7" by (simp add: RELEASE_RETRY_LIMIT_def)
  then have "n \<in> {0, Suc 0, Suc (Suc 0), Suc (Suc (Suc 0)), Suc (Suc (Suc (Suc 0))), Suc (Suc (Suc (Suc (Suc 0)))),
      Suc (Suc (Suc (Suc (Suc (Suc 0)))))}" by auto
  then show ?thesis
    by (auto simp: RELEASE_RETRY_LIMIT_def release_retry_delay_def RELEASE_RETRY_BASE_DELAY_def)
qed

text \<open>
  C21. A claimed task is never lost to its payload. A task that decodes is delivered as it was claimed,
  with its decoded arguments, and nothing else happens. A claim whose payload does not decode, by an
  error or by a panic of the codec, is settled before the stream goes on, whatever other sessions do
  meanwhile: its row was charged and released, and the caller gets the decode error, or the worker's
  name is retired, so that the claim becomes recoverable. That takes at most six attempts and five
  pauses of 3.1 seconds together.
\<close>

theorem undecodable_claims_are_settled:
  assumes run: "decode_item fx dec su worker_id token (Inr (Some t)) st = (r, slept, st')"
    and ids: "t_task_id t = Some i" "t_lock_at t = Some l" "int (t_attempt t) \<le> i32_max"
  shows "(\<forall>x. dec (t_args t) = Decoded x \<longrightarrow> st' = st \<and> (\<exists>task. r = Inr (Some task) \<and> t_args task = x \<and>
       t_task_id task = Some i \<and> t_lock_at task = Some l \<and> t_claim task = t_claim t)) \<and>
    ((\<nexists>x. dec (t_args t) = Decoded x) \<longrightarrow>
       (\<exists>e. r = Inl e) \<and>
       (name_retired (p_leases st') worker_id \<or> (\<exists>e g n. decode_task dec t = Inl e \<and> r = Inl e \<and> 0 < n \<and>
          fail_undecodable_task i worker_id l (int (t_attempt t)) (error_to_string fx e) token g = (Inr n, p_pg st')))) \<and>
    length slept \<le> 5 \<and> sum_list slept \<le> 3100 * 1000000"
proof (cases "decode_task dec t")
  case (Inr task)
  then obtain x where x: "dec (t_args t) = Decoded x" "try_map (\<lambda>_. Inr x) t = Inr task"
    by (auto simp: decode_task_def try_map_def split: decoding.splits)
  with run Inr ids show ?thesis by (auto simp: decode_item_def try_map_def)
next
  case (Inl e)
  then have un: "\<nexists>x. dec (t_args t) = Decoded x" by (auto simp: decode_task_def try_map_def)
  define ob where "ob = \<lparr>ro_task_id = i, ro_lock_at = l, ro_attempts = int (t_attempt t), ro_decode_error = e,
     ro_failures = 0, ro_first_failure = None\<rparr>"
  have fits: "i32_try_from (int (t_attempt t)) = Some (int (t_attempt t))"
    using ids(3) by (simp add: i32_try_from_def in_i32_def i32_min_def)
  obtain e' pauses st2 where rl: "release_loop fx su worker_id token ob st = (e', pauses, st2)" by (metis prod.exhaust)
  with run Inl ids fits have eq: "r = Inl e'" "slept = pauses" "st' = st2"
    by (simp_all add: decode_item_def ob_def)
  from release_loop_outcome [OF _ rl] have out:
    "name_retired (p_leases st') worker_id \<or> e' = e \<and> claim_released fx worker_id token ob st'"
    "\<exists>n \<le> RELEASE_RETRY_LIMIT + 1. slept = delays_from 0 n"
    using eq by (auto simp: ob_def)
  from out(2) delays_from_zero have "length slept \<le> 5 \<and> sum_list slept \<le> 3100 * 1000000"
    by (auto simp: RELEASE_RETRY_LIMIT_def)
  moreover have "name_retired (p_leases st') worker_id \<or> (\<exists>e g n. decode_task dec t = Inl e \<and> r = Inl e \<and> 0 < n \<and>
          fail_undecodable_task i worker_id l (int (t_attempt t)) (error_to_string fx e) token g = (Inr n, p_pg st'))"
    using out(1) Inl eq(1) by (auto simp: claim_released_def ob_def)
  ultimately show ?thesis using un eq(1) by blast
qed

end
