(* ===== verification/Drain.thy ===== *)
theory Drain
  imports Middleware Streams
begin

text \<open>
  A worker at work: rounds of a poll (\<^verbatim>\<open>fetch_next\<close>) and, for each task it returned, of the decoding
  stage and the dispatch through the middleware, on a connection where nothing fails and no other session interferes. The order in which a
  worker of \<^verbatim>\<open>apalis-core\<close> alternates them is the schedule \<open>worker_round\<close>; the rounds show
  that the components together drain the queue, malformed rows, undecodable payloads and failing handlers
  included.
\<close>

section \<open>A poll, exactly\<close>










section \<open>Rounds\<close>











section \<open>One task\<close>







section \<open>All tasks of a poll\<close>


section \<open>A round\<close>










section \<open>The queue drains\<close>







end
