(* ===== verification/Notify.thy ===== *)
theory Notify
  imports Streams
begin

text \<open>
  Notifications (\<^verbatim>\<open>src/notify_event.rs\<close>, \<^verbatim>\<open>src/queries/notify.rs\<close>, the batching of
  notified ids in \<^verbatim>\<open>src/queries/mod.rs\<close> and the pipeline that merges it with the polling
  fetcher): the payload of an insert notification, the failure cell of a consumer, the listener thread
  with its consumer in any interleaving of their shared accesses, and the queries a batch of notified
  ids makes. The bounded channel is the one of the \<^verbatim>\<open>futures\<close> crate: its operations are a
  parameter, with their documented behaviour as a named hypothesis, and so is the JSON parser.
\<close>

section \<open>The channel\<close>

datatype send_outcome = SendOk | SendFull | SendDisconnected

record 'c mpsc =
  mp_channel :: "nat \<Rightarrow> 'c"
  mp_try_send :: "'c \<Rightarrow> string \<Rightarrow> send_outcome \<times> 'c"
  mp_poll :: "'c \<Rightarrow> string option poll \<times> 'c"
  mp_is_closed :: "'c \<Rightarrow> bool"
  mp_drop_sender :: "'c \<Rightarrow> 'c"
  mp_drop_receiver :: "'c \<Rightarrow> 'c"

text \<open>What the documentation says of a channel with one sender: a first-in first-out queue with two ends.\<close>

record chan_view =
  cv_items :: "string list"
  cv_sender :: bool
  cv_receiver :: bool

definition fifo :: "'c mpsc \<Rightarrow> ('c \<Rightarrow> chan_view) \<Rightarrow> bool" where
  "fifo ch view \<longleftrightarrow>
     (\<forall>n. view (mp_channel ch n) = \<lparr>cv_items = [], cv_sender = True, cv_receiver = True\<rparr>) \<and>
     (\<forall>c i. case mp_try_send ch c i of
        (SendOk, c') \<Rightarrow> cv_receiver (view c) \<and> view c' = (view c)\<lparr>cv_items := cv_items (view c) @ [i]\<rparr>
      | (SendFull, c') \<Rightarrow> cv_receiver (view c) \<and> view c' = view c
      | (SendDisconnected, c') \<Rightarrow> \<not> cv_receiver (view c) \<and> view c' = view c) \<and>
     (\<forall>c. case mp_poll ch c of (r, c') \<Rightarrow>
        (case cv_items (view c) of
           i # is \<Rightarrow> r = PollReady (Some i) \<and> view c' = (view c)\<lparr>cv_items := is\<rparr>
         | [] \<Rightarrow> r = (if cv_sender (view c) then PollPending else PollReady None) \<and> view c' = view c)) \<and>
     (\<forall>c. mp_is_closed ch c \<longleftrightarrow> \<not> cv_receiver (view c)) \<and>
     (\<forall>c. view (mp_drop_sender ch c) = (view c)\<lparr>cv_sender := False\<rparr>) \<and>
     (\<forall>c. \<not> cv_receiver (view (mp_drop_receiver ch c)))"

lemma fifo_try_send:
  assumes "fifo ch view" and "mp_try_send ch c i = (r, c')"
  shows "r = SendOk \<Longrightarrow> cv_receiver (view c) \<and> view c' = (view c)\<lparr>cv_items := cv_items (view c) @ [i]\<rparr>"
    and "r = SendFull \<Longrightarrow> cv_receiver (view c) \<and> view c' = view c"
    and "r = SendDisconnected \<Longrightarrow> \<not> cv_receiver (view c) \<and> view c' = view c"
  using assms(1) [unfolded fifo_def, THEN conjunct2, THEN conjunct1, rule_format, of c i] assms(2) by auto

lemma fifo_poll:
  assumes "fifo ch view" and "mp_poll ch c = (r, c')"
  shows "cv_items (view c) = i # is \<Longrightarrow> r = PollReady (Some i) \<and> view c' = (view c)\<lparr>cv_items := is\<rparr>"
    and "cv_items (view c) = [] \<Longrightarrow>
           r = (if cv_sender (view c) then PollPending else PollReady None) \<and> view c' = view c"
  using assms(1) [unfolded fifo_def, THEN conjunct2, THEN conjunct2, THEN conjunct1, rule_format, of c] assms(2)
  by auto

lemma fifo_rest:
  assumes "fifo ch view"
  shows "view (mp_channel ch n) = \<lparr>cv_items = [], cv_sender = True, cv_receiver = True\<rparr>"
    and "mp_is_closed ch c \<longleftrightarrow> \<not> cv_receiver (view c)"
    and "view (mp_drop_sender ch c) = (view c)\<lparr>cv_sender := False\<rparr>"
    and "\<not> cv_receiver (view (mp_drop_receiver ch c))"
  using assms by (simp_all add: fifo_def)

section \<open>Events and failures\<close>

definition INSERT_EVENT_IDS_CAP :: nat where "INSERT_EVENT_IDS_CAP = 65536"
definition NOTIFY_CHANNEL_CAPACITY_MAX :: nat where "NOTIFY_CHANNEL_CAPACITY_MAX = 8192"

definition clamp_notify_capacity :: "nat \<Rightarrow> nat" where
  "clamp_notify_capacity capacity = min (max capacity 1) NOTIFY_CHANNEL_CAPACITY_MAX"

record insert_event =
  ie_job_type :: string
  ie_id :: "string option"
  ie_ids :: "string list"

definition into_ids :: "insert_event \<Rightarrow> string \<times> string list" where
  "into_ids ev =
     (let ids = (if INSERT_EVENT_IDS_CAP < length (ie_ids ev) then take INSERT_EVENT_IDS_CAP (ie_ids ev)
                 else ie_ids ev)
      in if ids \<noteq> [] then (ie_job_type ev, ids)
         else (ie_job_type ev, case ie_id ev of Some i \<Rightarrow> [i] | None \<Rightarrow> []))"

text \<open>\<^verbatim>\<open>NotificationErrors\<close>: one pending failure; the waker belongs to the executor.\<close>

type_synonym notification_errors = "error option"

definition publish :: "error \<Rightarrow> notification_errors \<Rightarrow> notification_errors" where
  "publish e pending = (case pending of Some e0 \<Rightarrow> Some e0 | None \<Rightarrow> Some e)"

definition take_error :: "notification_errors \<Rightarrow> error option \<times> notification_errors" where
  "take_error pending = (pending, None)"

datatype delivery_outcome = Delivered | ChannelFull | ReceiverGone

definition classify_delivery :: "send_outcome \<Rightarrow> delivery_outcome" where
  "classify_delivery r = (case r of SendOk \<Rightarrow> Delivered | SendDisconnected \<Rightarrow> ReceiverGone | SendFull \<Rightarrow> ChannelFull)"

section \<open>The listener thread\<close>

text \<open>
  What the pool and the connection answer. The first three are read while the thread connects, the next
  three by \<^verbatim>\<open>notifications_iter\<close>, the last two by \<^verbatim>\<open>UNLISTEN\<close>; an answer a step does not read
  leaves the thread where it is.
\<close>

datatype wire = Refused string | ListenFailed diesel_error | Listening
  | Drained | Arrived string | Broken diesel_error
  | Unlistened | UnlistenFailed diesel_error

datatype listener_pc = Connecting | Looping | Receiving | Offering "string list" | Unlistening | Exiting | Exited

record 'c notify_world =
  nw_pc :: listener_pc
  nw_chan :: 'c
  nw_cancel :: bool
  nw_errors :: notification_errors
  nw_subscribed :: bool

text \<open>
  \<^verbatim>\<open>notify_task_ids\<close>: the thread is spawned with the sender; when it cannot be spawned the
  failure is published and the sender is dropped with the closure.
\<close>

definition notify_task_ids :: "'c mpsc \<Rightarrow> nat \<Rightarrow> string option \<Rightarrow> 'c notify_world" where
  "notify_task_ids ch capacity spawn_error =
     (let c = mp_channel ch (clamp_notify_capacity capacity) in
      case spawn_error of
        None \<Rightarrow> \<lparr>nw_pc = Connecting, nw_chan = c, nw_cancel = False, nw_errors = None, nw_subscribed = False\<rparr>
      | Some msg \<Rightarrow> \<lparr>nw_pc = Exited, nw_chan = mp_drop_sender ch c, nw_cancel = False,
                     nw_errors = publish (NotifyListener msg) None, nw_subscribed = False\<rparr>)"

definition fail_listener :: "error \<Rightarrow> listener_pc \<Rightarrow> 'c notify_world \<Rightarrow> 'c notify_world" where
  "fail_listener e pc w = w\<lparr>nw_errors := publish e (nw_errors w), nw_pc := pc\<rparr>"

definition connect_step :: "wire \<Rightarrow> 'c notify_world \<Rightarrow> 'c notify_world" where
  "connect_step x w = (case x of
     Refused msg \<Rightarrow> fail_listener (Pool msg) Exiting w
   | ListenFailed e \<Rightarrow>
       fail_listener (error_database ''starting PostgreSQL LISTEN notification listener'' e) Exiting w
   | Listening \<Rightarrow> w\<lparr>nw_subscribed := True, nw_pc := Looping\<rparr>
   | _ \<Rightarrow> w)"

definition receive_step ::
    "(string \<Rightarrow> insert_event option) \<Rightarrow> string \<Rightarrow> wire \<Rightarrow> 'c notify_world \<Rightarrow> 'c notify_world" where
  "receive_step parse queue x w = (case x of
     Drained \<Rightarrow> w\<lparr>nw_pc := Looping\<rparr>
   | Arrived payload \<Rightarrow>
       if nw_cancel w then w\<lparr>nw_pc := Unlistening\<rparr>
       else (case parse payload of
               None \<Rightarrow> w
             | Some ev \<Rightarrow> (case into_ids ev of (event_queue, ids) \<Rightarrow>
                 if event_queue \<noteq> queue then w else w\<lparr>nw_pc := Offering ids\<rparr>))
   | Broken e \<Rightarrow>
       if nw_cancel w then w\<lparr>nw_pc := Unlistening\<rparr>
       else fail_listener (error_database ''receiving PostgreSQL notification'' e) Unlistening w
   | _ \<Rightarrow> w)"

definition offer_step :: "'c mpsc \<Rightarrow> string list \<Rightarrow> 'c notify_world \<Rightarrow> 'c notify_world" where
  "offer_step ch ids w = (case ids of
     [] \<Rightarrow> w\<lparr>nw_pc := Receiving\<rparr>
   | i # is \<Rightarrow> (case mp_try_send ch (nw_chan w) i of (r, c) \<Rightarrow>
       (case classify_delivery r of
          Delivered \<Rightarrow> w\<lparr>nw_chan := c, nw_pc := Offering is\<rparr>
        | ReceiverGone \<Rightarrow> w\<lparr>nw_chan := c, nw_pc := Unlistening\<rparr>
        | ChannelFull \<Rightarrow> w\<lparr>nw_chan := c, nw_pc := Receiving\<rparr>)))"

text \<open>\<^verbatim>\<open>let _ = UNLISTEN\<close>: a failure is ignored, and then the subscription stays on the connection.\<close>

definition unlisten_step :: "wire \<Rightarrow> 'c notify_world \<Rightarrow> 'c notify_world" where
  "unlisten_step x w = (case x of
     Unlistened \<Rightarrow> w\<lparr>nw_subscribed := False, nw_pc := Exiting\<rparr>
   | UnlistenFailed e \<Rightarrow> w\<lparr>nw_pc := Exiting\<rparr>
   | _ \<Rightarrow> w)"

definition listener_step ::
    "'c mpsc \<Rightarrow> (string \<Rightarrow> insert_event option) \<Rightarrow> string \<Rightarrow> wire \<Rightarrow> 'c notify_world \<Rightarrow> 'c notify_world" where
  "listener_step ch parse queue x w = (case nw_pc w of
     Connecting \<Rightarrow> connect_step x w
   | Looping \<Rightarrow> w\<lparr>nw_pc := if nw_cancel w then Unlistening else Receiving\<rparr>
   | Receiving \<Rightarrow> receive_step parse queue x w
   | Offering ids \<Rightarrow> offer_step ch ids w
   | Unlistening \<Rightarrow> unlisten_step x w
   | Exiting \<Rightarrow> w\<lparr>nw_chan := mp_drop_sender ch (nw_chan w), nw_pc := Exited\<rparr>
   | Exited \<Rightarrow> w)"

section \<open>The consumer\<close>

text \<open>
  \<^verbatim>\<open>NotifyTaskIds::poll_next\<close> by its accesses: the failure cell, the channel, and the failure
  cell again before an end of the stream is reported.
\<close>

datatype reader_pc = Idle | Polling | Rechecking | Dropping | Gone

definition reader_step ::
    "'c mpsc \<Rightarrow> reader_pc \<Rightarrow> 'c notify_world \<Rightarrow>
     (error, string) result option poll option \<times> reader_pc \<times> 'c notify_world" where
  "reader_step ch pc w = (case pc of
     Idle \<Rightarrow> (case take_error (nw_errors w) of
       (Some e, p) \<Rightarrow> (Some (PollReady (Some (Inl e))), Idle, w\<lparr>nw_errors := p\<rparr>)
     | (None, p) \<Rightarrow> (None, Polling, w\<lparr>nw_errors := p\<rparr>))
   | Polling \<Rightarrow> (case mp_poll ch (nw_chan w) of
       (PollReady None, c) \<Rightarrow> (None, Rechecking, w\<lparr>nw_chan := c\<rparr>)
     | (PollReady (Some i), c) \<Rightarrow> (Some (PollReady (Some (Inr i))), Idle, w\<lparr>nw_chan := c\<rparr>)
     | (PollPending, c) \<Rightarrow> (Some PollPending, Idle, w\<lparr>nw_chan := c\<rparr>))
   | Rechecking \<Rightarrow> (case take_error (nw_errors w) of
       (Some e, p) \<Rightarrow> (Some (PollReady (Some (Inl e))), Idle, w\<lparr>nw_errors := p\<rparr>)
     | (None, p) \<Rightarrow> (Some (PollReady None), Idle, w\<lparr>nw_errors := p\<rparr>))
   | Dropping \<Rightarrow> (None, Gone, w\<lparr>nw_chan := mp_drop_receiver ch (nw_chan w)\<rparr>)
   | Gone \<Rightarrow> (None, Gone, w))"

text \<open>\<^verbatim>\<open>NotifyTaskIds::drop\<close>; the receiver is dropped after it, with the other fields.\<close>

definition drop_reader :: "'c notify_world \<Rightarrow> reader_pc \<times> 'c notify_world" where
  "drop_reader w = (Dropping, w\<lparr>nw_cancel := True\<rparr>)"

section \<open>Both together\<close>

text \<open>
  The shared state with what an observer records of a run: the answers of the consumer's polls, the ids
  of the queue's events in the order they were read, the failures of the thread, and the failures of its
  \<^verbatim>\<open>UNLISTEN\<close>.
\<close>

record 'c notify_run =
  nr_world :: "'c notify_world"
  nr_reader :: reader_pc
  nr_out :: "(error, string) result option poll list"
  nr_events :: "string list list"
  nr_failures :: "error list"
  nr_unlisten_failures :: "diesel_error list"

definition heard :: "(string \<Rightarrow> insert_event option) \<Rightarrow> string \<Rightarrow> wire \<Rightarrow> 'c notify_world \<Rightarrow> string list list" where
  "heard parse queue x w = (case (nw_pc w, x) of
     (Receiving, Arrived payload) \<Rightarrow> (case parse payload of
        Some ev \<Rightarrow> if \<not> nw_cancel w \<and> fst (into_ids ev) = queue then [snd (into_ids ev)] else []
      | None \<Rightarrow> [])
   | _ \<Rightarrow> [])"

definition failure :: "wire \<Rightarrow> 'c notify_world \<Rightarrow> error list" where
  "failure x w = (case (nw_pc w, x) of
     (Connecting, Refused msg) \<Rightarrow> [Pool msg]
   | (Connecting, ListenFailed e) \<Rightarrow> [Database ''starting PostgreSQL LISTEN notification listener'' e]
   | (Receiving, Broken e) \<Rightarrow> if nw_cancel w then [] else [Database ''receiving PostgreSQL notification'' e]
   | _ \<Rightarrow> [])"

definition unlisten_failure :: "wire \<Rightarrow> 'c notify_world \<Rightarrow> diesel_error list" where
  "unlisten_failure x w = (case (nw_pc w, x) of (Unlistening, UnlistenFailed e) \<Rightarrow> [e] | _ \<Rightarrow> [])"

definition listened ::
    "'c mpsc \<Rightarrow> (string \<Rightarrow> insert_event option) \<Rightarrow> string \<Rightarrow> wire \<Rightarrow> 'c notify_run \<Rightarrow> 'c notify_run" where
  "listened ch parse queue x s = s\<lparr>nr_world := listener_step ch parse queue x (nr_world s),
     nr_events := nr_events s @ heard parse queue x (nr_world s),
     nr_failures := nr_failures s @ failure x (nr_world s),
     nr_unlisten_failures := nr_unlisten_failures s @ unlisten_failure x (nr_world s)\<rparr>"

inductive notify_step ::
    "'c mpsc \<Rightarrow> (string \<Rightarrow> insert_event option) \<Rightarrow> string \<Rightarrow> 'c notify_run \<Rightarrow> 'c notify_run \<Rightarrow> bool"
  for ch :: "'c mpsc" and parse queue where
  listen: "notify_step ch parse queue s (listened ch parse queue x s)"
| read: "reader_step ch (nr_reader s) (nr_world s) = (r, pc, w) \<Longrightarrow>
     notify_step ch parse queue s (s\<lparr>nr_world := w, nr_reader := pc,
       nr_out := nr_out s @ (case r of Some p \<Rightarrow> [p] | None \<Rightarrow> [])\<rparr>)"
| drop: "nr_reader s = Idle \<Longrightarrow> drop_reader (nr_world s) = (pc, w) \<Longrightarrow>
     notify_step ch parse queue s (s\<lparr>nr_world := w, nr_reader := pc\<rparr>)"

definition notify_start :: "'c mpsc \<Rightarrow> nat \<Rightarrow> string option \<Rightarrow> 'c notify_run" where
  "notify_start ch capacity spawn_error =
     \<lparr>nr_world = notify_task_ids ch capacity spawn_error, nr_reader = Idle, nr_out = [], nr_events = [],
      nr_failures = (case spawn_error of None \<Rightarrow> [] | Some msg \<Rightarrow> [NotifyListener msg]), nr_unlisten_failures = []\<rparr>"

definition item_ids :: "(error, string) result option poll \<Rightarrow> string list" where
  "item_ids r = (case r of PollReady (Some (Inr i)) \<Rightarrow> [i] | _ \<Rightarrow> [])"

definition ids_of :: "(error, string) result option poll list \<Rightarrow> string list" where
  "ids_of out = concat (map item_ids out)"

definition errors_of :: "(error, 't) result option poll list \<Rightarrow> error list" where
  "errors_of out = concat (map item_errors out)"

lemma of_append [simp]:
  "ids_of [] = []" "ids_of (xs @ ys) = ids_of xs @ ids_of ys" "ids_of [p] = item_ids p"
  "errors_of [] = []" "errors_of (us @ vs) = errors_of us @ errors_of vs" "errors_of [q] = item_errors q"
  by (simp_all add: ids_of_def errors_of_def)

lemma item_simps [simp]:
  "item_ids (PollReady (Some (Inr i))) = [i]" "item_ids (PollReady (Some (Inl e))) = []"
  "item_ids (PollReady None) = []" "item_ids PollPending = []"
  "item_errors (PollReady (Some (Inr t))) = []" "item_errors (PollReady (Some (Inl e))) = [e]"
  "item_errors (PollReady None) = []" "item_errors PollPending = []"
  by (simp_all add: item_ids_def item_errors_def)

section \<open>A failure of the listener is never hidden\<close>

definition pending_list :: "notification_errors \<Rightarrow> error list" where
  "pending_list p = (case p of Some e \<Rightarrow> [e] | None \<Rightarrow> [])"

definition working :: "listener_pc \<Rightarrow> bool" where
  "working pc \<longleftrightarrow> (case pc of Unlistening \<Rightarrow> False | Exiting \<Rightarrow> False | Exited \<Rightarrow> False | _ \<Rightarrow> True)"

definition failure_inv :: "('c \<Rightarrow> chan_view) \<Rightarrow> 'c notify_run \<Rightarrow> bool" where
  "failure_inv view s \<longleftrightarrow>
     nr_failures s = errors_of (nr_out s) @ pending_list (nw_errors (nr_world s)) \<and>
     length (nr_failures s) \<le> 1 \<and> (working (nw_pc (nr_world s)) \<longrightarrow> nr_failures s = []) \<and>
     (nr_reader s \<noteq> Gone \<longrightarrow> (cv_sender (view (nw_chan (nr_world s))) \<longleftrightarrow> nw_pc (nr_world s) \<noteq> Exited)) \<and>
     (nr_reader s = Rechecking \<longrightarrow> nw_pc (nr_world s) = Exited) \<and>
     (PollReady None \<in> set (nr_out s) \<longrightarrow> nw_pc (nr_world s) = Exited \<and> nw_errors (nr_world s) = None)"

lemmas listener_defs = listener_step_def connect_step_def receive_step_def offer_step_def unlisten_step_def
  fail_listener_def listened_def heard_def failure_def classify_delivery_def

lemma failure_inv_listen:
  assumes fifo: "fifo ch view" and inv: "failure_inv view s"
  shows "failure_inv view (listened ch parse queue x s)"
proof (cases "nw_pc (nr_world s)")
  case Connecting
  with inv show ?thesis
    by (cases x) (auto simp: failure_inv_def listener_defs working_def publish_def pending_list_def error_database_def split: option.splits)
next
  case Looping
  with inv show ?thesis by (auto simp: failure_inv_def listener_defs working_def)
next
  case Receiving
  with inv show ?thesis
    by (cases x) (auto simp: failure_inv_def listener_defs working_def publish_def pending_list_def
        error_database_def split: option.splits prod.splits)
next
  case (Offering ids)
  show ?thesis
  proof (cases ids)
    case Nil
    with Offering inv show ?thesis by (auto simp: failure_inv_def listener_defs working_def)
  next
    case (Cons i js)
    obtain r c where send: "mp_try_send ch (nw_chan (nr_world s)) i = (r, c)" by fastforce
    with fifo_try_send [OF fifo send] have "cv_sender (view c) = cv_sender (view (nw_chan (nr_world s)))"
      by (cases r) auto
    with Offering Cons send inv show ?thesis
      by (cases r) (auto simp: failure_inv_def listener_defs working_def)
  qed
next
  case Unlistening
  with inv show ?thesis by (cases x) (auto simp: failure_inv_def listener_defs working_def)
next
  case Exiting
  with inv fifo_rest(3) [OF fifo] show ?thesis by (auto simp: failure_inv_def listener_defs working_def)
next
  case Exited
  with inv show ?thesis by (auto simp: failure_inv_def listener_defs working_def)
qed

lemma failure_inv_read:
  assumes fifo: "fifo ch view" and inv: "failure_inv view s"
    and step: "reader_step ch (nr_reader s) (nr_world s) = (r, pc, w)"
  shows "failure_inv view (s\<lparr>nr_world := w, nr_reader := pc,
       nr_out := nr_out s @ (case r of Some p \<Rightarrow> [p] | None \<Rightarrow> [])\<rparr>)"
proof (cases "nr_reader s")
  case Polling
  obtain q c where poll: "mp_poll ch (nw_chan (nr_world s)) = (q, c)" by fastforce
  have "cv_sender (view c) = cv_sender (view (nw_chan (nr_world s))) \<and>
      (q = PollReady None \<longrightarrow> \<not> cv_sender (view (nw_chan (nr_world s))))"
    using fifo_poll [OF fifo poll]
    by (cases "cv_items (view (nw_chan (nr_world s)))") (auto split: if_splits)
  with Polling poll step inv show ?thesis
    by (auto simp: failure_inv_def reader_step_def split: poll.splits option.splits)
qed (use step inv in \<open>auto simp: failure_inv_def reader_step_def take_error_def pending_list_def split: option.splits\<close>)

lemma failure_inv_step:
  assumes "notify_step ch parse queue s s'" and "fifo ch view" and "failure_inv view s"
  shows "failure_inv view s'"
  using assms(1)
proof cases
  case (listen x)
  then show ?thesis using failure_inv_listen [OF assms(2,3)] by simp
next
  case (read r pc w)
  then show ?thesis using failure_inv_read [OF assms(2,3)] by simp
next
  case (drop pc w)
  with assms(3) show ?thesis by (auto simp: failure_inv_def drop_reader_def)
qed

lemma failure_inv_start:
  "fifo ch view \<Longrightarrow> failure_inv view (notify_start ch capacity spawn_error)"
  by (auto simp: failure_inv_def notify_start_def notify_task_ids_def publish_def pending_list_def
      working_def fifo_rest split: option.splits)

lemma failure_inv_reachable:
  assumes "fifo ch view" and "(notify_step ch parse queue)\<^sup>*\<^sup>* (notify_start ch capacity spawn_error) s"
  shows "failure_inv view s"
  using assms(2) by (induction rule: rtranclp_induct)
    (auto intro: failure_inv_start [OF assms(1)] failure_inv_step [OF _ assms(1)])

text \<open>
  C18. A failure of the notification listener is never hidden from its consumer, in any interleaving of
  the thread with the accesses of a poll. Every failure (the thread could not start, no connection, no
  subscription, a broken connection) is reported at most once; while one is unreported, the next poll
  reports it, however many ids are buffered; and a stream that reported its end has reported the
  failure before.
\<close>

theorem listener_failure_is_reported:
  assumes "fifo ch view" and "(notify_step ch parse queue)\<^sup>*\<^sup>* (notify_start ch capacity spawn_error) s"
  shows "length (nr_failures s) \<le> 1 \<and> prefix (errors_of (nr_out s)) (nr_failures s) \<and>
    (nr_reader s = Idle \<and> errors_of (nr_out s) \<noteq> nr_failures s \<longrightarrow>
       (\<exists>e \<in> set (nr_failures s). fst (reader_step ch Idle (nr_world s)) = Some (PollReady (Some (Inl e))))) \<and>
    (PollReady None \<in> set (nr_out s) \<longrightarrow> errors_of (nr_out s) = nr_failures s)"
proof -
  note inv = failure_inv_reachable [OF assms, unfolded failure_inv_def]
  then show ?thesis
    by (auto simp: reader_step_def take_error_def pending_list_def split: option.splits)
qed

section \<open>What is delivered\<close>

definition never_full :: "'c mpsc \<Rightarrow> bool" where
  "never_full ch \<longleftrightarrow> (\<forall>c i. fst (mp_try_send ch c i) \<noteq> SendFull)"

text \<open>The events that were offered so far and what was sent of each, with the one being offered last.\<close>

definition sent :: "listener_pc \<Rightarrow> string list list \<Rightarrow> string list list \<Rightarrow> string list list \<Rightarrow> string list list \<Rightarrow> bool" where
  "sent pc qs es ps events \<longleftrightarrow> (case pc of
     Offering rest \<Rightarrow> (\<exists>p. ps = qs @ [p] \<and> events = es @ [p @ rest])
   | _ \<Rightarrow> ps = qs \<and> events = es)"

definition delivery_inv :: "'c mpsc \<Rightarrow> ('c \<Rightarrow> chan_view) \<Rightarrow> 'c notify_run \<Rightarrow> bool" where
  "delivery_inv ch view s \<longleftrightarrow>
     (nr_reader s \<noteq> Gone \<longrightarrow> cv_receiver (view (nw_chan (nr_world s)))) \<and>
     (\<exists>qs es ps. sent (nw_pc (nr_world s)) qs es ps (nr_events s) \<and> list_all2 prefix qs es \<and>
        (never_full ch \<and> cv_receiver (view (nw_chan (nr_world s))) \<longrightarrow> qs = es) \<and>
        prefix (ids_of (nr_out s)) (concat ps) \<and>
        (cv_receiver (view (nw_chan (nr_world s))) \<longrightarrow>
           concat ps = ids_of (nr_out s) @ cv_items (view (nw_chan (nr_world s)))))"

abbreviation receiving :: "('c \<Rightarrow> chan_view) \<Rightarrow> 'c notify_run \<Rightarrow> bool" where
  "receiving view s \<equiv> cv_receiver (view (nw_chan (nr_world s)))"

lemma delivery_invI:
  assumes "nr_reader s \<noteq> Gone \<Longrightarrow> receiving view s"
    and "sent (nw_pc (nr_world s)) qs es ps (nr_events s)" and "list_all2 prefix qs es"
    and "never_full ch \<Longrightarrow> receiving view s \<Longrightarrow> qs = es" and "prefix (ids_of (nr_out s)) (concat ps)"
    and "receiving view s \<Longrightarrow> concat ps = ids_of (nr_out s) @ cv_items (view (nw_chan (nr_world s)))"
  shows "delivery_inv ch view s"
  using assms unfolding delivery_inv_def by blast

lemma delivery_invE:
  assumes "delivery_inv ch view s"
  obtains qs es ps where "nr_reader s \<noteq> Gone \<longrightarrow> receiving view s"
    "sent (nw_pc (nr_world s)) qs es ps (nr_events s)" "list_all2 prefix qs es"
    "never_full ch \<and> receiving view s \<longrightarrow> qs = es" "prefix (ids_of (nr_out s)) (concat ps)"
    "receiving view s \<longrightarrow> concat ps = ids_of (nr_out s) @ cv_items (view (nw_chan (nr_world s)))"
  using assms unfolding delivery_inv_def by blast

lemma delivery_inv_offer:
  assumes fifo: "fifo ch view" and inv: "delivery_inv ch view s" and pc: "nw_pc (nr_world s) = Offering ids"
  shows "delivery_inv ch view (s\<lparr>nr_world := offer_step ch ids (nr_world s)\<rparr>)"
proof -
  let ?c = "nw_chan (nr_world s)"
  from inv obtain qs es ps where at: "nr_reader s \<noteq> Gone \<longrightarrow> receiving view s"
    and st: "sent (nw_pc (nr_world s)) qs es ps (nr_events s)" and pre: "list_all2 prefix qs es"
    and nf: "never_full ch \<and> receiving view s \<longrightarrow> qs = es" and out: "prefix (ids_of (nr_out s)) (concat ps)"
    and items: "receiving view s \<longrightarrow> concat ps = ids_of (nr_out s) @ cv_items (view ?c)"
    by (rule delivery_invE)
  from st pc obtain p where p: "ps = qs @ [p]" "nr_events s = es @ [p @ ids]" by (auto simp: sent_def)
  have pre': "list_all2 prefix (qs @ [p]) (es @ [p @ ids])" using pre by (simp add: list_all2_appendI)
  show ?thesis
  proof (cases ids)
    case Nil
    then show ?thesis
      by (intro delivery_invI [where qs = "qs @ [p]" and es = "es @ [p]" and ps = "qs @ [p]"])
         (use at pre' nf out items p in \<open>simp_all add: offer_step_def sent_def\<close>)
  next
    case (Cons i js)
    obtain r c where send: "mp_try_send ch ?c i = (r, c)" by fastforce
    note view = fifo_try_send [OF fifo send]
    show ?thesis
    proof (cases r)
      case SendOk
      have "prefix (ids_of (nr_out s)) (concat qs @ p @ [i])"
        using out prefix_prefix [of "ids_of (nr_out s)" "concat ps" "[i]"] by (simp add: p)
      with SendOk Cons send view(1) [OF SendOk] show ?thesis
        by (intro delivery_invI [where qs = qs and es = es and ps = "qs @ [p @ [i]]"])
           (use at pre nf items p in \<open>simp_all add: offer_step_def sent_def classify_delivery_def\<close>)
    next
      case SendFull
      have "\<not> never_full ch" using send SendFull by (metis fst_conv never_full_def)
      with SendFull Cons send view(2) [OF SendFull] show ?thesis
        by (intro delivery_invI [where qs = "qs @ [p]" and es = "es @ [p @ ids]" and ps = "qs @ [p]"])
           (use at pre' out items p in \<open>simp_all add: offer_step_def sent_def classify_delivery_def\<close>)
    next
      case SendDisconnected
      with Cons send view(3) [OF SendDisconnected] show ?thesis
        by (intro delivery_invI [where qs = "qs @ [p]" and es = "es @ [p @ ids]" and ps = "qs @ [p]"])
           (use at pre' out items p in \<open>simp_all add: offer_step_def sent_def classify_delivery_def\<close>)
    qed
  qed
qed

text \<open>Steps that neither read an event nor offer an id, and the one that reads an event.\<close>

lemma sent_plain: "(\<And>ids. pc \<noteq> Offering ids) \<Longrightarrow> sent pc qs es ps events \<longleftrightarrow> ps = qs \<and> events = es"
  by (cases pc) (auto simp: sent_def)

lemma delivery_inv_plain:
  assumes inv: "delivery_inv ch view s" and "\<And>ids. nw_pc (nr_world s) \<noteq> Offering ids" and "\<And>ids. nw_pc w \<noteq> Offering ids"
    and "cv_items (view (nw_chan w)) = cv_items (view (nw_chan (nr_world s)))"
    and "cv_receiver (view (nw_chan w)) = cv_receiver (view (nw_chan (nr_world s)))"
  shows "delivery_inv ch view (s\<lparr>nr_world := w, nr_failures := fs\<rparr>)"
  using inv
proof (rule delivery_invE)
  fix qs es ps
  assume "sent (nw_pc (nr_world s)) qs es ps (nr_events s)" "list_all2 prefix qs es"
    "nr_reader s \<noteq> Gone \<longrightarrow> receiving view s" "never_full ch \<and> receiving view s \<longrightarrow> qs = es"
    "prefix (ids_of (nr_out s)) (concat ps)"
    "receiving view s \<longrightarrow> concat ps = ids_of (nr_out s) @ cv_items (view (nw_chan (nr_world s)))"
  then show ?thesis
    by (intro delivery_invI [where qs = qs and es = es and ps = ps])
       (simp_all add: assms(4,5) sent_plain [OF assms(2)] sent_plain [OF assms(3)])
qed

lemma delivery_inv_heard:
  assumes inv: "delivery_inv ch view s" and pc: "nw_pc (nr_world s) = Receiving"
  shows "delivery_inv ch view (s\<lparr>nr_world := (nr_world s)\<lparr>nw_pc := Offering ids\<rparr>, nr_events := nr_events s @ [ids]\<rparr>)"
  using inv
proof (rule delivery_invE)
  fix qs es ps
  assume "sent (nw_pc (nr_world s)) qs es ps (nr_events s)" "list_all2 prefix qs es"
    "nr_reader s \<noteq> Gone \<longrightarrow> receiving view s" "never_full ch \<and> receiving view s \<longrightarrow> qs = es"
    "prefix (ids_of (nr_out s)) (concat ps)"
    "receiving view s \<longrightarrow> concat ps = ids_of (nr_out s) @ cv_items (view (nw_chan (nr_world s)))"
  then show ?thesis
    by (intro delivery_invI [where qs = qs and es = es and ps = "ps @ [[]]"])
       (simp_all add: pc sent_plain [of Receiving], simp_all add: sent_def)
qed

lemma delivery_inv_listen:
  assumes fifo: "fifo ch view" and inv: "delivery_inv ch view s"
  shows "delivery_inv ch view (listened ch parse queue x s)"
proof -
  note plain = delivery_inv_plain [OF inv, of _ "nr_failures s", simplified]
  have "delivery_inv ch view (s\<lparr>nr_world := listener_step ch parse queue x (nr_world s),
      nr_events := nr_events s @ heard parse queue x (nr_world s)\<rparr>)"
  proof (cases "nw_pc (nr_world s)")
    case (Offering ids)
    with delivery_inv_offer [OF fifo inv Offering] show ?thesis
      by (simp add: listener_step_def heard_def)
  next
    case Receiving
    show ?thesis
    proof (cases "heard parse queue x (nr_world s)")
      case Nil
      with Receiving show ?thesis
        by (auto intro!: plain simp: inv listener_defs split: wire.splits option.splits prod.splits if_splits)
    next
      case (Cons ids rest)
      then have "rest = []" and "listener_step ch parse queue x (nr_world s) = (nr_world s)\<lparr>nw_pc := Offering ids\<rparr>"
        using Receiving by (auto simp: listener_defs case_prod_beta split: wire.splits option.splits if_splits)
      with delivery_inv_heard [OF inv Receiving] Cons show ?thesis by simp
    qed
  qed (use fifo_rest(3) [OF fifo] in
        \<open>auto intro!: plain simp: inv listener_defs split: wire.splits\<close>)
  then show ?thesis by (simp add: delivery_inv_def listened_def)
qed

lemma delivery_inv_read:
  assumes fifo: "fifo ch view" and inv: "delivery_inv ch view s"
    and step: "reader_step ch (nr_reader s) (nr_world s) = (r, pc, w)"
  shows "delivery_inv ch view (s\<lparr>nr_world := w, nr_reader := pc,
       nr_out := nr_out s @ (case r of Some p \<Rightarrow> [p] | None \<Rightarrow> [])\<rparr>)"
  using inv
proof (rule delivery_invE)
  fix qs es ps
  assume *: "sent (nw_pc (nr_world s)) qs es ps (nr_events s)" "list_all2 prefix qs es"
    "nr_reader s \<noteq> Gone \<longrightarrow> receiving view s" "never_full ch \<and> receiving view s \<longrightarrow> qs = es"
    "prefix (ids_of (nr_out s)) (concat ps)"
    "receiving view s \<longrightarrow> concat ps = ids_of (nr_out s) @ cv_items (view (nw_chan (nr_world s)))"
  note intro = delivery_invI [where qs = qs and es = es and ps = ps]
  show ?thesis
  proof (cases "nr_reader s")
    case Polling
    obtain q c where poll: "mp_poll ch (nw_chan (nr_world s)) = (q, c)" by fastforce
    with Polling step * fifo_poll [OF fifo poll] show ?thesis
      by (cases "cv_items (view (nw_chan (nr_world s)))")
         (auto intro!: intro simp: reader_step_def split: if_splits)
  next
    case Dropping
    with step * fifo_rest(4) [OF fifo] show ?thesis by (auto intro!: intro simp: reader_step_def)
  qed (use step * in \<open>auto intro!: intro simp: reader_step_def take_error_def split: option.splits\<close>)
qed

lemma delivery_inv_step:
  assumes "notify_step ch parse queue s s'" and "fifo ch view" and "delivery_inv ch view s"
  shows "delivery_inv ch view s'"
  using assms(1)
proof cases
  case (listen x)
  then show ?thesis using delivery_inv_listen [OF assms(2,3)] by simp
next
  case (read r pc w)
  then show ?thesis using delivery_inv_read [OF assms(2,3)] by simp
next
  case (drop pc w)
  then have "s' = s\<lparr>nr_world := (nr_world s)\<lparr>nw_cancel := True\<rparr>, nr_reader := Dropping\<rparr>"
    by (simp add: drop_reader_def)
  with assms(3) drop(2) show ?thesis by (simp add: delivery_inv_def cong: conj_cong)
qed

lemma delivery_inv_start: "fifo ch view \<Longrightarrow> delivery_inv ch view (notify_start ch capacity spawn_error)"
  by (rule delivery_invI [where qs = "[]" and es = "[]" and ps = "[]"])
     (cases spawn_error; auto simp: notify_start_def notify_task_ids_def fifo_rest sent_def)+

text \<open>
  C19. What a consumer receives is what was announced. In any interleaving, the ids it received followed
  by the ids still buffered are the announcements of its queue in the order they arrived, each cut at
  most at its end: a full channel drops the rest of one announcement, never an id in the middle, never
  the order, and never an id of another queue. Nothing at all is dropped while the channel has room.
\<close>

theorem notified_ids_are_announced:
  assumes "fifo ch view" and "(notify_step ch parse queue)\<^sup>*\<^sup>* (notify_start ch capacity spawn_error) s"
  shows "\<exists>ps. list_all2 prefix ps (nr_events s) \<and> prefix (ids_of (nr_out s)) (concat ps) \<and>
    (receiving view s \<longrightarrow> concat ps = ids_of (nr_out s) @ cv_items (view (nw_chan (nr_world s)))) \<and>
    ((\<forall>c i. fst (mp_try_send ch c i) \<noteq> SendFull) \<and> receiving view s \<and>
       (\<forall>ids. nw_pc (nr_world s) \<noteq> Offering ids) \<longrightarrow> ps = nr_events s)"
proof -
  have "delivery_inv ch view s"
    using assms(2) by (induction rule: rtranclp_induct)
      (auto intro: delivery_inv_start [OF assms(1)] delivery_inv_step [OF _ assms(1)])
  then show ?thesis
  proof (rule delivery_invE)
    fix qs es ps
    assume *: "sent (nw_pc (nr_world s)) qs es ps (nr_events s)" "list_all2 prefix qs es"
      "never_full ch \<and> receiving view s \<longrightarrow> qs = es" "prefix (ids_of (nr_out s)) (concat ps)"
      "receiving view s \<longrightarrow> concat ps = ids_of (nr_out s) @ cv_items (view (nw_chan (nr_world s)))"
    have "list_all2 prefix ps (nr_events s)"
      using *(1,2) by (auto simp: sent_def list_all2_appendI split: listener_pc.splits)
    with * sent_plain [of "nw_pc (nr_world s)" qs es ps "nr_events s"] show ?thesis
      by (intro exI [of _ ps]) (auto simp: never_full_def)
  qed
qed

section \<open>The thread ends\<close>

















end
