(* ===== verification/Batching.thy ===== *)
theory Batching
  imports Notify
begin

text \<open>
  From notified ids to claimed tasks (\<^verbatim>\<open>batch_ids_into_tasks\<close> of \<^verbatim>\<open>src/queries/mod.rs\<close>
  and the pipeline of \<^verbatim>\<open>src/fetcher.rs\<close> the two notify-driven modes share). How a stream of ids
  is cut into chunks is the business of \<^verbatim>\<open>try_ready_chunks\<close> of the \<^verbatim>\<open>futures\<close> crate:
  the chunks are given, and their documented relation to the stream is a hypothesis.
\<close>

section \<open>Chunks of ids\<close>

text \<open>A chunk: ids that were ready together, or ids and the error that cut them off.\<close>

type_synonym chunk = "(string list \<times> error, string list) result"

fun unchunk :: "chunk list \<Rightarrow> (error, string) result list" where
  "unchunk [] = []"
| "unchunk (Inr ids # cs) = map Inr ids @ unchunk cs"
| "unchunk (Inl (ids, e) # cs) = map Inr ids @ Inl e # unchunk cs"

definition batch_chunk ::
    "foreign \<Rightarrow> string \<Rightarrow> string \<Rightarrow> string option \<Rightarrow> chunk \<Rightarrow> pg \<Rightarrow> item list \<times> pg" where
  "batch_chunk fx queue worker_id token chunk g =
     (let (ids, failure) = (case chunk of Inr ids \<Rightarrow> (ids, None) | Inl (ids, e) \<Rightarrow> (ids, Some e));
          failures = (case failure of Some e \<Rightarrow> [Inl e] | None \<Rightarrow> []);
          (tasks, g1) = (if ids = [] then (Inr [], g) else queue_by_id fx queue ids worker_id token g)
      in (failures @ (case tasks of Inr ts \<Rightarrow> map (\<lambda>t. Inr (Some t)) ts | Inl e \<Rightarrow> [Inl e]), g1))"

fun batch_ids_into_tasks ::
    "foreign \<Rightarrow> string \<Rightarrow> string \<Rightarrow> string option \<Rightarrow> chunk list \<Rightarrow> pg \<Rightarrow> item list \<times> pg" where
  "batch_ids_into_tasks fx queue worker_id token [] g = ([], g)"
| "batch_ids_into_tasks fx queue worker_id token (chunk # chunks) g =
     (let (out, g1) = batch_chunk fx queue worker_id token chunk g;
          (outs, g2) = batch_ids_into_tasks fx queue worker_id token chunks g1
      in (out @ outs, g2))"

section \<open>The pipeline of the notify-driven modes\<close>

text \<open>
  \<^verbatim>\<open>notify_backed_compact_stream\<close>: behind the registration gate, the batching fetcher merged
  with the polling one by \<^verbatim>\<open>futures::stream::select\<close>, a parameter.
\<close>

definition notify_backed_compact_stream ::
    "(('l, proc, item) stream \<Rightarrow> (poll_fetcher, proc, item) stream \<Rightarrow> ('l \<times> poll_fetcher, proc, item) stream) \<Rightarrow>
     ('l, proc, item) stream \<Rightarrow> foreign \<Rightarrow> string \<Rightarrow> string \<Rightarrow>
     (gate \<times> 'l \<times> poll_fetcher, proc, item) stream" where
  "notify_backed_compact_stream select lazy_fetcher fx storage_name token s st =
     register_then_stream
       (on_pg (initial_heartbeat (pf_config (snd (snd s))) (pf_worker (snd (snd s))) storage_name token))
       (select lazy_fetcher (\<lambda>f. poll_next (on_pg (fetch_of fx f)) f)) s st"

section \<open>Announced tasks are claimed\<close>

lemma with_claim_conn_onward:
  assumes "keeps onward work" and "with_claim_conn op has work g = (r, g')"
  shows "onward g g'"
proof -
  have k: "keeps onward (with_conn (transaction (sbind work (\<lambda>v g. (Inr v, g\<lparr>pg_claimed := has v\<rparr>)))))"
    by (intro on.keeps_with_conn on.keeps_transaction on.keeps_sbind assms(1))
       (simp add: keeps_def onward_def)
  obtain r1 g1 where run: "with_conn (transaction (sbind work (\<lambda>v g. (Inr v, g\<lparr>pg_claimed := has v\<rparr>))))
      (g\<lparr>pg_claimed := False\<rparr>) = (r1, g1)" by fastforce
  have "onward (g\<lparr>pg_claimed := False\<rparr>) g1" using keepsD_run [OF k run] .
  moreover have "g1 = g'" using assms(2) run by (simp add: with_claim_conn_def)
  ultimately show ?thesis by (simp add: onward_def)
qed

lemma queue_by_id_onward: "queue_by_id fx q ids w t g = (r, g') \<Longrightarrow> onward g g'"
  unfolding queue_by_id_def by (rule with_claim_conn_onward [OF keeps_claim_work])

lemma queue_by_id_returns:
  assumes quiet: "quiet g" and ok: "db_ok (pg_db g)"
    and reg: "find_worker w q (pg_db g) = Some r" "t = None \<or> w_lease_token r = t"
  shows "\<exists>tasks g'. queue_by_id fx q ids w t g = (Inr tasks, g')"
proof -
  let ?c = "notified_jobs q ids" and ?g = "g\<lparr>pg_claimed := False\<rparr>"
  have g: "quiet ?g" "pg_db ?g = pg_db g" using quiet by (simp_all add: quiet_def)
  have cl: "claim_list (jobs (pg_db ?g)) (?c ?g)" using ok by (intro notified_jobs_claim_list) simp
  have inq: "\<forall>j \<in> set (?c ?g). j_job_type j = q" by (auto simp: notified_jobs_def due_def)
  obtain gm where m: "claim_stmt ''claiming notified jobs'' w ?c ?g = (Inr (map (claim_row w (pg_now ?g)) (?c ?g)), gm)"
    "quiet gm" "\<forall>j \<in> set (jobs (pg_db gm)). job_checks j"
    using claim_stmt_quiet [of ?g w q r ?c "''claiming notified jobs''"] g cl inq ok reg(1) by auto
  obtain tasks gn where n: "claimed_tasks fx (map (claim_row w (pg_now ?g)) (?c ?g)) gm = (Inr tasks, gn)" "quiet gn"
    using claimed_tasks_quiet [OF m(2,3)] by blast
  have "claim_work fx w q t ''claiming notified jobs'' ?c ?g = (Inr tasks, gn)"
    using require_worker_quiet [OF g(1), of w q r t] reg m(1) n(1) by simp
  then show ?thesis
    using claim_conn_quiet [OF quiet, of "claim_work fx w q t ''claiming notified jobs'' ?c"] n(2)
    unfolding queue_by_id_def by blast
qed

text \<open>
  What a run of the batching owes a row that was due when it began: the row is held by the worker and
  its task was handed over, or it does not convert and is killed.
\<close>

definition answered :: "foreign \<Rightarrow> string \<Rightarrow> job_row \<Rightarrow> compact task list \<Rightarrow> job_row list \<Rightarrow> bool" where
  "answered fx w j tasks js \<longleftrightarrow>
     (\<exists>at. \<not> malformed fx (claimed_by w at j) \<and> claimed_by w at j \<in> set js \<and>
        (\<exists>task \<in> set tasks. task_of fx (claimed_by w at j) task)) \<or>
     (\<exists>at. malformed fx (claimed_by w at j) \<and> (\<exists>k \<in> set js. j_id k = j_id j \<and> j_status k = Killed))"

lemma answered_mono:
  assumes "answered fx w j ts js" and "\<And>k. k \<in> set js \<Longrightarrow> \<not> claimable k \<Longrightarrow> k \<in> set js'" and "set ts \<subseteq> set ts'"
  shows "answered fx w j ts' js'"
proof -
  have "\<not> claimable (claimed_by w at j)" for at by (simp add: claimable_def)
  moreover have "\<not> claimable k" if "j_status k = Killed" for k using that by (simp add: claimable_def)
  ultimately show ?thesis using assms unfolding answered_def by blast
qed

lemma queue_by_id_answers:
  assumes run: "queue_by_id fx q ids w t g = (Inr tasks, g')" and ok: "db_ok (pg_db g)"
  shows "workers (pg_db g') = workers (pg_db g)"
    and "j \<in> set (jobs (pg_db g)) \<Longrightarrow> j_id j \<notin> set ids \<or> \<not> claimable j \<Longrightarrow> j \<in> set (jobs (pg_db g'))"
    and "j \<in> set (jobs (pg_db g)) \<Longrightarrow> due q (pg_now g) j \<Longrightarrow> unlocked g j \<Longrightarrow> j_id j \<in> set ids \<Longrightarrow>
           answered fx w j tasks (jobs (pg_db g'))"
proof -
  from run obtain g1 where l: "later g g1" and wk: "workers (pg_db g') = workers (pg_db g)"
    and eff: "claim_effect fx w (pg_now g1) (notified_jobs q ids g1) (jobs (pg_db g)) (jobs (pg_db g'))"
    and ts: "list_all2 (task_of fx) (filter (\<lambda>r. \<not> malformed fx r)
       (map (claim_row w (pg_now g1)) (notified_jobs q ids g1))) tasks"
    unfolding queue_by_id_def by (rule claim_conn_effect [OF _ ok notified_jobs_eligible])
  show "workers (pg_db g') = workers (pg_db g)" by (rule wk)
  have db: "pg_db g1 = pg_db g" by (rule laterD(1) [OF l])
  have mem: "k \<in> set (notified_jobs q ids g1) \<longleftrightarrow>
      k \<in> set (jobs (pg_db g)) \<and> due q (pg_now g1) k \<and> unlocked g1 k \<and> j_id k \<in> set ids" for k
    by (auto simp: notified_jobs_def db)
  show "j \<in> set (jobs (pg_db g'))" if "j \<in> set (jobs (pg_db g))" "j_id j \<notin> set ids \<or> \<not> claimable j"
    using eff that mem [of j] by (auto simp: claim_effect_def due_def)
  assume j: "j \<in> set (jobs (pg_db g))" "due q (pg_now g) j" "unlocked g j" "j_id j \<in> set ids"
  let ?row = "claim_row w (pg_now g1) j"
  have "due q (pg_now g1) j" using j(2) laterD(5) [OF l] by (auto simp: due_def)
  moreover have "unlocked g1 j" using j(3) laterD(2) [OF l] by (simp add: unlocked_def)
  ultimately have c: "j \<in> set (notified_jobs q ids g1)" using mem j by blast
  from eff j(1) c have e: "if malformed fx ?row
      then \<exists>at \<ge> pg_now g1. quarantined_row (malformed_result fx ?row) at ?row \<in> set (jobs (pg_db g'))
      else ?row \<in> set (jobs (pg_db g'))" by (simp add: claim_effect_def)
  show "answered fx w j tasks (jobs (pg_db g'))"
  proof (cases "malformed fx ?row")
    case True
    with e obtain at where "quarantined_row (malformed_result fx ?row) at ?row \<in> set (jobs (pg_db g'))"
      by auto
    moreover have "j_status (quarantined_row (malformed_result fx ?row) at ?row) = Killed"
      "j_id (quarantined_row (malformed_result fx ?row) at ?row) = j_id j"
      by (simp_all add: quarantined_row_def claim_row_def)
    ultimately show ?thesis using True unfolding answered_def claim_row_eq by blast
  next
    case False
    with e have "?row \<in> set (jobs (pg_db g'))" by simp
    moreover have "?row \<in> set (filter (\<lambda>r. \<not> malformed fx r) (map (claim_row w (pg_now g1)) (notified_jobs q ids g1)))"
      using False c by simp
    then obtain task where "task \<in> set tasks" "task_of fx ?row task"
      using ts by (metis (no_types, lifting) in_set_conv_nth list_all2_conv_all_nth)
    ultimately show ?thesis using False unfolding answered_def claim_row_eq by blast
  qed
qed

definition lefts :: "('e, 'a) result list \<Rightarrow> 'e list" where
  "lefts xs = concat (map (\<lambda>x. case x of Inl e \<Rightarrow> [e] | Inr _ \<Rightarrow> []) xs)"

definition claimed_items :: "item list \<Rightarrow> compact task list" where
  "claimed_items xs = concat (map (\<lambda>x. case x of Inr (Some t) \<Rightarrow> [t] | _ \<Rightarrow> []) xs)"

lemma lefts_simps [simp]:
  "lefts [] = []" "lefts (Inl e # xs) = e # lefts xs" "lefts (Inr a # xs) = lefts xs"
  "lefts (xs @ ys) = lefts xs @ lefts ys" "lefts (map Inr as @ ys) = lefts ys" "lefts (map (\<lambda>t. Inr (f t)) as) = []"
  by (simp_all add: lefts_def comp_def)

lemma claimed_items_simps [simp]:
  "claimed_items [] = []" "claimed_items (Inl e # xs) = claimed_items xs" "claimed_items (xs @ ys) = claimed_items xs @ claimed_items ys"
  "claimed_items (map (\<lambda>t. Inr (Some t)) ts) = ts"
  by (simp_all add: claimed_items_def comp_def)

text \<open>The two parts of a chunk.\<close>

definition chunk_ids :: "chunk \<Rightarrow> string list" where
  "chunk_ids c = (case c of Inr ids \<Rightarrow> ids | Inl (ids, _) \<Rightarrow> ids)"

definition chunk_errors :: "chunk \<Rightarrow> error list" where
  "chunk_errors c = (case c of Inr _ \<Rightarrow> [] | Inl (_, e) \<Rightarrow> [e])"

lemma unchunk_Cons: "unchunk (c # cs) = map Inr (chunk_ids c) @ map Inl (chunk_errors c) @ unchunk cs"
  by (cases c) (auto simp: chunk_ids_def chunk_errors_def)

lemma batch_chunk_answers:
  assumes quiet: "quiet g" and inv: "db_inv (pg_db g)"
    and reg: "find_worker w q (pg_db g) = Some r" "t = None \<or> w_lease_token r = t"
    and run: "batch_chunk fx q w t c g = (out, g')"
  shows "onward g g' \<and> db_inv (pg_db g') \<and> workers (pg_db g') = workers (pg_db g) \<and> lefts out = chunk_errors c \<and>
    (\<forall>j \<in> set (jobs (pg_db g)). j_id j \<notin> set (chunk_ids c) \<or> \<not> claimable j \<longrightarrow> j \<in> set (jobs (pg_db g'))) \<and>
    (\<forall>j \<in> set (jobs (pg_db g)). due q (pg_now g) j \<and> unlocked g j \<and> j_id j \<in> set (chunk_ids c) \<longrightarrow>
       answered fx w j (claimed_items out) (jobs (pg_db g')))"
proof -
  have ok: "db_ok (pg_db g)" using inv ..
  define fs where "fs = map (Inl :: error \<Rightarrow> item) (chunk_errors c)"
  have fs: "lefts fs = chunk_errors c" "claimed_items fs = []"
    by (cases c; auto simp: fs_def chunk_errors_def)+
  show ?thesis
  proof (cases "chunk_ids c = []")
    case True
    with run have "out = fs" "g' = g" by (cases c; auto simp: batch_chunk_def chunk_ids_def chunk_errors_def fs_def)+
    with True fs inv show ?thesis by (simp add: on.refl)
  next
    case False
    obtain tasks where q: "queue_by_id fx q (chunk_ids c) w t g = (Inr tasks, g')"
      and out: "out = fs @ map (\<lambda>t. Inr (Some t)) tasks"
    proof -
      from queue_by_id_returns [OF quiet ok reg] obtain tasks g1 where
        "queue_by_id fx q (chunk_ids c) w t g = (Inr tasks, g1)" by blast
      with run False that show thesis
        by (cases c; auto simp: batch_chunk_def chunk_ids_def chunk_errors_def fs_def)
    qed
    have "db_inv (pg_db g')" using ensuresD_run [OF queue_by_id_lifecycle q] inv by (simp add: lifecycle_def)
    with queue_by_id_onward [OF q] queue_by_id_answers [OF q ok] show ?thesis by (simp add: out fs)
  qed
qed

lemma batch_answers:
  assumes "quiet g" and "db_inv (pg_db g)"
    and "find_worker w q (pg_db g) = Some r" and "t = None \<or> w_lease_token r = t"
    and "batch_ids_into_tasks fx q w t chunks g = (outs, g')"
  shows "lefts outs = lefts (unchunk chunks) \<and>
    (\<forall>j \<in> set (jobs (pg_db g)). \<not> claimable j \<longrightarrow> j \<in> set (jobs (pg_db g'))) \<and>
    (\<forall>j \<in> set (jobs (pg_db g)). due q (pg_now g) j \<and> unlocked g j \<and> Inr (j_id j) \<in> set (unchunk chunks) \<longrightarrow>
       answered fx w j (claimed_items outs) (jobs (pg_db g')))"
  using assms
proof (induction chunks arbitrary: g outs)
  case (Cons c cs)
  obtain out g1 where c: "batch_chunk fx q w t c g = (out, g1)" by fastforce
  obtain rest g2 where rest: "batch_ids_into_tasks fx q w t cs g1 = (rest, g2)" by fastforce
  have eq: "outs = out @ rest" "g2 = g'" using Cons.prems(5) c rest by simp_all
  note rest = rest [unfolded eq(2)]
  note one = batch_chunk_answers [OF Cons.prems(1-4) c]
  have "quiet g1" "find_worker w q (pg_db g1) = Some r"
    using one Cons.prems(1,3) quiet_onward by (auto simp: find_worker_def)
  with Cons.IH [OF _ _ _ Cons.prems(4) rest] one have two: "lefts rest = lefts (unchunk cs)"
    "\<And>j. j \<in> set (jobs (pg_db g1)) \<Longrightarrow> \<not> claimable j \<Longrightarrow> j \<in> set (jobs (pg_db g'))"
    "\<And>j. j \<in> set (jobs (pg_db g1)) \<Longrightarrow> due q (pg_now g1) j \<Longrightarrow> unlocked g1 j \<Longrightarrow> Inr (j_id j) \<in> set (unchunk cs) \<Longrightarrow>
       answered fx w j (claimed_items rest) (jobs (pg_db g'))"
    by blast+
  have "answered fx w j (claimed_items outs) (jobs (pg_db g'))"
    if j: "j \<in> set (jobs (pg_db g))" "due q (pg_now g) j" "unlocked g j" "Inr (j_id j) \<in> set (unchunk (c # cs))" for j
  proof (cases "j_id j \<in> set (chunk_ids c)")
    case True
    with one j have "answered fx w j (claimed_items out) (jobs (pg_db g1))" by blast
    then show ?thesis by (rule answered_mono) (use two(2) eq in auto)
  next
    case False
    then have "Inr (j_id j) \<in> set (unchunk cs)" using j(4) by (auto simp: unchunk_Cons)
    moreover have "j \<in> set (jobs (pg_db g1))" using one j(1) False by blast
    moreover have "due q (pg_now g1) j" "unlocked g1 j"
      using one j(2,3) by (auto simp: onward_def due_def unlocked_def)
    ultimately have "answered fx w j (claimed_items rest) (jobs (pg_db g'))" by (rule two(3) [rotated 3])
    then show ?thesis by (rule answered_mono) (use eq in auto)
  qed
  moreover have "lefts outs = lefts (unchunk (c # cs))"
    using one two(1) by (cases c) (auto simp: eq chunk_errors_def)
  ultimately show ?case using one two(2) eq by blast
qed simp

text \<open>
  C20. Announced tasks are claimed, on either side of a listener failure. On a connection where nothing
  fails, under a current registration, every due task of the queue whose id came through the stream of
  ids and that no other session holds is claimed by the worker and handed over, or quarantined when it
  does not convert; and the failures of the stream, and no others, come out in their order.
\<close>

theorem announced_tasks_are_claimed:
  assumes "quiet g" and "db_inv (pg_db g)"
    and "find_worker w q (pg_db g) = Some r" and "t = None \<or> w_lease_token r = t"
    and "unchunk chunks = input" and "batch_ids_into_tasks fx q w t chunks g = (outs, g')"
  shows "lefts outs = lefts input \<and>
    (\<forall>j \<in> set (jobs (pg_db g)). due q (pg_now g) j \<and> unlocked g j \<and> Inr (j_id j) \<in> set input \<longrightarrow>
       answered fx w j (claimed_items outs) (jobs (pg_db g')))"
  using batch_answers [OF assms(1-4,6)] assms(5) by blast

end
