(* ===== verification/Shared.thy ===== *)
theory Shared
  imports Batching "HOL-Library.AList"
begin

text \<open>
  The shared listener (\<^verbatim>\<open>src/shared.rs\<close>): one thread and one connection serve the consumers of
  any number of queues through a registry of senders. The registry is guarded by a mutex, so every
  critical section is one step; between them the listener threads, the registering callers and the
  dropping consumers interleave freely. A panic of a lock holder may poison the mutex at any time.
\<close>

section \<open>The registry\<close>

text \<open>
  The registry maps a queue to the identities of its registrations; a registration's sender and failure
  cell are found by its identity. Its receiver is the other end of the same channel. Beside the shared
  memory the state holds what the other parties are about: the listener threads, the callers that claimed
  the spawn and have not spawned yet, the consumers by their queue, those that dropped their receiver and
  still have to prune their entry, the identities given out, and, recorded from outside, the errors that
  consumers read from their polls since a listener last stopped.
\<close>

type_synonym registry_map = "(string \<times> string list) list"

datatype shared_pc = Starting | Draining | Checking | Closing | Dead

datatype shared_postgres_error = RegistryLocked

record 'c shared_state =
  ss_registry :: registry_map
  ss_poisoned :: bool
  ss_listener_alive :: bool
  ss_chan :: "string \<Rightarrow> 'c"
  ss_errors :: "string \<Rightarrow> notification_errors"
  ss_threads :: "shared_pc list"
  ss_spawning :: nat
  ss_consumers :: "string \<rightharpoonup> string"
  ss_leaving :: "string \<rightharpoonup> string"
  ss_heard :: "(string \<times> error) list"
  ss_used :: "string list"

text \<open>\<^verbatim>\<open>SharedPostgresStorage::new\<close>.\<close>

definition shared_new :: "'c mpsc \<Rightarrow> 'c shared_state" where
  "shared_new ch = \<lparr>ss_registry = [], ss_poisoned = False, ss_listener_alive = False,
     ss_chan = (\<lambda>_. mp_channel ch 1), ss_errors = (\<lambda>_. None), ss_threads = [], ss_spawning = 0,
     ss_consumers = (\<lambda>_. None), ss_leaving = (\<lambda>_. None), ss_heard = [], ss_used = []\<rparr>"

definition queue_senders :: "string \<Rightarrow> registry_map \<Rightarrow> string list" where
  "queue_senders q reg = (case map_of reg q of Some rs \<Rightarrow> rs | None \<Rightarrow> [])"

text \<open>Writing back a queue's senders: an empty list removes the entry.\<close>

definition put_senders :: "string \<Rightarrow> string list \<Rightarrow> registry_map \<Rightarrow> registry_map" where
  "put_senders q rs reg = (if rs = [] then AList.delete q reg else AList.update q rs reg)"

text \<open>\<^verbatim>\<open>retain_mut\<close> of one id over a queue's senders: a disconnected sender is pruned and dropped.\<close>

fun retain_senders :: "'c mpsc \<Rightarrow> string \<Rightarrow> string list \<Rightarrow> (string \<Rightarrow> 'c) \<Rightarrow> string list \<times> (string \<Rightarrow> 'c)" where
  "retain_senders ch i [] chans = ([], chans)"
| "retain_senders ch i (r # rs) chans =
     (case mp_try_send ch (chans r) i of
        (SendDisconnected, c) \<Rightarrow> retain_senders ch i rs (chans(r := mp_drop_sender ch c))
      | (_, c) \<Rightarrow> (case retain_senders ch i rs (chans(r := c)) of (kept, chans') \<Rightarrow> (r # kept, chans')))"

fun deliver_ids :: "'c mpsc \<Rightarrow> string list \<Rightarrow> string list \<Rightarrow> (string \<Rightarrow> 'c) \<Rightarrow> string list \<times> (string \<Rightarrow> 'c)" where
  "deliver_ids ch [] rs chans = (rs, chans)"
| "deliver_ids ch (i # is) rs chans =
     (case retain_senders ch i rs chans of (kept, chans') \<Rightarrow> deliver_ids ch is kept chans')"

definition deliver_to_queue :: "'c mpsc \<Rightarrow> string \<Rightarrow> string list \<Rightarrow> 'c shared_state \<Rightarrow> 'c shared_state" where
  "deliver_to_queue ch queue ids s = (case map_of (ss_registry s) queue of
     None \<Rightarrow> s
   | Some rs \<Rightarrow> (case deliver_ids ch ids rs (ss_chan s) of (kept, chans) \<Rightarrow>
       s\<lparr>ss_registry := put_senders queue kept (ss_registry s), ss_chan := chans\<rparr>))"

definition listener_should_exit :: "registry_map \<Rightarrow> bool" where
  "listener_should_exit reg \<longleftrightarrow> reg = []"

definition claim_listener_spawn :: "bool \<Rightarrow> bool \<times> bool" where
  "claim_listener_spawn alive = (\<not> alive, True)"

text \<open>
  \<^verbatim>\<open>broadcast_notify_error_locked\<close>: every sender that is still open is told; a closed one is
  pruned and dropped, and so is a queue without senders.
\<close>

definition open_senders :: "'c mpsc \<Rightarrow> (string \<Rightarrow> 'c) \<Rightarrow> string list \<Rightarrow> string list" where
  "open_senders ch chans rs = filter (\<lambda>r. \<not> mp_is_closed ch (chans r)) rs"

definition broadcast_notify_error_locked :: "'c mpsc \<Rightarrow> string \<Rightarrow> 'c shared_state \<Rightarrow> 'c shared_state" where
  "broadcast_notify_error_locked ch msg s =
     (let all = concat (map snd (ss_registry s)); told = open_senders ch (ss_chan s) all in
      s\<lparr>ss_registry := filter (\<lambda>(q, rs). rs \<noteq> []) (map (\<lambda>(q, rs). (q, open_senders ch (ss_chan s) rs)) (ss_registry s)),
        ss_errors := (\<lambda>r. if r \<in> set told then publish (NotifyListener msg) (ss_errors s r) else ss_errors s r),
        ss_chan := (\<lambda>r. if r \<in> set all \<and> r \<notin> set told then mp_drop_sender ch (ss_chan s r) else ss_chan s r)\<rparr>)"

definition exit_listener :: "'c mpsc \<Rightarrow> string \<Rightarrow> 'c shared_state \<Rightarrow> 'c shared_state" where
  "exit_listener ch msg s =
     (if ss_poisoned s then s\<lparr>ss_listener_alive := False\<rparr>
      else (broadcast_notify_error_locked ch msg s)\<lparr>ss_listener_alive := False\<rparr>)"

section \<open>Registration and drop\<close>

text \<open>
  The critical section of \<^verbatim>\<open>make_shared_with_config\<close>, with the identity \<^verbatim>\<open>Ulid::new\<close>
  gave: the result tells whether the caller goes on to spawn the listener.
\<close>

definition make_shared_with_config ::
    "'c mpsc \<Rightarrow> config \<Rightarrow> string \<Rightarrow> 'c shared_state \<Rightarrow> (shared_postgres_error, bool) result \<times> 'c shared_state" where
  "make_shared_with_config ch cfg r s =
     (if ss_poisoned s then (Inl RegistryLocked, s)
      else case claim_listener_spawn (ss_listener_alive s) of (should_spawn, alive) \<Rightarrow>
        (Inr should_spawn,
         s\<lparr>ss_registry := put_senders (c_queue cfg) (queue_senders (c_queue cfg) (ss_registry s) @ [r]) (ss_registry s),
           ss_listener_alive := alive,
           ss_chan := (ss_chan s)(r := mp_channel ch (clamp_notify_capacity (c_buffer_size cfg))),
           ss_errors := (ss_errors s)(r := None),
           ss_spawning := ss_spawning s + (if should_spawn then 1 else 0),
           ss_consumers := (ss_consumers s)(r \<mapsto> c_queue cfg),
           ss_used := r # ss_used s\<rparr>))"

definition spawn_registry_listener :: "'c mpsc \<Rightarrow> string option \<Rightarrow> 'c shared_state \<Rightarrow> 'c shared_state" where
  "spawn_registry_listener ch spawn_error s = (case spawn_error of
     None \<Rightarrow> s\<lparr>ss_spawning := ss_spawning s - 1, ss_threads := ss_threads s @ [Starting]\<rparr>
   | Some msg \<Rightarrow> exit_listener ch (''failed to spawn listener: '' @ msg) (s\<lparr>ss_spawning := ss_spawning s - 1\<rparr>))"

text \<open>
  Dropping a \<^verbatim>\<open>SharedFetcher\<close> drops its receiver first; then \<^verbatim>\<open>SharedRegistration::drop\<close>
  prunes its own entry.
\<close>

definition drop_shared_receiver :: "'c mpsc \<Rightarrow> string \<Rightarrow> 'c shared_state \<Rightarrow> 'c shared_state" where
  "drop_shared_receiver ch r s =
     s\<lparr>ss_chan := (ss_chan s)(r := mp_drop_receiver ch (ss_chan s r)),
       ss_leaving := (ss_leaving s)(r := ss_consumers s r), ss_consumers := (ss_consumers s)(r := None)\<rparr>"

definition drop_shared_registration :: "'c mpsc \<Rightarrow> string \<Rightarrow> string \<Rightarrow> 'c shared_state \<Rightarrow> 'c shared_state" where
  "drop_shared_registration ch queue r s =
     (let s1 = s\<lparr>ss_leaving := (ss_leaving s)(r := None)\<rparr> in
      if ss_poisoned s then s1
      else case map_of (ss_registry s) queue of
        None \<Rightarrow> s1
      | Some rs \<Rightarrow> s1\<lparr>ss_registry := put_senders queue (filter (\<lambda>x. x \<noteq> r) rs) (ss_registry s),
          ss_chan := (if r \<in> set rs then (ss_chan s)(r := mp_drop_sender ch (ss_chan s r)) else ss_chan s)\<rparr>)"

text \<open>\<^verbatim>\<open>SharedFetcher::poll_next\<close>.\<close>

definition shared_poll ::
    "'c mpsc \<Rightarrow> string \<Rightarrow> 'c shared_state \<Rightarrow> (error, string) result option poll \<times> 'c shared_state" where
  "shared_poll ch r s = (case take_error (ss_errors s r) of
     (Some e, p) \<Rightarrow> (PollReady (Some (Inl e)), s\<lparr>ss_errors := (ss_errors s)(r := p)\<rparr>)
   | (None, p) \<Rightarrow> (case mp_poll ch (ss_chan s r) of (x, c) \<Rightarrow>
       (case x of PollPending \<Rightarrow> PollPending | PollReady None \<Rightarrow> PollReady None
        | PollReady (Some i) \<Rightarrow> PollReady (Some (Inr i)),
        s\<lparr>ss_errors := (ss_errors s)(r := p), ss_chan := (ss_chan s)(r := c)\<rparr>)))"

section \<open>The listener threads\<close>

definition set_thread :: "nat \<Rightarrow> shared_pc \<Rightarrow> 'c shared_state \<Rightarrow> 'c shared_state" where
  "set_thread n pc s = s\<lparr>ss_threads := (ss_threads s)[n := pc]\<rparr>"

definition shared_connect :: "'c mpsc \<Rightarrow> (diesel_error \<Rightarrow> string) \<Rightarrow> nat \<Rightarrow> wire \<Rightarrow> 'c shared_state \<Rightarrow> 'c shared_state" where
  "shared_connect ch describe n x s = (case x of
     Refused msg \<Rightarrow> set_thread n Dead
       (exit_listener ch (''failed to get pooled connection for shared LISTEN: '' @ msg) s)
   | ListenFailed e \<Rightarrow> set_thread n Dead
       (exit_listener ch (''failed to start shared LISTEN listener: '' @ describe e) s)
   | Listening \<Rightarrow> set_thread n Draining s
   | _ \<Rightarrow> s)"

text \<open>
  \<^verbatim>\<open>run_listener_loop\<close>: one notification, and the check between two passes. A thread that is
  \<open>Closing\<close> still has its subscription to remove.
\<close>

definition shared_receive ::
    "'c mpsc \<Rightarrow> (diesel_error \<Rightarrow> string) \<Rightarrow> (string \<Rightarrow> insert_event option) \<Rightarrow> nat \<Rightarrow> wire \<Rightarrow>
     'c shared_state \<Rightarrow> 'c shared_state" where
  "shared_receive ch describe parse n x s = (case x of
     Drained \<Rightarrow> set_thread n Checking s
   | Broken e \<Rightarrow> set_thread n Closing
       (exit_listener ch (''failed to receive shared notification: '' @ describe e) s)
   | Arrived payload \<Rightarrow> (case parse payload of
       None \<Rightarrow> s
     | Some ev \<Rightarrow> (case into_ids ev of (event_queue, ids) \<Rightarrow>
         if ss_poisoned s then set_thread n Closing (s\<lparr>ss_listener_alive := False\<rparr>)
         else deliver_to_queue ch event_queue ids s))
   | _ \<Rightarrow> s)"

definition shared_check :: "nat \<Rightarrow> 'c shared_state \<Rightarrow> 'c shared_state" where
  "shared_check n s =
     (if ss_poisoned s \<or> listener_should_exit (ss_registry s)
      then set_thread n Closing (s\<lparr>ss_listener_alive := False\<rparr>)
      else set_thread n Draining s)"

definition shared_thread_step ::
    "'c mpsc \<Rightarrow> (diesel_error \<Rightarrow> string) \<Rightarrow> (string \<Rightarrow> insert_event option) \<Rightarrow> nat \<Rightarrow> wire \<Rightarrow>
     'c shared_state \<Rightarrow> 'c shared_state" where
  "shared_thread_step ch describe parse n x s = (case ss_threads s ! n of
     Starting \<Rightarrow> shared_connect ch describe n x s
   | Draining \<Rightarrow> shared_receive ch describe parse n x s
   | Checking \<Rightarrow> shared_check n s
   | Closing \<Rightarrow> set_thread n Dead s
   | Dead \<Rightarrow> s)"

text \<open>
  The record of what consumers heard: a poll adds the error it answered, and the record starts anew when
  the flag of the listener falls.
\<close>

definition hear :: "string \<Rightarrow> (error, string) result option poll \<Rightarrow> 'c shared_state \<Rightarrow> 'c shared_state" where
  "hear r res s = s\<lparr>ss_heard := ss_heard s @ map (Pair r) (item_errors res)\<rparr>"

definition stopped :: "'c shared_state \<Rightarrow> 'c shared_state \<Rightarrow> 'c shared_state" where
  "stopped s s' = (if ss_listener_alive s \<and> \<not> ss_listener_alive s' then s'\<lparr>ss_heard := []\<rparr> else s')"

inductive shared_step ::
    "'c mpsc \<Rightarrow> (diesel_error \<Rightarrow> string) \<Rightarrow> (string \<Rightarrow> insert_event option) \<Rightarrow> 'c shared_state \<Rightarrow> 'c shared_state \<Rightarrow> bool"
  for ch :: "'c mpsc" and describe parse where
  make: "r \<notin> set (ss_used s) \<Longrightarrow> make_shared_with_config ch cfg r s = (res, s') \<Longrightarrow> shared_step ch describe parse s s'"
| spawn: "0 < ss_spawning s \<Longrightarrow> shared_step ch describe parse s (stopped s (spawn_registry_listener ch spawn_error s))"
| thread: "n < length (ss_threads s) \<Longrightarrow> shared_step ch describe parse s (stopped s (shared_thread_step ch describe parse n x s))"
| poll: "ss_consumers s r = Some q \<Longrightarrow> shared_poll ch r s = (res, s') \<Longrightarrow> shared_step ch describe parse s (hear r res s')"
| leave: "ss_consumers s r = Some q \<Longrightarrow> shared_step ch describe parse s (drop_shared_receiver ch r s)"
| prune: "ss_leaving s r = Some q \<Longrightarrow> shared_step ch describe parse s (drop_shared_registration ch q r s)"
| poison: "shared_step ch describe parse s (s\<lparr>ss_poisoned := True\<rparr>)"

section \<open>The registry under its operations\<close>

lemma queue_senders_put [simp]:
  "queue_senders q (put_senders p rs reg) = (if q = p then rs else queue_senders q reg)"
  by (auto simp: queue_senders_def put_senders_def update_conv delete_conv)

lemma distinct_put [simp]: "distinct (map fst reg) \<Longrightarrow> distinct (map fst (put_senders p rs reg))"
  by (simp add: put_senders_def distinct_update distinct_delete)

lemma queue_senders_Some: "map_of reg q = Some rs \<Longrightarrow> queue_senders q reg = rs"
  by (simp add: queue_senders_def)

lemma queue_senders_Nil [simp]: "queue_senders q [] = []"
  by (simp add: queue_senders_def)

lemma queue_senders_retained:
  assumes "distinct (map fst reg)" and "f [] = []"
  shows "queue_senders q (filter (\<lambda>(q, rs). rs \<noteq> []) (map (\<lambda>(q, rs). (q, f rs)) reg)) = f (queue_senders q reg)"
  using assms(1)
proof (induction reg)
  case (Cons e reg)
  obtain p rs where e: "e = (p, rs)" by fastforce
  have none: "map_of (filter (\<lambda>(q, rs). rs \<noteq> []) (map (\<lambda>(q, rs). (q, f rs)) reg)) p = None" if "p \<notin> set (map fst reg)"
    using that by (force simp: map_of_eq_None_iff)
  from Cons show ?case by (auto simp: e queue_senders_def none)
qed (simp add: queue_senders_def assms(2))

lemma distinct_retained:
  "distinct (map fst reg) \<Longrightarrow> distinct (map fst (filter P (map (\<lambda>(q, rs). (q, f rs)) reg)))"
  by (rule distinct_map_filter) (simp add: case_prod_beta comp_def)

lemma queue_senders_map: "r \<in> set (queue_senders q reg) \<Longrightarrow> \<exists>rs. map_of reg q = Some rs \<and> r \<in> set rs"
  by (cases "map_of reg q") (auto simp: queue_senders_def)

lemma in_registry:
  assumes "r \<in> set (queue_senders q reg)"
  shows "r \<in> set (concat (map snd reg))"
proof (cases "map_of reg q")
  case (Some rs)
  from map_of_SomeD [OF this] assms Some show ?thesis by (force simp: queue_senders_def)
qed (use assms in \<open>simp add: queue_senders_def\<close>)

section \<open>Broadcast\<close>

text \<open>What a broadcast of some ids does to one channel.\<close>

definition given :: "('c \<Rightarrow> chan_view) \<Rightarrow> 'c mpsc \<Rightarrow> string list \<Rightarrow> 'c \<Rightarrow> 'c \<Rightarrow> bool" where
  "given view ch ids c c' \<longleftrightarrow> cv_receiver (view c') \<and> cv_sender (view c') = cv_sender (view c) \<and>
     (\<exists>xs. subseq xs ids \<and> cv_items (view c') = cv_items (view c) @ xs \<and> (never_full ch \<longrightarrow> xs = ids))"

lemma given_trans: "given view ch xs a b \<Longrightarrow> given view ch ys b c \<Longrightarrow> given view ch (xs @ ys) a c"
  unfolding given_def by (metis append.assoc list_emb_append_mono)

lemma retain_senders_given:
  assumes fifo: "fifo ch view" and "retain_senders ch i rs chans = (kept, chans')" and "distinct rs"
  shows "set kept \<subseteq> set rs \<and> distinct kept \<and> (\<forall>r. r \<notin> set rs \<longrightarrow> chans' r = chans r) \<and>
    (\<forall>r \<in> set rs. cv_receiver (view (chans r)) \<longrightarrow> r \<in> set kept \<and> given view ch [i] (chans r) (chans' r))"
  using assms(2,3)
proof (induction rs arbitrary: chans kept)
  case (Cons r rs)
  obtain x c where send: "mp_try_send ch (chans r) i = (x, c)" by fastforce
  note view = fifo_try_send [OF fifo send]
  let ?c = "if x = SendDisconnected then mp_drop_sender ch c else c"
  obtain k where k: "retain_senders ch i rs (chans(r := ?c)) = (k, chans')"
    "kept = (if x = SendDisconnected then k else r # k)"
    using Cons.prems(1) send by (cases x) (auto split: prod.splits)
  note rest = Cons.IH [OF k(1)]
  have "r \<notin> set rs" "distinct rs" using Cons.prems(2) by simp_all
  then have r: "chans' r = ?c" using rest by simp
  have "x \<noteq> SendDisconnected \<and> given view ch [i] (chans r) (chans' r)" if "cv_receiver (view (chans r))"
  proof (cases x)
    case SendOk
    with view(1) r show ?thesis by (auto simp: given_def)
  next
    case SendFull
    then have "\<not> never_full ch" using send by (metis fst_conv never_full_def)
    with SendFull view(2) r show ?thesis by (auto simp: given_def)
  next
    case SendDisconnected
    with view(3) that show ?thesis by simp
  qed
  moreover have "s \<in> set k \<and> given view ch [i] (chans s) (chans' s)" if "s \<in> set rs" "cv_receiver (view (chans s))" for s
  proof -
    have "s \<noteq> r" using that(1) \<open>r \<notin> set rs\<close> by blast
    then have same: "(chans(r := ?c)) s = chans s" by (rule fun_upd_other)
    have "\<forall>s \<in> set rs. cv_receiver (view ((chans(r := ?c)) s)) \<longrightarrow>
        s \<in> set k \<and> given view ch [i] ((chans(r := ?c)) s) (chans' s)"
      using rest \<open>distinct rs\<close> by blast
    from bspec [OF this that(1), unfolded same] that(2) show ?thesis by blast
  qed
  moreover have "set k \<subseteq> set rs \<and> distinct k" "\<forall>s. s \<noteq> r \<and> s \<notin> set rs \<longrightarrow> chans' s = chans s"
    using rest \<open>distinct rs\<close> by simp_all
  ultimately show ?case using \<open>r \<notin> set rs\<close> k(2) by auto
qed simp

lemma deliver_ids_given:
  assumes fifo: "fifo ch view" and "deliver_ids ch ids rs chans = (kept, chans')" and "distinct rs"
  shows "set kept \<subseteq> set rs \<and> distinct kept \<and> (\<forall>r. r \<notin> set rs \<longrightarrow> chans' r = chans r) \<and>
    (\<forall>r \<in> set rs. cv_receiver (view (chans r)) \<longrightarrow> r \<in> set kept \<and> given view ch ids (chans r) (chans' r))"
  using assms(2,3)
proof (induction ids arbitrary: rs chans)
  case Nil
  then show ?case by (auto simp: given_def)
next
  case (Cons i ids)
  obtain k cs where k: "retain_senders ch i rs chans = (k, cs)" by fastforce
  note one = retain_senders_given [OF fifo k Cons.prems(2)]
  have sub: "set k \<subseteq> set rs" "distinct k" using one by simp_all
  have "deliver_ids ch ids k cs = (kept, chans')" using Cons.prems(1) k by simp
  note rest = Cons.IH [OF this sub(2)]
  have "r \<in> set kept \<and> given view ch (i # ids) (chans r) (chans' r)" if "r \<in> set rs" "cv_receiver (view (chans r))" for r
  proof -
    from one that have r: "r \<in> set k" "given view ch [i] (chans r) (cs r)" by blast+
    then have "cv_receiver (view (cs r))" by (simp add: given_def)
    with rest r(1) have "r \<in> set kept" "given view ch ids (cs r) (chans' r)" by blast+
    with given_trans [OF r(2)] show ?thesis by fastforce
  qed
  moreover have "chans' r = chans r" if "r \<notin> set rs" for r using one rest sub(1) that by (metis subsetD)
  ultimately show ?case using rest sub(1) by blast
qed

section \<open>The listener and the consumers\<close>

definition serving :: "shared_pc \<Rightarrow> bool" where
  "serving pc \<longleftrightarrow> pc = Starting \<or> pc = Draining \<or> pc = Checking"

text \<open>Threads that serve and callers about to spawn one, together: one exactly while the flag is set.\<close>

definition listeners :: "'c shared_state \<Rightarrow> nat" where
  "listeners s = length (filter serving (ss_threads s)) + ss_spawning s"

definition alive_inv :: "'c shared_state \<Rightarrow> bool" where
  "alive_inv s \<longleftrightarrow> listeners s = (if ss_listener_alive s then 1 else 0)"

text \<open>A consumer knows of a failure: it is pending in its cell, or one of its polls answered it.\<close>

definition informed :: "'c shared_state \<Rightarrow> string \<Rightarrow> bool" where
  "informed s r \<longleftrightarrow> (\<exists>m. ss_errors s r = Some (NotifyListener m) \<or> (r, NotifyListener m) \<in> set (ss_heard s))"

definition registry_inv :: "('c \<Rightarrow> chan_view) \<Rightarrow> 'c shared_state \<Rightarrow> bool" where
  "registry_inv view s \<longleftrightarrow>
     distinct (map fst (ss_registry s)) \<and>
     (\<forall>q. distinct (queue_senders q (ss_registry s)) \<and> set (queue_senders q (ss_registry s)) \<subseteq> set (ss_used s)) \<and>
     (\<forall>r q. ss_consumers s r = Some q \<longrightarrow> r \<in> set (queue_senders q (ss_registry s)) \<and> r \<in> set (ss_used s) \<and>
        cv_receiver (view (ss_chan s r)) \<and> cv_sender (view (ss_chan s r))) \<and>
     (\<forall>r q. ss_leaving s r = Some q \<longrightarrow> ss_consumers s r = None \<and> r \<in> set (ss_used s)) \<and>
     (\<forall>r e. ss_errors s r = Some e \<longrightarrow> (\<exists>m. e = NotifyListener m)) \<and>
     (\<not> ss_listener_alive s \<and> \<not> ss_poisoned s \<longrightarrow>
        (\<forall>q. \<forall>r \<in> set (queue_senders q (ss_registry s)). informed s r))"

lemma registry_invI:
  assumes "distinct (map fst (ss_registry s))"
    and "\<And>q. distinct (queue_senders q (ss_registry s))"
    and "\<And>q. set (queue_senders q (ss_registry s)) \<subseteq> set (ss_used s)"
    and "\<And>r q. ss_consumers s r = Some q \<Longrightarrow> r \<in> set (queue_senders q (ss_registry s))"
    and "\<And>r q. ss_consumers s r = Some q \<Longrightarrow> r \<in> set (ss_used s)"
    and "\<And>r q. ss_consumers s r = Some q \<Longrightarrow> cv_receiver (view (ss_chan s r)) \<and> cv_sender (view (ss_chan s r))"
    and "\<And>r q. ss_leaving s r = Some q \<Longrightarrow> ss_consumers s r = None \<and> r \<in> set (ss_used s)"
    and "\<And>r e. ss_errors s r = Some e \<Longrightarrow> \<exists>m. e = NotifyListener m"
    and "\<And>q r. \<not> ss_listener_alive s \<Longrightarrow> \<not> ss_poisoned s \<Longrightarrow> r \<in> set (queue_senders q (ss_registry s)) \<Longrightarrow> informed s r"
  shows "registry_inv view s"
  using assms by (simp add: registry_inv_def)

lemma registry_invD:
  assumes "registry_inv view s"
  shows "distinct (map fst (ss_registry s))"
    and "distinct (queue_senders q (ss_registry s))"
    and "set (queue_senders q (ss_registry s)) \<subseteq> set (ss_used s)"
    and "ss_consumers s r = Some q \<Longrightarrow> r \<in> set (queue_senders q (ss_registry s))"
    and "ss_consumers s r = Some q \<Longrightarrow> r \<in> set (ss_used s)"
    and "ss_consumers s r = Some q \<Longrightarrow> cv_receiver (view (ss_chan s r)) \<and> cv_sender (view (ss_chan s r))"
    and "ss_leaving s r = Some q \<Longrightarrow> ss_consumers s r = None \<and> r \<in> set (ss_used s)"
    and "ss_errors s r = Some e \<Longrightarrow> \<exists>m. e = NotifyListener m"
    and "\<not> ss_listener_alive s \<Longrightarrow> \<not> ss_poisoned s \<Longrightarrow> r \<in> set (queue_senders q (ss_registry s)) \<Longrightarrow> informed s r"
  using assms by (simp_all add: registry_inv_def)

text \<open>The thread table and the spawn count matter only to the count of listeners.\<close>

lemma registry_inv_frame [simp]:
  "registry_inv view (set_thread n pc s) = registry_inv view s"
  "registry_inv view (s\<lparr>ss_threads := ts\<rparr>) = registry_inv view s"
  "registry_inv view (s\<lparr>ss_spawning := k\<rparr>) = registry_inv view s"
  by (simp_all add: registry_inv_def set_thread_def informed_def)

lemma informed_frame [simp]:
  "informed (s\<lparr>ss_registry := reg\<rparr>) = informed s" "informed (s\<lparr>ss_chan := c\<rparr>) = informed s"
  "informed (s\<lparr>ss_consumers := cs\<rparr>) = informed s" "informed (s\<lparr>ss_leaving := l\<rparr>) = informed s"
  "informed (s\<lparr>ss_listener_alive := b\<rparr>) = informed s" "informed (s\<lparr>ss_poisoned := b\<rparr>) = informed s"
  by (simp_all add: informed_def fun_eq_iff)

lemma observed_frame [simp]:
  "ss_listener_alive (stopped s t) = ss_listener_alive t" "ss_threads (stopped s t) = ss_threads t"
  "ss_spawning (stopped s t) = ss_spawning t" "ss_listener_alive (hear r res t) = ss_listener_alive t"
  "ss_threads (hear r res t) = ss_threads t" "ss_spawning (hear r res t) = ss_spawning t"
  "alive_inv (stopped s t) = alive_inv t" "alive_inv (hear r res t) = alive_inv t"
  by (simp_all add: stopped_def hear_def alive_inv_def listeners_def)

lemma registry_inv_deliver:
  assumes fifo: "fifo ch view" and inv: "registry_inv view s"
  shows "registry_inv view (deliver_to_queue ch queue ids s)"
proof (cases "map_of (ss_registry s) queue")
  case None
  with inv show ?thesis by (simp add: deliver_to_queue_def)
next
  case (Some rs)
  note D = registry_invD [OF inv]
  have rs: "queue_senders queue (ss_registry s) = rs" by (rule queue_senders_Some [OF Some])
  obtain kept chans where dl: "deliver_ids ch ids rs (ss_chan s) = (kept, chans)" by fastforce
  have "distinct rs" using D(2) [of queue] by (simp add: rs)
  note given = deliver_ids_given [OF fifo dl this]
  have s': "deliver_to_queue ch queue ids s = s\<lparr>ss_registry := put_senders queue kept (ss_registry s), ss_chan := chans\<rparr>"
    using Some dl by (simp add: deliver_to_queue_def)
  have sub: "set kept \<subseteq> set (queue_senders queue (ss_registry s))" using given rs by simp
  have keep: "cv_receiver (view (chans r)) \<and> cv_sender (view (chans r)) \<and> (r \<in> set rs \<longrightarrow> r \<in> set kept)"
    if "ss_consumers s r = Some q" for r q
    using given D(6) [OF that] by (cases "r \<in> set rs") (auto simp: given_def)
  show ?thesis
    unfolding s'
  proof (rule registry_invI, goal_cases)
    case (4 r q)
    with D(4) [of r q] keep [of r q] rs show ?case by auto
  qed (use D given sub keep in \<open>auto simp: subset_iff split: if_splits\<close>)
qed

lemma registry_inv_exit:
  assumes fifo: "fifo ch view" and inv: "registry_inv view s"
  shows "registry_inv view ((exit_listener ch msg s)\<lparr>ss_heard := h\<rparr>)"
proof (cases "ss_poisoned s")
  case True
  with inv show ?thesis by (simp add: exit_listener_def registry_inv_def)
next
  case False
  note D = registry_invD [OF inv]
  let ?all = "concat (map snd (ss_registry s))"
  let ?open = "open_senders ch (ss_chan s)"
  let ?s = "exit_listener ch msg s"
  have senders: "queue_senders q (ss_registry ?s) = ?open (queue_senders q (ss_registry s))" for q
    using queue_senders_retained [OF D(1), where q = q and f = ?open] False
    by (simp add: exit_listener_def broadcast_notify_error_locked_def Let_def open_senders_def)
  have open_iff: "r \<in> set (?open rs) \<longleftrightarrow> r \<in> set rs \<and> cv_receiver (view (ss_chan s r))" for r rs
    by (simp add: open_senders_def fifo_rest(2) [OF fifo])
  have told: "ss_errors ?s r = (if r \<in> set (?open ?all) then publish (NotifyListener msg) (ss_errors s r) else ss_errors s r)"
    and chan: "ss_chan ?s r = (if r \<in> set ?all \<and> r \<notin> set (?open ?all) then mp_drop_sender ch (ss_chan s r) else ss_chan s r)"
    and rest: "ss_consumers ?s = ss_consumers s" "ss_leaving ?s = ss_leaving s" "ss_used ?s = ss_used s"
    and keys: "distinct (map fst (ss_registry ?s))" for r
    using False distinct_retained [OF D(1)]
    by (simp_all add: exit_listener_def broadcast_notify_error_locked_def Let_def)
  have informed: "informed (?s\<lparr>ss_heard := h\<rparr>) r" if r: "r \<in> set (queue_senders q (ss_registry ?s))" for q r
  proof -
    have "r \<in> set (?open ?all)" using r in_registry [of r q "ss_registry s"] by (auto simp: senders open_iff simp del: set_concat)
    then show ?thesis using D(8) [of r] by (auto simp: informed_def told publish_def split: option.splits)
  qed
  show ?thesis
  proof (rule registry_invI, goal_cases)
    case (6 r q)
    with D(6) [of r q] show ?case by (auto simp: chan rest open_iff)
  next
    case (8 r e)
    with D(8) [of r] show ?case by (auto simp: told publish_def split: if_splits option.splits)
  next
    case (9 q r)
    then show ?case using informed by simp
  qed (use D keys in \<open>auto simp: senders rest open_senders_def fifo_rest(2) [OF fifo]\<close>)
qed

lemma registry_inv_stopped:
  assumes "fifo ch view" and "registry_inv view s"
  shows "registry_inv view (stopped u (exit_listener ch msg s))"
  using registry_inv_exit [OF assms, where msg = msg and h = "ss_heard (exit_listener ch msg s)"]
    registry_inv_exit [OF assms, where msg = msg and h = "[]"]
  by (simp add: stopped_def)

lemma registry_inv_make:
  assumes fifo: "fifo ch view" and inv: "registry_inv view s" and new: "r \<notin> set (ss_used s)"
    and run: "make_shared_with_config ch cfg r s = (res, s')"
  shows "registry_inv view s'"
proof (cases "ss_poisoned s")
  case True
  with run inv show ?thesis by (simp add: make_shared_with_config_def)
next
  case False
  note D = registry_invD [OF inv]
  have fresh: "r \<notin> set (queue_senders q (ss_registry s))" for q using D(3) [of q] new by blast
  have cons: "ss_consumers s x = Some q \<Longrightarrow> x \<noteq> r" "ss_leaving s x = Some q \<Longrightarrow> x \<noteq> r" for x q
    using D(5,7) new by blast+
  show ?thesis
    using run False
    apply (simp add: make_shared_with_config_def claim_listener_spawn_def)
    apply (elim conjE, hypsubst)
    apply (rule registry_invI)
            apply (use D fresh cons fifo_rest(1) [OF fifo] in \<open>auto simp: subset_iff split: if_splits\<close>)
    done
qed

lemma registry_inv_leave:
  assumes fifo: "fifo ch view" and inv: "registry_inv view s" and "ss_consumers s r = Some q"
  shows "registry_inv view (drop_shared_receiver ch r s)"
  unfolding drop_shared_receiver_def
  by (rule registry_invI) (use registry_invD [OF inv] assms(3) in \<open>auto split: if_splits\<close>)

lemma registry_inv_prune:
  assumes fifo: "fifo ch view" and inv: "registry_inv view s" and lv: "ss_leaving s r = Some q"
  shows "registry_inv view (drop_shared_registration ch q r s)"
proof -
  note D = registry_invD [OF inv]
  have none: "ss_consumers s r = None" using D(7) [OF lv] by simp
  let ?s1 = "s\<lparr>ss_leaving := (ss_leaving s)(r := None)\<rparr>"
  have base: "registry_inv view ?s1" by (rule registry_invI) (use D in \<open>auto split: if_splits\<close>)
  show ?thesis
  proof (cases "ss_poisoned s \<or> map_of (ss_registry s) q = None")
    case True
    with base show ?thesis by (auto simp: drop_shared_registration_def Let_def)
  next
    case False
    then obtain rs where rs: "map_of (ss_registry s) q = Some rs" "\<not> ss_poisoned s" by auto
    note sn = queue_senders_Some [OF rs(1)]
    let ?c = "if r \<in> set rs then (ss_chan s)(r := mp_drop_sender ch (ss_chan s r)) else ss_chan s"
    have eq: "drop_shared_registration ch q r s =
        ?s1\<lparr>ss_registry := put_senders q (filter (\<lambda>x. x \<noteq> r) rs) (ss_registry s), ss_chan := ?c\<rparr>"
      using rs by (simp add: drop_shared_registration_def Let_def)
    have chan: "?c x = ss_chan s x" if "ss_consumers s x = Some p" for x p using that none by auto
    have "x \<in> set (filter (\<lambda>x. x \<noteq> r) rs)" if "ss_consumers s x = Some q" for x
      using D(4) [OF that] that none sn by auto
    then show ?thesis
      unfolding eq
      by (intro registry_invI) (use D chan sn in \<open>auto simp: subset_iff split: if_splits\<close>)
  qed
qed

lemma registry_inv_poll:
  assumes fifo: "fifo ch view" and inv: "registry_inv view s" and r: "ss_consumers s r = Some q"
    and run: "shared_poll ch r s = (res, s')"
  shows "registry_inv view (hear r res s') \<and> res \<noteq> PollReady None"
proof (cases "ss_errors s r")
  case (Some e)
  then have s': "hear r res s' = s\<lparr>ss_errors := (ss_errors s)(r := None), ss_heard := ss_heard s @ [(r, e)]\<rparr>"
    and res: "res = PollReady (Some (Inl e))" using run by (auto simp: shared_poll_def take_error_def hear_def)
  note D = registry_invD [OF inv]
  have "informed (hear r res s') x" if "informed s x" for x
    using that Some D(8) [OF Some] by (auto simp: s' informed_def)
  with D have "registry_inv view (hear r res s')"
    by (intro registry_invI) (auto simp: s' split: if_splits)
  with res show ?thesis by simp
next
  case None
  obtain x c where poll: "mp_poll ch (ss_chan s r) = (x, c)" by fastforce
  note D = registry_invD [OF inv]
  have ends: "cv_receiver (view c) \<and> cv_sender (view c) \<and> x \<noteq> PollReady None"
    using fifo_poll [OF fifo poll] D(6) [OF r] by (cases "cv_items (view (ss_chan s r))") auto
  have "registry_inv view (s\<lparr>ss_chan := (ss_chan s)(r := c)\<rparr>)"
    by (rule registry_invI) (use D ends in auto)
  moreover have "hear r res s' = s\<lparr>ss_chan := (ss_chan s)(r := c)\<rparr>" "res \<noteq> PollReady None"
    using run None poll ends fun_upd_triv [of "ss_errors s" r]
    by (auto simp: shared_poll_def take_error_def hear_def split: poll.splits option.splits)
  ultimately show ?thesis by simp
qed

lemma registry_inv_thread:
  assumes fifo: "fifo ch view" and inv: "registry_inv view s"
  shows "registry_inv view (stopped s (shared_thread_step ch describe parse n x s))"
proof -
  have frame: "stopped s (set_thread n pc t) = set_thread n pc (stopped s t)" for pc t
    by (simp add: stopped_def set_thread_def)
  have down: "registry_inv view (stopped s (s\<lparr>ss_listener_alive := False\<rparr>))" if "ss_poisoned s \<or> ss_registry s = []"
    by (cases "ss_listener_alive s"; simp add: stopped_def; rule registry_invI) (use registry_invD [OF inv] that in auto)
  have on: "stopped s s = s" "stopped s (deliver_to_queue ch q ids s) = deliver_to_queue ch q ids s" for q ids
    by (simp_all add: stopped_def deliver_to_queue_def split: option.split prod.split)
  show ?thesis
    using inv registry_inv_stopped [OF assms] registry_inv_deliver [OF assms] down
    by (auto simp: shared_thread_step_def shared_connect_def shared_receive_def shared_check_def listener_should_exit_def frame on
        split: shared_pc.split wire.split option.split prod.split)
qed

lemma registry_inv_step:
  assumes "shared_step ch describe parse s s'" and fifo: "fifo ch view" and inv: "registry_inv view s"
  shows "registry_inv view s'"
  using assms(1)
proof cases
  case (make r cfg res)
  then show ?thesis using registry_inv_make [OF fifo inv] by blast
next
  case (spawn spawn_error)
  show ?thesis
  proof (cases spawn_error)
    case None
    with spawn inv registry_inv_frame(2) [where s = "s\<lparr>ss_spawning := ss_spawning s - 1\<rparr>"] show ?thesis
      by (simp add: spawn_registry_listener_def stopped_def)
  next
    case (Some msg)
    with spawn inv registry_inv_stopped [OF fifo, of "s\<lparr>ss_spawning := ss_spawning s - 1\<rparr>"] show ?thesis
      by (simp only: spawn_registry_listener_def option.case registry_inv_frame(3))
  qed
next
  case (thread n x)
  then show ?thesis using registry_inv_thread [OF fifo inv] by blast
next
  case (poll r q res)
  then show ?thesis using registry_inv_poll [OF fifo inv] by blast
next
  case (leave r q)
  then show ?thesis using registry_inv_leave [OF fifo inv] by blast
next
  case (prune r q)
  then show ?thesis using registry_inv_prune [OF fifo inv] by blast
next
  case poison
  with inv show ?thesis by (auto simp: registry_inv_def)
qed

text \<open>How many listeners there are changes only with the flag.\<close>

lemma serving_update:
  "n < length ts \<Longrightarrow> length (filter serving (ts[n := pc])) + (if serving (ts ! n) then 1 else 0) =
     length (filter serving ts) + (if serving pc then 1 else 0)"
proof (induction ts arbitrary: n)
  case (Cons t ts)
  then show ?case by (cases n) auto
qed simp

lemma shared_frames [simp]:
  "ss_threads (exit_listener ch msg s) = ss_threads s" "ss_spawning (exit_listener ch msg s) = ss_spawning s"
  "\<not> ss_listener_alive (exit_listener ch msg s)"
  "ss_threads (deliver_to_queue ch q ids s) = ss_threads s" "ss_spawning (deliver_to_queue ch q ids s) = ss_spawning s"
  "ss_listener_alive (deliver_to_queue ch q ids s) = ss_listener_alive s"
  by (simp_all add: exit_listener_def broadcast_notify_error_locked_def Let_def deliver_to_queue_def
      split: option.split prod.split)

lemma alive_thread_ends:
  assumes inv: "alive_inv s" and n: "n < length (ss_threads s)" "serving (ss_threads s ! n)"
    and t: "ss_threads t = ss_threads s" "ss_spawning t = ss_spawning s" "\<not> ss_listener_alive t" "\<not> serving pc"
  shows "alive_inv (set_thread n pc t)"
proof -
  have "listeners (set_thread n pc t) + 1 = listeners s"
    using serving_update [OF n(1), of pc] n(2) t by (simp add: listeners_def set_thread_def)
  with inv t(3) show ?thesis by (auto simp: alive_inv_def set_thread_def split: if_splits)
qed

lemma alive_thread_goes_on:
  assumes inv: "alive_inv s" and n: "n < length (ss_threads s)" "serving (ss_threads s ! n) = serving pc"
    and t: "ss_threads t = ss_threads s" "ss_spawning t = ss_spawning s" "ss_listener_alive t = ss_listener_alive s"
  shows "alive_inv (set_thread n pc t)"
proof -
  have "listeners (set_thread n pc t) = listeners s"
    using serving_update [OF n(1), of pc] n(2) t by (simp add: listeners_def set_thread_def)
  with inv t(3) show ?thesis by (simp add: alive_inv_def set_thread_def)
qed

lemma alive_inv_thread:
  assumes inv: "alive_inv s" and n: "n < length (ss_threads s)"
  shows "alive_inv (shared_thread_step ch describe parse n x s)"
proof -
  note ends = alive_thread_ends [OF inv n] and goes = alive_thread_goes_on [OF inv n]
  have same: "alive_inv (deliver_to_queue ch q ids s)" for q ids
    using inv by (simp add: alive_inv_def listeners_def)
  show ?thesis
  proof (cases "ss_threads s ! n")
    case Starting
    with inv ends goes show ?thesis
      by (auto simp: shared_thread_step_def shared_connect_def serving_def split: wire.split)
  next
    case Draining
    with inv ends goes same show ?thesis
      by (auto simp: shared_thread_step_def shared_receive_def serving_def split: wire.split option.split prod.split)
  next
    case Checking
    with ends goes show ?thesis by (auto simp: shared_thread_step_def shared_check_def serving_def)
  next
    case Closing
    with goes show ?thesis by (auto simp: shared_thread_step_def serving_def)
  next
    case Dead
    with inv show ?thesis by (simp add: shared_thread_step_def)
  qed
qed

lemma alive_inv_step:
  assumes "shared_step ch describe parse s s'" and inv: "alive_inv s"
  shows "alive_inv s'"
  using assms(1)
proof cases
  case (make r cfg res)
  with inv show ?thesis
    by (auto simp: make_shared_with_config_def claim_listener_spawn_def alive_inv_def listeners_def split: if_splits)
next
  case (spawn spawn_error)
  have "listeners s' + (if spawn_error = None then 0 else 1) = listeners s"
    using spawn by (cases spawn_error) (simp_all add: spawn_registry_listener_def listeners_def serving_def)
  moreover have "ss_listener_alive s' \<longleftrightarrow> ss_listener_alive s \<and> spawn_error = None"
    using spawn by (cases spawn_error) (simp_all add: spawn_registry_listener_def)
  ultimately show ?thesis using inv by (auto simp: alive_inv_def split: if_splits)
next
  case (thread n x)
  then show ?thesis using alive_inv_thread [OF inv] by simp
next
  case (poll r q res)
  then have "ss_threads s' = ss_threads s \<and> ss_spawning s' = ss_spawning s \<and> ss_listener_alive s' = ss_listener_alive s"
    by (auto simp: shared_poll_def take_error_def split: option.splits prod.splits)
  with inv show ?thesis by (simp add: alive_inv_def listeners_def)
next
  case (leave r q)
  with inv show ?thesis by (simp add: alive_inv_def listeners_def drop_shared_receiver_def)
next
  case (prune r q)
  then have "ss_threads s' = ss_threads s \<and> ss_spawning s' = ss_spawning s \<and> ss_listener_alive s' = ss_listener_alive s"
    by (simp add: drop_shared_registration_def Let_def split: option.split)
  with inv show ?thesis by (simp add: alive_inv_def listeners_def)
next
  case poison
  with inv show ?thesis by (simp add: alive_inv_def listeners_def)
qed

lemma shared_inv_reachable:
  assumes "fifo ch view" and "(shared_step ch describe parse)\<^sup>*\<^sup>* (shared_new ch) s"
  shows "registry_inv view s \<and> alive_inv s"
  using assms(2)
proof (induction rule: rtranclp_induct)
  case base
  show ?case by (simp add: shared_new_def registry_inv_def alive_inv_def listeners_def)
next
  case (step y z)
  then show ?case using registry_inv_step [OF _ assms(1)] alive_inv_step by blast
qed

text \<open>
  C16. The shared listener serves every consumer, in any interleaving of registrations, drops, polls and
  listener threads. There is never more than one listener, counting the caller about to spawn it. A
  consumer that was not dropped stays registered, whatever other consumers do, however full its
  channel is and however often the listener failed, and its stream does not end; and unless a panic
  poisoned the registry, a listener is running or about to be spawned, or the failure that ended the last
  one is pending in the consumer's own cell, where its next poll finds it, or a poll of the consumer
  answered it since the listener stopped.
\<close>

theorem shared_consumers_are_served:
  assumes "fifo ch view" and "(shared_step ch describe parse)\<^sup>*\<^sup>* (shared_new ch) s"
  shows "length (filter (\<lambda>pc. pc = Starting \<or> pc = Draining \<or> pc = Checking) (ss_threads s)) + ss_spawning s \<le> 1 \<and>
    (\<forall>r q. ss_consumers s r = Some q \<longrightarrow>
       (\<exists>rs. map_of (ss_registry s) q = Some rs \<and> r \<in> set rs) \<and> fst (shared_poll ch r s) \<noteq> PollReady None \<and>
       (ss_poisoned s \<or> (\<exists>pc \<in> set (ss_threads s). pc = Starting \<or> pc = Draining \<or> pc = Checking) \<or>
        0 < ss_spawning s \<or> (\<exists>m. fst (shared_poll ch r s) = PollReady (Some (Inl (NotifyListener m))) \<or>
          (r, NotifyListener m) \<in> set (ss_heard s))))"
proof -
  have inv: "registry_inv view s" "alive_inv s" using shared_inv_reachable [OF assms] by simp_all
  have "serving = (\<lambda>pc. pc = Starting \<or> pc = Draining \<or> pc = Checking)" by (simp add: fun_eq_iff serving_def)
  then have count: "length (filter (\<lambda>pc. pc = Starting \<or> pc = Draining \<or> pc = Checking) (ss_threads s)) + ss_spawning s =
      (if ss_listener_alive s then 1 else 0)" using inv(2) by (simp add: alive_inv_def listeners_def)
  have "(\<exists>rs. map_of (ss_registry s) q = Some rs \<and> r \<in> set rs) \<and> fst (shared_poll ch r s) \<noteq> PollReady None \<and>
       (ss_poisoned s \<or> (\<exists>pc \<in> set (ss_threads s). pc = Starting \<or> pc = Draining \<or> pc = Checking) \<or>
        0 < ss_spawning s \<or> (\<exists>m. fst (shared_poll ch r s) = PollReady (Some (Inl (NotifyListener m))) \<or>
          (r, NotifyListener m) \<in> set (ss_heard s)))" if c: "ss_consumers s r = Some q" for r q
  proof (intro conjI)
    have reg: "r \<in> set (queue_senders q (ss_registry s))" by (rule registry_invD(4) [OF inv(1) c])
    then show "\<exists>rs. map_of (ss_registry s) q = Some rs \<and> r \<in> set rs"
      by (rule queue_senders_map)
    show "fst (shared_poll ch r s) \<noteq> PollReady None"
      using registry_inv_poll [OF assms(1) inv(1) c] by (metis prod.collapse)
    show "ss_poisoned s \<or> (\<exists>pc \<in> set (ss_threads s). pc = Starting \<or> pc = Draining \<or> pc = Checking) \<or>
        0 < ss_spawning s \<or> (\<exists>m. fst (shared_poll ch r s) = PollReady (Some (Inl (NotifyListener m))) \<or>
          (r, NotifyListener m) \<in> set (ss_heard s))"
    proof (cases "ss_listener_alive s")
      case True
      with count have "filter (\<lambda>pc. pc = Starting \<or> pc = Draining \<or> pc = Checking) (ss_threads s) \<noteq> [] \<or> 0 < ss_spawning s"
        by auto
      then show ?thesis by (auto simp: filter_empty_conv)
    next
      case False
      have "ss_poisoned s \<or> informed s r" using registry_invD(9) [OF inv(1) False _ reg] by blast
      then show ?thesis by (auto simp: informed_def shared_poll_def take_error_def)
    qed
  qed
  then show ?thesis using count by simp
qed

text \<open>
  An announcement reaches every consumer of its queue. Delivering the ids of one event appends to
  the channel of each registered consumer of the queue a subsequence of the ids, all of them while
  channels have room: a consumer with a full channel loses single ids and costs the others nothing. No
  consumer is pruned, and no other channel changes.
\<close>

lemma broadcast_reaches_every_consumer:
  assumes "fifo ch view" and "(shared_step ch describe parse)\<^sup>*\<^sup>* (shared_new ch) s"
  shows "\<forall>r q. ss_consumers s r = Some q \<longrightarrow>
    (\<exists>rs. map_of (ss_registry (deliver_to_queue ch queue ids s)) q = Some rs \<and> r \<in> set rs) \<and>
    (q = queue \<longrightarrow> (\<exists>xs. subseq xs ids \<and>
       cv_items (view (ss_chan (deliver_to_queue ch queue ids s) r)) = cv_items (view (ss_chan s r)) @ xs \<and>
       ((\<forall>c i. fst (mp_try_send ch c i) \<noteq> SendFull) \<longrightarrow> xs = ids))) \<and>
    (r \<notin> set (queue_senders queue (ss_registry s)) \<longrightarrow>
       ss_chan (deliver_to_queue ch queue ids s) r = ss_chan s r)"
proof (intro allI impI)
  fix r q assume c: "ss_consumers s r = Some q"
  have inv: "registry_inv view s" using shared_inv_reachable [OF assms] by simp
  note D = registry_invD [OF inv]
  let ?s = "deliver_to_queue ch queue ids s"
  have "ss_consumers ?s = ss_consumers s" by (simp add: deliver_to_queue_def split: option.split prod.split)
  with c have reg: "r \<in> set (queue_senders q (ss_registry ?s))"
    using registry_invD(4) [OF registry_inv_deliver [OF assms(1) inv]] by simp
  obtain kept chans where dl: "deliver_ids ch ids (queue_senders queue (ss_registry s)) (ss_chan s) = (kept, chans)" by fastforce
  note given = deliver_ids_given [OF assms(1) dl D(2)]
  have chan: "ss_chan ?s = chans"
  proof (cases "map_of (ss_registry s) queue")
    case None
    have "retain_senders ch i [] cs = ([], cs)" for i cs by simp
    then have "deliver_ids ch ids [] cs = ([], cs)" for cs by (induction ids) simp_all
    with None dl show ?thesis by (simp add: deliver_to_queue_def queue_senders_def)
  next
    case (Some rs)
    with dl show ?thesis by (simp add: deliver_to_queue_def queue_senders_Some)
  qed
  show "(\<exists>rs. map_of (ss_registry ?s) q = Some rs \<and> r \<in> set rs) \<and>
    (q = queue \<longrightarrow> (\<exists>xs. subseq xs ids \<and> cv_items (view (ss_chan ?s r)) = cv_items (view (ss_chan s r)) @ xs \<and>
       ((\<forall>c i. fst (mp_try_send ch c i) \<noteq> SendFull) \<longrightarrow> xs = ids))) \<and>
    (r \<notin> set (queue_senders queue (ss_registry s)) \<longrightarrow> ss_chan ?s r = ss_chan s r)"
    unfolding chan
  proof (intro conjI impI)
    show "\<exists>rs. map_of (ss_registry ?s) q = Some rs \<and> r \<in> set rs"
      using reg by (rule queue_senders_map)
    assume "q = queue"
    with given D(4,6) [OF c] have "given view ch ids (ss_chan s r) (chans r)" by blast
    then show "\<exists>xs. subseq xs ids \<and> cv_items (view (chans r)) = cv_items (view (ss_chan s r)) @ xs \<and>
       ((\<forall>c i. fst (mp_try_send ch c i) \<noteq> SendFull) \<longrightarrow> xs = ids)"
      by (auto simp: given_def never_full_def)
  qed (use given in blast)
qed

end
