(* ===== verification/Retention.thy ===== *)
theory Retention
  imports Workers
begin

text \<open>
  Retention (\<^verbatim>\<open>src/queries/retention.rs\<close>): the purge of completed tasks and the pruning of
  registrations nobody uses any more, both in bounded batches, each batch its own pooled call. The
  cutoff of a purge is sampled once, in nanoseconds of server time. A \<^verbatim>\<open>LIMIT\<close> without an
  order takes the rows in the order of the table.
\<close>

section \<open>Purging completed tasks\<close>

definition PURGE_BATCH_LIMIT :: int where "PURGE_BATCH_LIMIT = 10000"
definition PRUNE_BATCH_LIMIT :: int where "PRUNE_BATCH_LIMIT = 1000"

text \<open>Epoch seconds of the earliest timestamp the server represents.\<close>

definition TIMESTAMP_FLOOR_EPOCH :: int where "TIMESTAMP_FLOOR_EPOCH = - 210866803200"

text \<open>Server time minus the window, in nanoseconds.\<close>

definition server_cutoff :: "duration \<Rightarrow> int sql" where
  "server_cutoff completed_before =
     stmt ''sampling the retention cutoff'' (\<lambda>g. (Inr (pg_now g * 1000 - int completed_before), pg_db g))"

definition at_or_before :: "timestamp \<Rightarrow> int \<Rightarrow> bool" where
  "at_or_before t cutoff \<longleftrightarrow> t * 1000 \<le> max cutoff (TIMESTAMP_FLOOR_EPOCH * 1000000000)"

text \<open>A terminal row of the queue that is old enough, by completion or, without one, by schedule.\<close>

definition purgeable :: "string \<Rightarrow> int \<Rightarrow> job_row \<Rightarrow> bool" where
  "purgeable queue cutoff j \<longleftrightarrow>
     j_job_type j = queue \<and> terminal_row j \<and>
     (case j_done_at j of Some t \<Rightarrow> at_or_before t cutoff | None \<Rightarrow> at_or_before (j_run_at j) cutoff)"

definition purge_candidates :: "string \<Rightarrow> int \<Rightarrow> nat \<Rightarrow> pg \<Rightarrow> job_row list" where
  "purge_candidates queue cutoff limit g =
     take limit (filter (\<lambda>j. purgeable queue cutoff j \<and> j_id j \<notin> set (pg_locked_jobs g)) (jobs (pg_db g)))"

definition purge_terminal_batch :: "string \<Rightarrow> int \<Rightarrow> nat \<Rightarrow> nat sql" where
  "purge_terminal_batch queue cutoff limit =
     stmt ''purging terminal tasks'' (\<lambda>g.
       delete_jobs (\<lambda>j. j_id j \<in> set (map j_id (purge_candidates queue cutoff limit g))) (pg_db g))"

text \<open>The test that ends a loop over batches: the count fits \<^verbatim>\<open>i64\<close> and is below the limit.\<close>

definition short_batch :: "nat \<Rightarrow> nat \<Rightarrow> bool" where
  "short_batch n limit \<longleftrightarrow> int n \<le> i64_max \<and> n < limit"

text \<open>What a batch call must guarantee for its loop to end: a full batch shrinks the table.\<close>

lemma purge_batch_effect:
  assumes "with_conn (purge_terminal_batch q c n) g = (Inr k, g')"
  obtains g1 where "later g g1"
    "jobs (pg_db g') = delete_where (\<lambda>j. j_id j \<in> set (map j_id (purge_candidates q c n g1))) (jobs (pg_db g))"
    "workers (pg_db g') = workers (pg_db g)"
    "k = count_where (\<lambda>j. j_id j \<in> set (map j_id (purge_candidates q c n g1))) (jobs (pg_db g))"
  using assms unfolding purge_terminal_batch_def
  by (elim with_conn_InrE stmt_InrE) (auto simp: delete_jobs_def laterD dest: later_trans intro: that)

lemma purge_batch_shrinks:
  assumes "with_conn (purge_terminal_batch q c n) g = (Inr k, g')"
  shows "length (jobs (pg_db g')) + k = length (jobs (pg_db g))"
  using assms by (rule purge_batch_effect) (simp add: length_delete_where)

text \<open>\<^verbatim>\<open>limit.max(1)\<close>: a limit below one would never end the loop.\<close>

definition raised :: "int \<Rightarrow> nat" where
  "raised limit = nat (max limit 1)"

lemma raised_pos [simp]: "0 < raised limit"
  by (simp add: raised_def)

lemma full_batch_pos: "\<not> short_batch n limit \<Longrightarrow> 0 < limit \<Longrightarrow> 0 < n"
  by (auto simp: short_batch_def i64_max_def)

lemma purge_full_batch:
  assumes "with_conn (purge_terminal_batch q c (raised limit)) g = (Inr k, g')" and "\<not> short_batch k (raised limit)"
  shows "length (jobs (pg_db g')) < length (jobs (pg_db g))"
  using purge_batch_shrinks [OF assms(1)] full_batch_pos [OF assms(2)] by simp

function purge_loop :: "string \<Rightarrow> int \<Rightarrow> int \<Rightarrow> nat \<Rightarrow> nat sql" where
  "purge_loop queue cutoff limit acc g =
     (case with_conn (purge_terminal_batch queue cutoff (raised limit)) g of
        (Inl e, g1) \<Rightarrow> (Inl e, g1)
      | (Inr deleted, g1) \<Rightarrow>
          if short_batch deleted (raised limit) then (Inr (acc + deleted), g1)
          else purge_loop queue cutoff limit (acc + deleted) g1)"
  by pat_completeness auto

termination
  by (relation "measure (\<lambda>(queue, cutoff, limit, acc, g). length (jobs (pg_db g)))")
     (auto dest!: sym [of "(_, _)"] dest: purge_full_batch)

declare purge_loop.simps [simp del]

definition purge_terminal_tasks_batched :: "string \<Rightarrow> duration \<Rightarrow> int \<Rightarrow> nat sql" where
  "purge_terminal_tasks_batched queue completed_before limit =
     sbind (with_conn (server_cutoff completed_before)) (\<lambda>cutoff. purge_loop queue cutoff limit 0)"

definition purge_terminal_tasks :: "string \<Rightarrow> duration \<Rightarrow> nat sql" where
  "purge_terminal_tasks queue completed_before =
     purge_terminal_tasks_batched queue completed_before PURGE_BATCH_LIMIT"

section \<open>Pruning registrations\<close>

definition msg_prune_window :: string where
  "msg_prune_window = ''stale_for must not be shorter than reenqueue_orphaned_after''"

definition validate_prune_window :: "config \<Rightarrow> duration \<Rightarrow> (error, unit) result" where
  "validate_prune_window cfg stale_for =
     (if stale_for < c_reenqueue_orphaned_after cfg then Inl (InvalidArgument msg_prune_window) else Inr ())"

text \<open>\<^verbatim>\<open>EXISTS (SELECT 1 FROM apalis.jobs j WHERE j.job_type = w.worker_type AND j.lock_by = w.id)\<close>.\<close>

definition referenced :: "job_row list \<Rightarrow> worker_row \<Rightarrow> bool" where
  "referenced js w \<longleftrightarrow> list_ex (\<lambda>j. j_job_type j = w_worker_type w \<and> j_lock_by j = Some (w_id w)) js"

definition prunable :: "string \<Rightarrow> duration \<Rightarrow> pg \<Rightarrow> worker_row \<Rightarrow> bool" where
  "prunable queue stale_for g w \<longleftrightarrow>
     w_worker_type w = queue \<and> stale (pg_now g) stale_for (w_last_seen w) \<and> \<not> referenced (jobs (pg_db g)) w"

definition prune_candidates :: "string \<Rightarrow> duration \<Rightarrow> nat \<Rightarrow> pg \<Rightarrow> string list" where
  "prune_candidates queue stale_for limit g =
     take limit (sort (map w_id (filter (\<lambda>w. prunable queue stale_for g w \<and>
                                             worker_key w \<notin> set (pg_locked_workers g)) (workers (pg_db g)))))"

definition delete_unreferenced_registrations :: "string \<Rightarrow> string list \<Rightarrow> nat sql" where
  "delete_unreferenced_registrations queue ids =
     stmt ''pruning stale workers'' (\<lambda>g.
       delete_workers (\<lambda>w. w_worker_type w = queue \<and> w_id w \<in> set ids \<and> \<not> referenced (jobs (pg_db g)) w) (pg_db g))"

record prune_batch =
  pb_locked :: nat
  pb_deleted :: nat

text \<open>The closure of the batch's transaction: lock the candidates, then delete them.\<close>

definition prune_locked :: "string \<Rightarrow> duration \<Rightarrow> nat \<Rightarrow> prune_batch sql" where
  "prune_locked queue stale_for limit =
     sbind (stmt ''locking stale workers to prune''
              (\<lambda>g. (Inr (prune_candidates queue stale_for limit g), pg_db g)))
     (\<lambda>candidates.
        sbind (if candidates = [] then sreturn 0 else delete_unreferenced_registrations queue candidates)
          (\<lambda>deleted. sreturn \<lparr>pb_locked = length candidates, pb_deleted = deleted\<rparr>))"

definition prune_workers_batch_counted :: "string \<Rightarrow> duration \<Rightarrow> nat \<Rightarrow> prune_batch sql" where
  "prune_workers_batch_counted queue stale_for limit = transaction (prune_locked queue stale_for limit)"

section \<open>One batch of registrations\<close>

lemma referenced_fk:
  assumes "\<forall>j \<in> set js. job_fk ws j" and "\<And>w. P w \<Longrightarrow> \<not> referenced js w"
  shows "list_all (job_fk (delete_where P ws)) js"
  unfolding list_all_iff
proof
  fix j assume j: "j \<in> set js"
  show "job_fk (delete_where P ws) j"
  proof (cases "j_lock_by j")
    case (Some n)
    with assms(1) j have "(n, j_job_type j) \<in> worker_key ` set ws"
      by (auto simp: job_fk_def split: option.splits)
    then obtain w where w: "w \<in> set ws" "worker_key w = (n, j_job_type j)" by force
    then have "referenced js w" using j Some by (auto simp: referenced_def list_ex_iff worker_key_def)
    then have "\<not> P w" using assms(2) by blast
    with w Some show ?thesis by (force simp: job_fk_def)
  qed (simp add: job_fk_def)
qed

lemma prune_delete:
  assumes "db_ok d"
  shows "delete_workers (\<lambda>w. w_worker_type w = q \<and> w_id w \<in> set ids \<and> \<not> referenced (jobs d) w) d =
    (Inr (count_where (\<lambda>w. w_worker_type w = q \<and> w_id w \<in> set ids \<and> \<not> referenced (jobs d) w) (workers d)),
     d\<lparr>workers := delete_where (\<lambda>w. w_worker_type w = q \<and> w_id w \<in> set ids \<and> \<not> referenced (jobs d) w) (workers d)\<rparr>)"
proof -
  have "\<forall>j \<in> set (jobs d). job_fk (workers d) j" using assms by (simp add: db_ok_def)
  then have "list_all (job_fk (delete_where (\<lambda>w. w_worker_type w = q \<and> w_id w \<in> set ids \<and> \<not> referenced (jobs d) w) (workers d))) (jobs d)"
    by (rule referenced_fk) simp
  then show ?thesis by (simp add: delete_workers_def)
qed

lemma prune_candidates_sub:
  assumes "i \<in> set (prune_candidates q t n g)"
  shows "\<exists>w \<in> set (workers (pg_db g)). w_id w = i \<and> prunable q t g w \<and> worker_key w \<notin> set (pg_locked_workers g)"
  using assms unfolding prune_candidates_def by (auto dest!: in_set_takeD)

abbreviation pruned_by :: "string \<Rightarrow> string list \<Rightarrow> job_row list \<Rightarrow> worker_row \<Rightarrow> bool" where
  "pruned_by q ids js w \<equiv> w_worker_type w = q \<and> w_id w \<in> set ids \<and> \<not> referenced js w"

lemma prune_delete_run:
  assumes "(if cs = [] then sreturn 0 else delete_unreferenced_registrations q cs) h = (Inr k, h')"
  shows "pg_now h \<le> pg_now h' \<and> jobs (pg_db h') = jobs (pg_db h) \<and>
    workers (pg_db h') = delete_where (pruned_by q cs (jobs (pg_db h))) (workers (pg_db h)) \<and>
    k = count_where (pruned_by q cs (jobs (pg_db h))) (workers (pg_db h))"
proof (cases "cs = []")
  case True
  with assms show ?thesis by (simp add: delete_where_def count_where_def)
next
  case False
  with assms have "delete_unreferenced_registrations q cs h = (Inr k, h')" by simp
  then show ?thesis
    unfolding delete_unreferenced_registrations_def
    by (elim stmt_InrE) (auto simp: delete_workers_def laterD split: if_splits)
qed

lemma prune_locked_InrE:
  assumes "prune_locked q t n g = (Inr b, g')"
  obtains h where "later g h" "pg_now h \<le> pg_now g'" "jobs (pg_db g') = jobs (pg_db g)"
    "workers (pg_db g') = delete_where (pruned_by q (prune_candidates q t n h) (jobs (pg_db g))) (workers (pg_db g))"
    "pb_locked b = length (prune_candidates q t n h)"
    "pb_deleted b = count_where (pruned_by q (prune_candidates q t n h) (jobs (pg_db g))) (workers (pg_db g))"
proof -
  from assms obtain h k where h: "later g h"
    "(if prune_candidates q t n h = [] then sreturn 0 else delete_unreferenced_registrations q (prune_candidates q t n h)) h = (Inr k, g')"
    "b = \<lparr>pb_locked = length (prune_candidates q t n h), pb_deleted = k\<rparr>"
    unfolding prune_locked_def by (elim sbind_InrE stmt_InrE) auto
  with prune_delete_run [OF h(2)] that [of h] laterD(1) [OF h(1)] show thesis by simp
qed

lemma prune_batch_effect:
  assumes "with_conn (prune_workers_batch_counted q t n) g = (Inr b, g')"
  obtains g1 where "later g g1" "jobs (pg_db g') = jobs (pg_db g)"
    "workers (pg_db g') = delete_where (pruned_by q (prune_candidates q t n g1) (jobs (pg_db g))) (workers (pg_db g))"
    "pb_locked b = length (prune_candidates q t n g1)"
    "pb_deleted b = count_where (pruned_by q (prune_candidates q t n g1) (jobs (pg_db g))) (workers (pg_db g))"
proof -
  from assms obtain g1 g2 where 1: "later g g1" "prune_locked q t n g1 = (Inr b, g2)" "pg_db g' = pg_db g2"
    unfolding prune_workers_batch_counted_def by (elim conn_txn_InrE) blast
  from 1(2) show thesis
  proof (rule prune_locked_InrE)
    fix h assume h: "later g1 h" "pg_now h \<le> pg_now g2" "jobs (pg_db g2) = jobs (pg_db g1)"
      "workers (pg_db g2) = delete_where (pruned_by q (prune_candidates q t n h) (jobs (pg_db g1))) (workers (pg_db g1))"
      "pb_locked b = length (prune_candidates q t n h)"
      "pb_deleted b = count_where (pruned_by q (prune_candidates q t n h) (jobs (pg_db g1))) (workers (pg_db g1))"
    with that [OF later_trans [OF 1(1) h(1)]] 1(3) laterD(1) [OF 1(1)] show thesis by simp
  qed
qed

lemma prune_batch_progress:
  assumes "with_conn (prune_workers_batch_counted q t n) g = (Inr b, g')" and "0 < pb_locked b"
  shows "length (workers (pg_db g')) < length (workers (pg_db g))"
proof -
  from assms(1) obtain g1 where *: "later g g1"
    "workers (pg_db g') = delete_where (pruned_by q (prune_candidates q t n g1) (jobs (pg_db g))) (workers (pg_db g))"
    "pb_locked b = length (prune_candidates q t n g1)" by (rule prune_batch_effect)
  from assms(2) *(3) obtain i where i: "i \<in> set (prune_candidates q t n g1)" by fastforce
  from prune_candidates_sub [OF i] i *(1)
  have "\<exists>w \<in> set (workers (pg_db g)). pruned_by q (prune_candidates q t n g1) (jobs (pg_db g)) w"
    by (auto simp: prunable_def laterD)
  then show ?thesis unfolding *(2) delete_where_def by (auto intro: length_filter_less)
qed

section \<open>Pruning in batches\<close>

lemma prune_full_batch:
  assumes "with_conn (prune_workers_batch_counted q t (nat PRUNE_BATCH_LIMIT)) g = (Inr b, g')"
    and "\<not> short_batch (pb_locked b) (nat PRUNE_BATCH_LIMIT)"
  shows "length (workers (pg_db g')) < length (workers (pg_db g))"
  using prune_batch_progress [OF assms(1)] full_batch_pos [OF assms(2)] by (simp add: PRUNE_BATCH_LIMIT_def)

function prune_loop :: "string \<Rightarrow> duration \<Rightarrow> nat \<Rightarrow> nat sql" where
  "prune_loop queue stale_for acc g =
     (case with_conn (prune_workers_batch_counted queue stale_for (nat PRUNE_BATCH_LIMIT)) g of
        (Inl e, g1) \<Rightarrow> (Inl e, g1)
      | (Inr batch, g1) \<Rightarrow>
          if short_batch (pb_locked batch) (nat PRUNE_BATCH_LIMIT) then (Inr (acc + pb_deleted batch), g1)
          else prune_loop queue stale_for (acc + pb_deleted batch) g1)"
  by pat_completeness auto

termination
  by (relation "measure (\<lambda>(queue, stale_for, acc, g). length (workers (pg_db g)))")
     (auto dest!: sym [of "(_, _)"] dest: prune_full_batch)

declare prune_loop.simps [simp del]

definition prune_workers :: "config \<Rightarrow> duration \<Rightarrow> nat sql" where
  "prune_workers cfg stale_for g =
     (case validate_prune_window cfg stale_for of
        Inl e \<Rightarrow> (Inl e, g)
      | Inr _ \<Rightarrow> prune_loop (c_queue cfg) stale_for 0 g)"

section \<open>What a purge removes\<close>

lemma delete_where_twice: "delete_where P (delete_where Q xs) = delete_where (\<lambda>x. Q x \<or> P x) xs"
  by (simp add: delete_where_def conj_commute)

text \<open>Only purgeable rows left, and the constraints still hold.\<close>

definition purged :: "string \<Rightarrow> int \<Rightarrow> db \<Rightarrow> db \<Rightarrow> bool" where
  "purged q c d d' \<longleftrightarrow> (db_ok d \<longrightarrow> db_ok d' \<and> workers d' = workers d \<and>
     (\<exists>P. jobs d' = delete_where P (jobs d) \<and> (\<forall>j \<in> set (jobs d). P j \<longrightarrow> purgeable q c j)))"

lemma purged_trans:
  assumes "purged q c a b" and "purged q c b d"
  shows "purged q c a d"
  unfolding purged_def
proof
  assume ok: "db_ok a"
  with assms(1) obtain Q where Q: "db_ok b" "workers b = workers a" "jobs b = delete_where Q (jobs a)"
    "\<forall>j \<in> set (jobs a). Q j \<longrightarrow> purgeable q c j" by (auto simp: purged_def)
  with assms(2) obtain P where "db_ok d" "workers d = workers b" "jobs d = delete_where P (jobs b)"
    "\<forall>j \<in> set (jobs b). P j \<longrightarrow> purgeable q c j" by (auto simp: purged_def)
  with Q show "db_ok d \<and> workers d = workers a \<and>
      (\<exists>P. jobs d = delete_where P (jobs a) \<and> (\<forall>j \<in> set (jobs a). P j \<longrightarrow> purgeable q c j))"
    by (auto simp: delete_where_twice intro!: exI [of _ "\<lambda>j. Q j \<or> P j"])
qed

interpretation purging: db_relation "purged q c" for q c
proof unfold_locales
  show "purged q c d d" for d
    unfolding purged_def by (auto simp: delete_where_def intro!: exI [of _ "\<lambda>_. False"])
qed (rule purged_trans)

lemma purge_candidates_sub:
  "j \<in> set (purge_candidates q c n g) \<Longrightarrow> j \<in> set (jobs (pg_db g)) \<and> purgeable q c j"
  unfolding purge_candidates_def by (auto dest!: in_set_takeD)

lemma purge_terminal_batch_purges: "ensures (purged q c) (purge_terminal_batch q c n)"
  unfolding purge_terminal_batch_def
proof (rule purging.ensures_stmt)
  fix g k d
  let ?P = "\<lambda>j. j_id j \<in> set (map j_id (purge_candidates q c n g))"
  assume del: "delete_jobs ?P (pg_db g) = (Inr k, d)"
  then have d: "d = (pg_db g)\<lparr>jobs := delete_where ?P (jobs (pg_db g))\<rparr>" by (simp add: delete_jobs_def)
  show "purged q c (pg_db g) d"
    unfolding purged_def
  proof
    assume ok: "db_ok (pg_db g)"
    have "purgeable q c j" if "j \<in> set (jobs (pg_db g))" "?P j" for j
    proof -
      from that obtain i where i: "i \<in> set (purge_candidates q c n g)" "j_id i = j_id j" by auto
      with ok that(1) have "i = j"
        using purge_candidates_sub [OF i(1)] by (auto simp: db_ok_def intro: distinct_key_unique [of j_id])
      with purge_candidates_sub [OF i(1)] show ?thesis by simp
    qed
    moreover have "db_ok d" using delete_jobs_ok [OF del] ok by (simp add: keeps_ok_def)
    ultimately show "db_ok d \<and> workers d = workers (pg_db g) \<and>
        (\<exists>P. jobs d = delete_where P (jobs (pg_db g)) \<and> (\<forall>j \<in> set (jobs (pg_db g)). P j \<longrightarrow> purgeable q c j))"
      using d by auto
  qed
qed

lemma purge_loop_purges: "purged q c (pg_db g) (pg_db (snd (purge_loop q c l acc g)))"
proof (induction q c l acc g rule: purge_loop.induct)
  case (1 q c l acc g)
  obtain r g1 where run: "with_conn (purge_terminal_batch q c (raised l)) g = (r, g1)" by fastforce
  have one: "purged q c (pg_db g) (pg_db g1)"
    using ensuresD_run [OF purging.ensures_with_conn [OF purge_terminal_batch_purges] run] .
  show ?case
  proof (cases "\<exists>k. r = Inr k \<and> \<not> short_batch k (raised l)")
    case True
    then obtain k where k: "r = Inr k" "\<not> short_batch k (raised l)" by blast
    from 1 [OF run [symmetric] k] one show ?thesis
      using run k by (simp add: purge_loop.simps [of q c l acc g] purging.trans)
  next
    case False
    with run one show ?thesis by (auto simp: purge_loop.simps [of q c l acc g] split: sum.splits)
  qed
qed

text \<open>A batch below its limit left no purgeable row that nobody holds.\<close>

lemma purge_batch_drains:
  assumes "with_conn (purge_terminal_batch q c n) g = (Inr k, g')" and "short_batch k n"
    and "j \<in> set (jobs (pg_db g'))" and "purgeable q c j"
  shows "j_id j \<in> set (pg_locked_jobs g)"
proof (rule ccontr)
  assume free: "j_id j \<notin> set (pg_locked_jobs g)"
  from assms(1) obtain g1 where *: "later g g1"
    "jobs (pg_db g') = delete_where (\<lambda>j. j_id j \<in> set (map j_id (purge_candidates q c n g1))) (jobs (pg_db g))"
    "k = count_where (\<lambda>j. j_id j \<in> set (map j_id (purge_candidates q c n g1))) (jobs (pg_db g))"
    by (rule purge_batch_effect)
  let ?Q = "\<lambda>j. purgeable q c j \<and> j_id j \<notin> set (pg_locked_jobs g)"
  have cs: "purge_candidates q c n g1 = take n (filter ?Q (jobs (pg_db g)))"
    using *(1) by (simp add: purge_candidates_def laterD)
  have "length (purge_candidates q c n g1) \<le> k"
  proof -
    let ?C = "purge_candidates q c n g1"
    have "length ?C = count_where (\<lambda>j. j_id j \<in> set (map j_id ?C)) ?C" by (simp add: count_where_def)
    also have "\<dots> \<le> k"
      unfolding *(3) count_where_def cs
      by (rule length_filter_take_filter)
    finally show ?thesis .
  qed
  with assms(2) have "purge_candidates q c n g1 = filter ?Q (jobs (pg_db g))"
    unfolding cs short_batch_def by auto
  with assms(3,4) free *(2) show False by auto
qed

lemma purge_batch_onward: "keeps onward (with_conn (purge_terminal_batch q c n))"
  unfolding purge_terminal_batch_def by (intro on.keeps_intros)

lemma purge_loop_onward: "onward g (snd (purge_loop q c l acc g))"
proof (induction q c l acc g rule: purge_loop.induct)
  case (1 q c l acc g)
  obtain r g1 where run: "with_conn (purge_terminal_batch q c (raised l)) g = (r, g1)" by fastforce
  note one = keepsD_run [OF purge_batch_onward run]
  show ?case
  proof (cases "\<exists>k. r = Inr k \<and> \<not> short_batch k (raised l)")
    case True
    then obtain k where k: "r = Inr k" "\<not> short_batch k (raised l)" by blast
    from on.trans [OF one 1 [OF run [symmetric] k]] show ?thesis
      using run k by (simp add: purge_loop.simps [of q c l acc g])
  next
    case False
    with run one show ?thesis by (auto simp: purge_loop.simps [of q c l acc g] split: sum.splits)
  qed
qed

text \<open>A purge that returns removed exactly the purgeable rows that nobody holds.\<close>

lemma purge_loop_Inr:
  assumes "purge_loop q c l acc g = (Inr n, g')"
  shows "n + length (jobs (pg_db g')) = acc + length (jobs (pg_db g)) \<and>
    (\<forall>j \<in> set (jobs (pg_db g')). purgeable q c j \<longrightarrow> j_id j \<in> set (pg_locked_jobs g)) \<and>
    (\<forall>j \<in> set (jobs (pg_db g)) - set (jobs (pg_db g')). j_id j \<notin> set (pg_locked_jobs g))"
  using assms
proof (induction q c l acc g rule: purge_loop.induct)
  case (1 q c l acc g)
  obtain r g1 where run: "with_conn (purge_terminal_batch q c (raised l)) g = (r, g1)" by fastforce
  with 1(2) obtain k where k: "r = Inr k" by (cases r) (auto simp: purge_loop.simps [of q c l acc g])
  note run = run [unfolded k]
  have held: "j_id j \<notin> set (pg_locked_jobs g)" if "j \<in> set (jobs (pg_db g)) - set (jobs (pg_db g1))" for j
    using run by (rule purge_batch_effect)
      (use that in \<open>auto simp: delete_where_def purge_candidates_def laterD dest!: in_set_takeD\<close>)
  show ?case
  proof (cases "short_batch k (raised l)")
    case True
    with 1(2) run have "n = acc + k" "g' = g1" by (simp_all add: purge_loop.simps [of q c l acc g])
    with purge_batch_shrinks [OF run] purge_batch_drains [OF run True] held show ?thesis by auto
  next
    case False
    with 1(2) run have rec: "purge_loop q c l (acc + k) g1 = (Inr n, g')"
      by (simp add: purge_loop.simps [of q c l acc g])
    have "pg_locked_jobs g1 = pg_locked_jobs g"
      using keepsD_run [OF purge_batch_onward run] by (simp add: onward_def)
    with 1(1) [OF run [symmetric] refl False rec] purge_batch_shrinks [OF run] held show ?thesis by auto
  qed
qed

lemma length_delete: "length (delete_where P xs) = length xs - count_where P xs"
  using length_delete_where [of P xs] by simp

lemma server_cutoff_onward: "keeps onward (with_conn (server_cutoff w))"
  unfolding server_cutoff_def by (intro on.keeps_intros)

lemma server_cutoff_InrE:
  assumes "with_conn (server_cutoff w) g = (Inr c, g')"
  obtains "pg_now g \<le> pg_now g'" "c = pg_now g' * 1000 - int w" "pg_locked_jobs g' = pg_locked_jobs g"
proof -
  have "c = pg_now g' * 1000 - int w" using assms unfolding server_cutoff_def by (auto elim!: with_conn_InrE stmt_InrE)
  with keepsD_run [OF server_cutoff_onward assms] that show thesis by (simp add: onward_def)
qed

lemma server_cutoff_keeps: "ensures (=) (with_conn (server_cutoff w))"
  unfolding server_cutoff_def by (intro same.ensures_with_conn select_same)

text \<open>The rows a purge may remove, written out for the statement of the property.\<close>

abbreviation ended_by :: "string \<Rightarrow> int \<Rightarrow> job_row \<Rightarrow> bool" where
  "ended_by q c j \<equiv> j_job_type j = q \<and>
     (j_status j = Done \<or> j_status j = Killed \<or> j_status j = Failed \<and> j_max_attempts j \<le> j_attempts j) \<and>
     (case j_done_at j of Some t \<Rightarrow> t | None \<Rightarrow> j_run_at j) * 1000 \<le> max c (TIMESTAMP_FLOOR_EPOCH * 1000000000)"

lemma purgeable_iff: "purgeable q c j \<longleftrightarrow> ended_by q c j"
  by (auto simp: purgeable_def terminal_row_def at_or_before_def split: option.splits)

text \<open>The loop at a fixed cutoff, whatever it returns and exactly where it returns a count.\<close>

lemma purge_loop_effect:
  assumes ok: "db_ok (pg_db g)" and run: "purge_loop q c l 0 g = (r, g')"
  shows "workers (pg_db g') = workers (pg_db g) \<and> db_ok (pg_db g') \<and>
    (\<exists>P. jobs (pg_db g') = delete_where P (jobs (pg_db g)) \<and> (\<forall>j \<in> set (jobs (pg_db g)). P j \<longrightarrow> purgeable q c j)) \<and>
    (\<forall>n. r = Inr n \<longrightarrow>
       jobs (pg_db g') = delete_where (\<lambda>j. purgeable q c j \<and> j_id j \<notin> set (pg_locked_jobs g)) (jobs (pg_db g)) \<and>
       n = count_where (\<lambda>j. purgeable q c j \<and> j_id j \<notin> set (pg_locked_jobs g)) (jobs (pg_db g)))"
proof -
  let ?Q = "\<lambda>j. purgeable q c j \<and> j_id j \<notin> set (pg_locked_jobs g)"
  have "purged q c (pg_db g) (pg_db g')" using purge_loop_purges [of q c g l 0] run by simp
  with ok obtain P where P: "db_ok (pg_db g')" "workers (pg_db g') = workers (pg_db g)"
    "jobs (pg_db g') = delete_where P (jobs (pg_db g))" "\<forall>j \<in> set (jobs (pg_db g)). P j \<longrightarrow> purgeable q c j"
    by (auto simp: purged_def)
  have "jobs (pg_db g') = delete_where ?Q (jobs (pg_db g)) \<and> n = count_where ?Q (jobs (pg_db g))" if "r = Inr n" for n
  proof -
    note loop = purge_loop_Inr [OF run [unfolded that]]
    have "P j \<longleftrightarrow> ?Q j" if "j \<in> set (jobs (pg_db g))" for j
      using loop P(3,4) that by (auto simp: delete_where_def)
    then have "jobs (pg_db g') = delete_where ?Q (jobs (pg_db g))"
      unfolding P(3) delete_where_def by (auto intro: filter_cong)
    with loop length_delete_where [of ?Q "jobs (pg_db g)"] show ?thesis by simp
  qed
  with P show ?thesis by blast
qed

text \<open>
  C25. A purge removes exactly the aged tasks. The cutoff is the window before one instant between the
  start and the end of the call. Whatever fails on the way, only terminal tasks of the queue that
  completed (or, without a completion time, were scheduled) at or before the cutoff are removed; every
  other task and every registration stays as it is. A purge that returns removed all of them except those
  another session holds, and counted exactly the removed rows.
\<close>

theorem purge_removes_only_aged_tasks:
  assumes ok: "db_ok (pg_db g)" and run: "purge_terminal_tasks q w g = (r, g')"
  shows "workers (pg_db g') = workers (pg_db g) \<and> db_ok (pg_db g') \<and>
    (\<exists>now. pg_now g \<le> now \<and> now \<le> pg_now g' \<and>
      (\<exists>P. jobs (pg_db g') = delete_where P (jobs (pg_db g)) \<and>
         (\<forall>j \<in> set (jobs (pg_db g)). P j \<longrightarrow> ended_by q (now * 1000 - int w) j)) \<and>
      (\<forall>n. r = Inr n \<longrightarrow>
         jobs (pg_db g') = delete_where (\<lambda>j. ended_by q (now * 1000 - int w) j \<and> j_id j \<notin> set (pg_locked_jobs g)) (jobs (pg_db g)) \<and>
         n = count_where (\<lambda>j. ended_by q (now * 1000 - int w) j \<and> j_id j \<notin> set (pg_locked_jobs g)) (jobs (pg_db g))))"
proof -
  obtain rc g1 where cut: "with_conn (server_cutoff w) g = (rc, g1)" by fastforce
  have same: "pg_db g1 = pg_db g" using ensuresD_run [OF server_cutoff_keeps cut] by simp
  show ?thesis
  proof (cases rc)
    case (Inl e)
    with run cut same have "pg_db g' = pg_db g" "r = Inl e" "g' = g1"
      by (auto simp: purge_terminal_tasks_def purge_terminal_tasks_batched_def)
    moreover have "pg_now g \<le> pg_now g1" using keepsD_run [OF server_cutoff_onward cut] by (simp add: onward_def)
    ultimately show ?thesis using ok by (auto simp: delete_where_def intro!: exI [of _ "pg_now g"] exI [of _ "\<lambda>_. False"])
  next
    case (Inr c)
    from cut [unfolded Inr] have now: "pg_now g \<le> pg_now g1" "c = pg_now g1 * 1000 - int w"
      and lk: "pg_locked_jobs g1 = pg_locked_jobs g" by (rule server_cutoff_InrE, simp)+
    have loop: "purge_loop q c PURGE_BATCH_LIMIT 0 g1 = (r, g')"
      using run cut Inr by (simp add: purge_terminal_tasks_def purge_terminal_tasks_batched_def)
    have "pg_now g1 \<le> pg_now g'" using purge_loop_onward [of g1 q c PURGE_BATCH_LIMIT 0] loop by (simp add: onward_def)
    with purge_loop_effect [OF _ loop] ok now(1) show ?thesis
      unfolding same lk purgeable_iff now(2) by blast
  qed
qed

section \<open>What a prune removes\<close>

text \<open>Only registrations nobody references and that are stale at \<open>now\<close>.\<close>

definition pruned :: "string \<Rightarrow> duration \<Rightarrow> timestamp \<Rightarrow> db \<Rightarrow> db \<Rightarrow> bool" where
  "pruned q t now d d' \<longleftrightarrow> (db_ok d \<longrightarrow> db_ok d' \<and> jobs d' = jobs d \<and>
     (\<exists>P. workers d' = delete_where P (workers d) \<and> (\<forall>w \<in> set (workers d). P w \<longrightarrow>
        w_worker_type w = q \<and> \<not> referenced (jobs d) w \<and> stale now t (w_last_seen w))))"

lemma pruned_trans:
  assumes "pruned q t now a b" and "pruned q t now b d"
  shows "pruned q t now a d"
  unfolding pruned_def
proof
  assume ok: "db_ok a"
  with assms(1) obtain Q where Q: "db_ok b" "jobs b = jobs a" "workers b = delete_where Q (workers a)"
    "\<forall>w \<in> set (workers a). Q w \<longrightarrow> w_worker_type w = q \<and> \<not> referenced (jobs a) w \<and> stale now t (w_last_seen w)"
    by (auto simp: pruned_def)
  with assms(2) obtain P where "db_ok d" "jobs d = jobs b" "workers d = delete_where P (workers b)"
    "\<forall>w \<in> set (workers b). P w \<longrightarrow> w_worker_type w = q \<and> \<not> referenced (jobs b) w \<and> stale now t (w_last_seen w)"
    by (auto simp: pruned_def)
  with Q show "db_ok d \<and> jobs d = jobs a \<and> (\<exists>P. workers d = delete_where P (workers a) \<and> (\<forall>w \<in> set (workers a). P w \<longrightarrow>
        w_worker_type w = q \<and> \<not> referenced (jobs a) w \<and> stale now t (w_last_seen w)))"
    by (auto simp: delete_where_twice intro!: exI [of _ "\<lambda>j. Q j \<or> P j"])
qed

interpretation pruning: db_relation "pruned q t now" for q t now
proof unfold_locales
  show "pruned q t now d d" for d
    unfolding pruned_def by (auto simp: delete_where_def intro!: exI [of _ "\<lambda>_. False"])
qed (rule pruned_trans)

lemma prune_closure:
  assumes "prune_locked q t n g = (Inr b, g')" and "pg_now g' \<le> now"
  shows "pruned q t now (pg_db g) (pg_db g')"
  unfolding pruned_def
proof
  assume ok: "db_ok (pg_db g)"
  from assms(1) obtain h where h: "later g h" "pg_now h \<le> pg_now g'"
    and eff: "jobs (pg_db g') = jobs (pg_db g)"
      "workers (pg_db g') = delete_where (pruned_by q (prune_candidates q t n h) (jobs (pg_db g))) (workers (pg_db g))"
    by (rule prune_locked_InrE)
  let ?P = "pruned_by q (prune_candidates q t n h) (jobs (pg_db g))"
  have "stale now t (w_last_seen w)" if w: "w \<in> set (workers (pg_db g))" "?P w" for w
  proof -
    from prune_candidates_sub [of "w_id w" q t n h] w laterD(1) [OF h(1)] obtain v where
      v: "v \<in> set (workers (pg_db g))" "w_id v = w_id w" "prunable q t h v" by auto
    then have "worker_key v = worker_key w" using w by (simp add: worker_key_def prunable_def)
    with ok v(1) w(1) have "v = w" by (auto simp: db_ok_def intro: distinct_key_unique [of worker_key])
    with v(3) stale_mono [of "pg_now h" t "w_last_seen w" now] h(2) assms(2) show ?thesis by (simp add: prunable_def)
  qed
  moreover have "db_ok (pg_db g')"
    using ok eff referenced_fk [of "jobs (pg_db g)" "workers (pg_db g)" ?P]
    by (auto simp: db_ok_def delete_where_def list_all_iff intro: distinct_map_filter_keep)
  ultimately show "db_ok (pg_db g') \<and> jobs (pg_db g') = jobs (pg_db g) \<and>
     (\<exists>P. workers (pg_db g') = delete_where P (workers (pg_db g)) \<and> (\<forall>w \<in> set (workers (pg_db g)). P w \<longrightarrow>
        w_worker_type w = q \<and> \<not> referenced (jobs (pg_db g)) w \<and> stale now t (w_last_seen w)))"
    using eff by blast
qed

lemma prune_batch_onward: "keeps onward (with_conn (prune_workers_batch_counted q t n))"
  unfolding prune_workers_batch_counted_def prune_locked_def delete_unreferenced_registrations_def
  by (intro on.keeps_intros)

lemma prune_batch_prunes:
  assumes run: "with_conn (prune_workers_batch_counted q t n) g = (r, g')" and now: "pg_now g' \<le> now"
  shows "pruned q t now (pg_db g) (pg_db g')"
proof -
  have "snd (with_conn (transaction (prune_locked q t n)) g) = g'"
    using run by (simp add: prune_workers_batch_counted_def)
  with conn_txn_effect [of "prune_locked q t n" g]
  consider "pg_db g' = pg_db g" | g1 x g2 where "later g g1" "prune_locked q t n g1 = (Inr x, g2)" "pg_db g' = pg_db g2"
      "pg_now g2 \<le> pg_now g'"
    by blast
  then show ?thesis
  proof cases
    case 1
    then show ?thesis by (simp add: pruning.refl)
  next
    case (2 g1 x g2)
    have "pg_now g2 \<le> now" using now 2(4) by simp
    from prune_closure [OF 2(2) this] show ?thesis using 2(3) laterD(1) [OF 2(1)] by simp
  qed
qed

lemma prune_loop_onward: "onward g (snd (prune_loop q t acc g))"
proof (induction q t acc g rule: prune_loop.induct)
  case (1 q t acc g)
  obtain x g1 where run: "with_conn (prune_workers_batch_counted q t (nat PRUNE_BATCH_LIMIT)) g = (x, g1)" by fastforce
  note one = keepsD_run [OF prune_batch_onward run]
  show ?case
  proof (cases "\<exists>b. x = Inr b \<and> \<not> short_batch (pb_locked b) (nat PRUNE_BATCH_LIMIT)")
    case True
    then obtain b where b: "x = Inr b" "\<not> short_batch (pb_locked b) (nat PRUNE_BATCH_LIMIT)" by blast
    from on.trans [OF one 1 [OF run [symmetric] b]] show ?thesis
      using run b by (simp add: prune_loop.simps [of q t acc g])
  next
    case False
    with run one show ?thesis by (auto simp: prune_loop.simps [of q t acc g] split: sum.splits)
  qed
qed

lemma prune_loop_first_batch:
  assumes "prune_loop q t acc g = (r, g')" and "with_conn (prune_workers_batch_counted q t (nat PRUNE_BATCH_LIMIT)) g = (x, g1)"
  shows "pg_now g1 \<le> pg_now g'"
  using assms prune_loop_onward [of g1 q t]
  by (auto simp: prune_loop.simps [of q t acc g] onward_def split: sum.splits if_splits) (metis snd_conv)

lemma prune_loop_prunes:
  assumes "prune_loop q t acc g = (r, g')" and "pg_now g' \<le> now"
  shows "pruned q t now (pg_db g) (pg_db g') \<and>
    (\<forall>n. r = Inr n \<longrightarrow> n + length (workers (pg_db g')) = acc + length (workers (pg_db g)))"
  using assms
proof (induction q t acc g rule: prune_loop.induct)
  case (1 q t acc g)
  obtain x g1 where run: "with_conn (prune_workers_batch_counted q t (nat PRUNE_BATCH_LIMIT)) g = (x, g1)" by fastforce
  have one: "pruned q t now (pg_db g) (pg_db g1)"
    using prune_batch_prunes [OF run] prune_loop_first_batch [OF 1(2) run] 1(3) by simp
  show ?case
  proof (cases x)
    case (Inl e)
    with 1(2) run have "r = Inl e" "g' = g1" by (simp_all add: prune_loop.simps [of q t acc g])
    with one show ?thesis by simp
  next
    case (Inr b)
    note run = run [unfolded Inr]
    have len: "pb_deleted b + length (workers (pg_db g1)) = length (workers (pg_db g))"
      using run by (rule prune_batch_effect) (simp add: length_delete_where add.commute [of "count_where _ _"])
    show ?thesis
    proof (cases "short_batch (pb_locked b) (nat PRUNE_BATCH_LIMIT)")
      case True
      with 1(2) run have "r = Inr (acc + pb_deleted b)" "g' = g1" by (simp_all add: prune_loop.simps [of q t acc g])
      with one len show ?thesis by simp
    next
      case False
      with 1(2) run have rec: "prune_loop q t (acc + pb_deleted b) g1 = (r, g')"
        by (simp add: prune_loop.simps [of q t acc g])
      note ih = 1(1) [OF run [symmetric] refl False rec 1(3)]
      have "pruned q t now (pg_db g) (pg_db g')" using one conjunct1 [OF ih] by (rule pruning.trans)
      moreover have "n + length (workers (pg_db g')) = acc + length (workers (pg_db g))" if "r = Inr n" for n
        using conjunct2 [OF ih] that len by simp
      ultimately show ?thesis by blast
    qed
  qed
qed

text \<open>
  Pruning with a window shorter than the stale deadline is refused before anything is read.
  Otherwise it removes only registrations of the queue that no task names as its owner and that
  are stale for at least the window when it ends, whatever fails on the way; every task and every other
  registration stays, and a prune that returns counted exactly the removed registrations.
\<close>

lemma prune_removes_only_unused_registrations:
  assumes ok: "db_ok (pg_db g)" and run: "prune_workers cfg t g = (r, g')"
  shows "(t < c_reenqueue_orphaned_after cfg \<longrightarrow> (\<exists>m. r = Inl (InvalidArgument m)) \<and> g' = g) \<and>
    jobs (pg_db g') = jobs (pg_db g) \<and> db_ok (pg_db g') \<and>
    (\<exists>P. workers (pg_db g') = delete_where P (workers (pg_db g)) \<and>
      (\<forall>w \<in> set (workers (pg_db g)). P w \<longrightarrow> w_worker_type w = c_queue cfg \<and> \<not> referenced (jobs (pg_db g)) w \<and>
         stale (pg_now g') (c_reenqueue_orphaned_after cfg) (w_last_seen w) \<and> stale (pg_now g') t (w_last_seen w)) \<and>
      (\<forall>n. r = Inr n \<longrightarrow> n = count_where P (workers (pg_db g))))"
proof (cases "t < c_reenqueue_orphaned_after cfg")
  case True
  with run have "r = Inl (InvalidArgument msg_prune_window)" "g' = g"
    by (auto simp: prune_workers_def validate_prune_window_def)
  with ok show ?thesis by (auto simp: delete_where_def intro!: exI [of _ "\<lambda>_. False"])
next
  case False
  with run have loop: "prune_loop (c_queue cfg) t 0 g = (r, g')"
    by (simp add: prune_workers_def validate_prune_window_def)
  have short: "stale at (c_reenqueue_orphaned_after cfg) s" if "stale at t s" for at s
    using that False by (simp add: stale_def)
  from prune_loop_prunes [OF loop order_refl] ok obtain P where P: "db_ok (pg_db g')" "jobs (pg_db g') = jobs (pg_db g)"
    "workers (pg_db g') = delete_where P (workers (pg_db g))"
    "\<forall>w \<in> set (workers (pg_db g)). P w \<longrightarrow> w_worker_type w = c_queue cfg \<and> \<not> referenced (jobs (pg_db g)) w \<and>
       stale (pg_now g') t (w_last_seen w)"
    and len: "\<forall>n. r = Inr n \<longrightarrow> n + length (workers (pg_db g')) = length (workers (pg_db g))"
    by (auto simp: pruned_def)
  have "\<forall>n. r = Inr n \<longrightarrow> n = count_where P (workers (pg_db g))"
    using len P(3) length_delete_where [of P "workers (pg_db g)"] by auto
  moreover have "\<forall>w \<in> set (workers (pg_db g)). P w \<longrightarrow> w_worker_type w = c_queue cfg \<and> \<not> referenced (jobs (pg_db g)) w \<and>
       stale (pg_now g') (c_reenqueue_orphaned_after cfg) (w_last_seen w) \<and> stale (pg_now g') t (w_last_seen w)"
    using P(4) short by blast
  ultimately show ?thesis using False P(1-3) by blast
qed

section \<open>Both operations end\<close>

lemma purge_batch_quiet:
  assumes "quiet g"
  obtains k g' where "with_conn (purge_terminal_batch q c n) g = (Inr k, g')" "quiet g'"
  using assms by (auto simp: purge_terminal_batch_def quiet_def stmt_quiet delete_jobs_def)

lemma purge_loop_quiet: "quiet g \<Longrightarrow> \<exists>n g'. purge_loop q c l acc g = (Inr n, g')"
proof (induction q c l acc g rule: purge_loop.induct)
  case (1 q c l acc g)
  from 1(2) obtain k g1 where run: "with_conn (purge_terminal_batch q c (raised l)) g = (Inr k, g1)" "quiet g1"
    by (rule purge_batch_quiet)
  with 1(1) [OF run(1) [symmetric] refl _ run(2)] show ?case
    by (cases "short_batch k (raised l)") (simp_all add: purge_loop.simps [of q c l acc g])
qed

lemma prune_batch_quiet:
  assumes "quiet g" and ok: "db_ok (pg_db g)"
  obtains b g' where "with_conn (prune_workers_batch_counted q t n) g = (Inr b, g')" "quiet g'" "db_ok (pg_db g')"
proof -
  have s: "pg_script g = []" "pg_pool g = []" using assms(1) by (simp_all add: quiet_def)
  have del: "\<exists>k g'. delete_unreferenced_registrations q cs g = (Inr k, g') \<and> pg_script g' = []" for cs
    using s(1) prune_delete [OF ok, of q cs] by (simp add: delete_unreferenced_registrations_def stmt_quiet)
  have "\<exists>b g'. prune_locked q t n g = (Inr b, g') \<and> pg_script g' = []"
    using s(1) del [of "prune_candidates q t n g"]
    by (auto simp: prune_locked_def stmt_quiet sbind_def sreturn_def)
  then obtain b g' where run: "prune_locked q t n g = (Inr b, g')" "pg_script g' = []" by blast
  then have "with_conn (prune_workers_batch_counted q t n) g = (Inr b, g')"
    using s by (simp add: prune_workers_batch_counted_def transaction_quiet)
  moreover from this have "quiet g'" using keepsD_run [OF prune_batch_onward] quiet_onward assms(1) by blast
  moreover have "db_ok (pg_db g')" using prune_closure [OF run(1) order_refl] ok by (simp add: pruned_def)
  ultimately show thesis using that by blast
qed

lemma prune_loop_quiet: "quiet g \<Longrightarrow> db_ok (pg_db g) \<Longrightarrow> \<exists>n g'. prune_loop q t acc g = (Inr n, g')"
proof (induction q t acc g rule: prune_loop.induct)
  case (1 q t acc g)
  from 1(2,3) obtain b g1 where run: "with_conn (prune_workers_batch_counted q t (nat PRUNE_BATCH_LIMIT)) g = (Inr b, g1)"
    "quiet g1" "db_ok (pg_db g1)" by (rule prune_batch_quiet)
  with 1(1) [OF run(1) [symmetric] refl _ run(2,3)] show ?case
    by (cases "short_batch (pb_locked b) (nat PRUNE_BATCH_LIMIT)") (simp_all add: prune_loop.simps [of q t acc g])
qed

text \<open>
  Both retention operations end, on every connection: the loops are total functions, because a
  full batch removes at least one row. Where nothing fails they return a count, and a prune never
  reports the foreign key.
\<close>

lemma retention_returns:
  assumes "quiet g" and "db_ok (pg_db g)" and "c_reenqueue_orphaned_after cfg \<le> t"
  shows "(\<exists>n g'. purge_terminal_tasks q w g = (Inr n, g')) \<and> (\<exists>n g'. prune_workers cfg t g = (Inr n, g'))"
proof
  have "with_conn (server_cutoff w) g = (Inr (pg_now g * 1000 - int w), g)"
    using assms(1) by (simp add: server_cutoff_def quiet_def stmt_quiet)
  then show "\<exists>n g'. purge_terminal_tasks q w g = (Inr n, g')"
    using purge_loop_quiet [OF assms(1)] by (simp add: purge_terminal_tasks_def purge_terminal_tasks_batched_def)
  show "\<exists>n g'. prune_workers cfg t g = (Inr n, g')"
    using assms prune_loop_quiet [OF assms(1,2)] by (simp add: prune_workers_def validate_prune_window_def)
qed

end
