(* ===== verification/Push.thy ===== *)
theory Push
  imports Models Workers
begin

text \<open>
  Enqueueing (\<^verbatim>\<open>src/queries/push.rs\<close>): the caps on caller-supplied columns, the batch in
  column-major form, the insert with \<^verbatim>\<open>ON CONFLICT DO NOTHING\<close>, the accountant that names the
  conflicting idempotency keys, the connection-bound enqueue and the sink's flush with its failure
  classified by phase.
\<close>

section \<open>Code of other crates and of the server\<close>

text \<open>
  \<open>px_meta\<close> is \<^verbatim>\<open>serde_json::to_string\<close>, \<open>px_jsonb\<close> the server's cast of a text to
  \<^verbatim>\<open>jsonb\<close>, \<open>px_datetime\<close> the constructor of a timestamp from Unix seconds, and
  \<open>px_ulid\<close> the ids \<^verbatim>\<open>Ulid::new\<close> yields for the tasks of a batch.
\<close>

record push_deps =
  px_meta :: "json \<Rightarrow> (string, string) result"
  px_jsonb :: "string \<Rightarrow> (diesel_error, json) result"
  px_datetime :: "int \<Rightarrow> timestamp option"
  px_ulid :: "nat \<Rightarrow> string"

section \<open>Caps\<close>

definition MAX_METADATA_PAYLOAD_LEN :: nat where "MAX_METADATA_PAYLOAD_LEN = 8 * 1024"
definition MAX_QUEUE_NAME_LEN :: nat where "MAX_QUEUE_NAME_LEN = 255"
definition MAX_IDEMPOTENCY_KEY_LEN :: nat where "MAX_IDEMPOTENCY_KEY_LEN = 1024"
definition MAX_JOB_PAYLOAD_LEN :: nat where "MAX_JOB_PAYLOAD_LEN = 1024 * 1024"

record validated_task =
  vt_run_at :: timestamp
  vt_meta_json :: string

definition validate_queue :: "config \<Rightarrow> (error, string) result" where
  "validate_queue cfg =
     (if MAX_QUEUE_NAME_LEN < length (c_queue cfg)
      then Inl (InvalidArgument ''queue name exceeds the 255-byte cap'')
      else Inr (c_queue cfg))"

definition validate_columns :: "push_deps \<Rightarrow> compact task \<Rightarrow> (error, validated_task) result" where
  "validate_columns px task =
     (if MAX_JOB_PAYLOAD_LEN < length (t_args task)
      then Inl (InvalidArgument ''task payload exceeds the 1048576-byte cap'')
      else if i64_max < int (t_run_at task)
      then Inl (InvalidArgument ''run_at exceeds i64::MAX seconds and cannot be stored'')
      else rbind (ok_or (px_datetime px (int (t_run_at task)))
                    (InvalidArgument ''run_at exceeds the supported timestamp range'')) (\<lambda>run_at.
           rbind (map_sum (\<lambda>m. InvalidArgument (''serializing task metadata: '' @ m)) id
                    (px_meta px (t_meta task))) (\<lambda>meta_json.
             if MAX_METADATA_PAYLOAD_LEN < length meta_json
             then Inl (InvalidArgument ''task metadata exceeds the 8192-byte cap'')
             else if (case t_idempotency_key task of
                        None \<Rightarrow> False | Some key \<Rightarrow> MAX_IDEMPOTENCY_KEY_LEN < length key)
             then Inl (InvalidArgument ''idempotency_key exceeds the 1024-byte cap'')
             else Inr \<lparr>vt_run_at = run_at, vt_meta_json = meta_json\<rparr>)))"

definition validate_task :: "push_deps \<Rightarrow> config \<Rightarrow> compact task \<Rightarrow> (error, unit) result" where
  "validate_task px cfg task =
     rbind (validate_queue cfg) (\<lambda>_. rbind (validate_columns px task) (\<lambda>_. Inr ()))"

section \<open>Batches\<close>

text \<open>The column-major bind arrays.\<close>

record job_batch_binds =
  bb_ids :: "string list"
  bb_job_type :: string
  bb_jobs :: "compact list"
  bb_max_attempts :: "int list"
  bb_run_ats :: "timestamp list"
  bb_priorities :: "int list"
  bb_metadata :: "string list"
  bb_idempotency_keys :: "string option list"

record prepared_batch =
  pb_binds :: job_batch_binds
  pb_task_count :: nat
  pb_any_idempotency_key :: bool

definition prepare_batch ::
    "push_deps \<Rightarrow> config \<Rightarrow> compact task list \<Rightarrow> (error, prepared_batch option) result" where
  "prepare_batch px cfg tasks =
     (if tasks = [] then Inr None
      else rbind (validate_queue cfg) (\<lambda>job_type.
           rbind (collect_results (map (validate_columns px) tasks)) (\<lambda>valid.
             let ids = map (\<lambda>(i, task). case t_task_id task of Some x \<Rightarrow> x | None \<Rightarrow> px_ulid px i)
                         (enumerate 0 tasks);
                 keys = map t_idempotency_key tasks
             in Inr (Some \<lparr>pb_binds = \<lparr>bb_ids = ids, bb_job_type = job_type, bb_jobs = map t_args tasks,
                    bb_max_attempts = map t_max_attempts tasks, bb_run_ats = map vt_run_at valid,
                    bb_priorities = map t_priority tasks, bb_metadata = map vt_meta_json valid,
                    bb_idempotency_keys = keys\<rparr>,
                  pb_task_count = length ids,
                  pb_any_idempotency_key = list_ex (\<lambda>k. k \<noteq> None) keys\<rparr>))))"

section \<open>The insert\<close>

text \<open>The rows \<^verbatim>\<open>SELECT unnest(...)\<close> produces from the bind arrays.\<close>

definition pending_row ::
    "string \<Rightarrow> string \<Rightarrow> compact \<Rightarrow> int \<Rightarrow> timestamp \<Rightarrow> int \<Rightarrow> json \<Rightarrow> string option \<Rightarrow> job_row" where
  "pending_row i job_type job max_attempts run_at priority metadata key =
     \<lparr>j_job = job, j_id = i, j_job_type = job_type, j_status = Pending, j_attempts = 0,
      j_max_attempts = max_attempts, j_run_at = run_at, j_last_result = None, j_lock_at = None,
      j_lock_by = None, j_done_at = None, j_priority = priority, j_metadata = Some metadata,
      j_idempotency_key = key\<rparr>"

definition unnest_rows :: "push_deps \<Rightarrow> job_batch_binds \<Rightarrow> (diesel_error, job_row list) result" where
  "unnest_rows px b =
     rbind (collect_results (map (px_jsonb px) (bb_metadata b))) (\<lambda>metas.
       Inr (map (\<lambda>n. pending_row (bb_ids b ! n) (bb_job_type b) (bb_jobs b ! n) (bb_max_attempts b ! n)
                  (bb_run_ats b ! n) (bb_priorities b ! n) (metas ! n) (bb_idempotency_keys b ! n))
             [0..<length (bb_ids b)]))"

text \<open>
  \<^verbatim>\<open>ON CONFLICT (job_type, idempotency_key) ... DO NOTHING\<close>, row by row: check constraints
  first, then the arbiter index skips a conflicting row, then the primary key.
\<close>

definition key_taken :: "job_row list \<Rightarrow> job_row \<Rightarrow> bool" where
  "key_taken js r \<longleftrightarrow> j_idempotency_key r \<noteq> None \<and>
     (j_job_type r, j_idempotency_key r) \<in> set (idem_keys js)"

fun insert_rows :: "job_row list \<Rightarrow> db \<Rightarrow> (diesel_error, job_row list) result \<times> db" where
  "insert_rows [] d = (Inr [], d)"
| "insert_rows (r # rs) d =
     (if \<not> job_checks r then (Inl check_violation, d)
      else if key_taken (jobs d) r then insert_rows rs d
      else if j_id r \<in> set (map j_id (jobs d)) then (Inl unique_violation, d)
      else (case insert_rows rs (d\<lparr>jobs := jobs d @ [r]\<rparr>) of
              (Inl e, d') \<Rightarrow> (Inl e, d') | (Inr ins, d') \<Rightarrow> (Inr (r # ins), d')))"

definition insert_stmt :: "push_deps \<Rightarrow> job_batch_binds \<Rightarrow> job_row list sql" where
  "insert_stmt px b = stmt ''inserting jobs'' (\<lambda>g.
     case unnest_rows px b of
       Inl e \<Rightarrow> (Inl e, pg_db g)
     | Inr rows \<Rightarrow> insert_rows rows (pg_db g))"

definition insert_batch :: "push_deps \<Rightarrow> prepared_batch \<Rightarrow> unit sql" where
  "insert_batch px batch = sbind (insert_stmt px (pb_binds batch)) (\<lambda>_. sreturn ())"

section \<open>The conflict accountant\<close>

text \<open>The hash map of inserted keys still to be matched, and the walk over the submitted keys.\<close>

definition inserted_counts :: "string option list \<Rightarrow> string \<Rightarrow> nat" where
  "inserted_counts keys = fold (\<lambda>k m. case k of None \<Rightarrow> m | Some x \<Rightarrow> m(x := m x + 1)) keys (\<lambda>_. 0)"

fun conflict_walk :: "(string \<Rightarrow> nat) \<Rightarrow> string list \<Rightarrow> string list \<Rightarrow> string list" where
  "conflict_walk remaining seen [] = []"
| "conflict_walk remaining seen (key # keys) =
     (if 0 < remaining key then conflict_walk (remaining(key := remaining key - 1)) seen keys
      else if key \<notin> set seen then key # conflict_walk remaining (key # seen) keys
      else conflict_walk remaining seen keys)"

definition submitted_keys :: "job_batch_binds \<Rightarrow> string list" where
  "submitted_keys b = map the (filter (\<lambda>k. k \<noteq> None) (bb_idempotency_keys b))"

definition insert_reporting_conflicts :: "push_deps \<Rightarrow> prepared_batch \<Rightarrow> unit sql" where
  "insert_reporting_conflicts px batch =
     sbind (insert_stmt px (pb_binds batch)) (\<lambda>inserted.
       if length inserted < pb_task_count batch
       then sthrow (idempotency_conflict (bb_job_type (pb_binds batch))
              (conflict_walk (inserted_counts (map j_idempotency_key inserted)) []
                 (submitted_keys (pb_binds batch)))
              (pb_task_count batch))
       else sreturn ())"

section \<open>The enqueue paths\<close>

definition push_tasks_on_conn :: "push_deps \<Rightarrow> config \<Rightarrow> compact task list \<Rightarrow> unit sql" where
  "push_tasks_on_conn px cfg tasks g =
     (case prepare_batch px cfg tasks of
        Inl e \<Rightarrow> (Inl e, g)
      | Inr None \<Rightarrow> (Inr (), g)
      | Inr (Some batch) \<Rightarrow>
          if pb_any_idempotency_key batch
          then transaction (insert_reporting_conflicts px batch) g
          else transaction (insert_batch px batch) g)"

datatype flush_failure =
    FlushNotStarted "compact task list" error
  | FlushRejected error
  | FlushUncertain error

text \<open>The closure on the blocking pool, once it has a connection.\<close>

definition flush_on_conn ::
    "push_deps \<Rightarrow> config \<Rightarrow> compact task list \<Rightarrow> pg \<Rightarrow> (flush_failure, unit) result \<times> pg" where
  "flush_on_conn px cfg tasks g =
     (case prepare_batch px cfg tasks of
        Inl e \<Rightarrow> (Inl (FlushRejected e), g)
      | Inr None \<Rightarrow> (Inr (), g)
      | Inr (Some batch) \<Rightarrow>
          (case (if pb_any_idempotency_key batch
                 then transaction (insert_reporting_conflicts px batch) g
                 else insert_batch px batch g) of
             (Inl e, g1) \<Rightarrow> (Inl (FlushUncertain e), g1)
           | (Inr _, g1) \<Rightarrow> (Inr (), g1)))"

definition flush_tasks ::
    "push_deps \<Rightarrow> config \<Rightarrow> compact task list \<Rightarrow> pg \<Rightarrow> (flush_failure, unit) result \<times> pg" where
  "flush_tasks px cfg tasks g =
     (case pg_pool g of
        [] \<Rightarrow> flush_on_conn px cfg tasks g
      | Checkout # rest \<Rightarrow> flush_on_conn px cfg tasks (g\<lparr>pg_pool := rest\<rparr>)
      | NoConnection m # rest \<Rightarrow> (Inl (FlushNotStarted tasks (Pool m)), g\<lparr>pg_pool := rest\<rparr>)
      | ExecutorLost m finished # rest \<Rightarrow>
          if finished
          then (Inl (FlushUncertain (Blocking m)), snd (flush_on_conn px cfg tasks (g\<lparr>pg_pool := rest\<rparr>)))
          else (Inl (FlushNotStarted tasks (Blocking m)), g\<lparr>pg_pool := rest\<rparr>))"

section \<open>Row-major view\<close>

text \<open>The row a task becomes.\<close>

definition task_row_for :: "push_deps \<Rightarrow> config \<Rightarrow> nat \<Rightarrow> compact task \<Rightarrow> (diesel_error, job_row) result" where
  "task_row_for px cfg n task =
     (case validate_columns px task of
        Inl _ \<Rightarrow> Inl (OtherDiesel ''not validated'')
      | Inr v \<Rightarrow> map_sum id (\<lambda>meta. pending_row
          (case t_task_id task of Some x \<Rightarrow> x | None \<Rightarrow> px_ulid px n) (c_queue cfg) (t_args task)
          (t_max_attempts task) (vt_run_at v) (t_priority task) meta (t_idempotency_key task))
          (px_jsonb px (vt_meta_json v)))"

definition batch_rows :: "push_deps \<Rightarrow> config \<Rightarrow> compact task list \<Rightarrow> (diesel_error, job_row list) result" where
  "batch_rows px cfg tasks = collect_results (map (\<lambda>(n, task). task_row_for px cfg n task) (enumerate 0 tasks))"

lemma validate_queue_Inr: "validate_queue cfg = Inr q \<longleftrightarrow> q = c_queue cfg \<and> length (c_queue cfg) \<le> MAX_QUEUE_NAME_LEN"
  by (auto simp: validate_queue_def)

lemma collect_results_total: "(\<forall>r \<in> set rs. \<exists>x. r = Inr x) \<Longrightarrow> \<exists>xs. collect_results rs = Inr xs"
  by (induction rs rule: collect_results.induct) auto

lemma validate_task_Inr:
  "validate_task px cfg task = Inr u \<longleftrightarrow>
   (\<exists>q. validate_queue cfg = Inr q) \<and> (\<exists>v. validate_columns px task = Inr v)"
  by (auto simp: validate_task_def rbind_eq_Inr)

lemma validated_tasks_prepared:
  "tasks \<noteq> [] \<Longrightarrow>
   (\<exists>batch. prepare_batch px cfg tasks = Inr (Some batch)) \<longleftrightarrow>
   (\<forall>task \<in> set tasks. validate_task px cfg task = Inr ())"
proof -
  assume ne: "tasks \<noteq> []"
  have "(\<exists>vs. collect_results (map (validate_columns px) tasks) = Inr vs) \<longleftrightarrow>
      (\<forall>task \<in> set tasks. \<exists>v. validate_columns px task = Inr v)"
  proof
    assume "\<exists>vs. collect_results (map (validate_columns px) tasks) = Inr vs"
    then obtain vs where "map (validate_columns px) tasks = map Inr vs" by (auto simp: collect_results_Inr_iff)
    then have "set (map (validate_columns px) tasks) = Inr ` set vs" by (metis list.set_map)
    then show "\<forall>task \<in> set tasks. \<exists>v. validate_columns px task = Inr v" by (auto simp: image_iff)
  qed (auto intro!: collect_results_total)
  moreover have "(\<forall>task \<in> set tasks. validate_task px cfg task = Inr ()) \<longleftrightarrow>
      (\<exists>q. validate_queue cfg = Inr q) \<and> (\<forall>task \<in> set tasks. \<exists>v. validate_columns px task = Inr v)"
    using ne by (cases tasks) (auto simp: validate_task_Inr)
  ultimately show ?thesis
    using ne by (auto simp: prepare_batch_def rbind_eq_Inr Let_def)
qed

text \<open>
  The per-task check made before buffering is exactly the check the batch makes: a batch of
  tasks that each passed \<open>validate_task\<close> is always prepared, and a batch is prepared only when
  each of its tasks passes, so no task is rejected after it was accepted, and no cap is skipped.
\<close>

lemma validated_tasks_are_prepared:
  "tasks \<noteq> [] \<Longrightarrow>
   (\<exists>batch. prepare_batch px cfg tasks = Inr (Some batch)) \<longleftrightarrow>
   (\<forall>task \<in> set tasks. validate_task px cfg task = Inr ())"
  by (rule validated_tasks_prepared)

section \<open>Columns and rows\<close>

lemma collect_results_nth:
  "collect_results rs = Inr xs \<Longrightarrow> length xs = length rs \<and> (\<forall>n < length rs. rs ! n = Inr (xs ! n))"
  by (auto simp: collect_results_Inr_iff)

lemma collect_results_map_cong:
  assumes "length vs = length ts" and "\<And>n. n < length ts \<Longrightarrow> f (n, ts ! n) = map_sum id (h n) (p (vs ! n))"
  shows "collect_results (map f (enumerate 0 ts)) =
    rbind (collect_results (map p vs)) (\<lambda>ms. Inr (map (\<lambda>n. h n (ms ! n)) [0..<length ts]))"
proof -
  have "collect_results (map f (enumerate k ts)) =
      rbind (collect_results (map p vs)) (\<lambda>ms. Inr (map (\<lambda>n. h (k + n) (ms ! n)) [0..<length ts]))"
    if "length vs = length ts" "\<And>n. n < length ts \<Longrightarrow> f (k + n, ts ! n) = map_sum id (h (k + n)) (p (vs ! n))" for k
    using that
  proof (induction ts arbitrary: k vs)
    case (Cons t ts)
    then obtain v vs' where vs: "vs = v # vs'" "length vs' = length ts" by (cases vs) auto
    have hd: "f (k, t) = map_sum id (h k) (p v)" using Cons.prems(2) [of 0] vs by (simp add: id_def)
    have "f (Suc k + n, ts ! n) = map_sum id (h (Suc k + n)) (p (vs' ! n))" if "n < length ts" for n
      using Cons.prems(2) [of "Suc n"] that vs by (simp add: id_def)
    note IH = Cons.IH [OF vs(2) this]
    have tl: "map (\<lambda>n. h (k + n) ((m # ms) ! n)) [Suc 0..<Suc (length ts)] = map (\<lambda>n. h (Suc k + n) (ms ! n)) [0..<length ts]"
      for m ms by (rule nth_equalityI) (simp_all del: upt_Suc)
    show ?case
    proof (cases "p v")
      case (Inl e)
      then show ?thesis using hd vs by simp
    next
      case (Inr m)
      then show ?thesis
        using hd vs IH tl by (cases "collect_results (map p vs')") (simp_all add: upt_conv_Cons del: upt_Suc)
    qed
  qed simp
  from this [of 0] assms show ?thesis by simp
qed

lemma binds_carry:
  assumes "prepare_batch px cfg tasks = Inr (Some batch)"
  shows "unnest_rows px (pb_binds batch) = batch_rows px cfg tasks \<and>
    pb_task_count batch = length tasks \<and>
    (pb_any_idempotency_key batch \<longleftrightarrow> (\<exists>task \<in> set tasks. t_idempotency_key task \<noteq> None)) \<and>
    submitted_keys (pb_binds batch) = map the (filter (\<lambda>k. k \<noteq> None) (map t_idempotency_key tasks))"
proof -
  let ?id = "\<lambda>n task. case t_task_id task of Some x \<Rightarrow> x | None \<Rightarrow> px_ulid px n"
  from assms obtain vs where vs: "collect_results (map (validate_columns px) tasks) = Inr vs"
    and b: "pb_binds batch = \<lparr>bb_ids = map (\<lambda>(i, task). ?id i task) (enumerate 0 tasks),
        bb_job_type = c_queue cfg, bb_jobs = map t_args tasks, bb_max_attempts = map t_max_attempts tasks,
        bb_run_ats = map vt_run_at vs, bb_priorities = map t_priority tasks, bb_metadata = map vt_meta_json vs,
        bb_idempotency_keys = map t_idempotency_key tasks\<rparr>"
    and rest: "pb_task_count batch = length tasks"
      "pb_any_idempotency_key batch = list_ex (\<lambda>k. k \<noteq> None) (map t_idempotency_key tasks)"
    by (auto simp: prepare_batch_def rbind_eq_Inr validate_queue_Inr Let_def split: if_splits)
  let ?row = "\<lambda>n meta. pending_row (?id n (tasks ! n)) (c_queue cfg) (t_args (tasks ! n))
      (t_max_attempts (tasks ! n)) (vt_run_at (vs ! n)) (t_priority (tasks ! n)) meta (t_idempotency_key (tasks ! n))"
  have len: "length vs = length tasks" and nth: "\<And>n. n < length tasks \<Longrightarrow> validate_columns px (tasks ! n) = Inr (vs ! n)"
    using collect_results_nth [OF vs] by simp_all
  have "batch_rows px cfg tasks = rbind (collect_results (map (\<lambda>v. px_jsonb px (vt_meta_json v)) vs))
      (\<lambda>ms. Inr (map (\<lambda>n. ?row n (ms ! n)) [0..<length tasks]))"
    unfolding batch_rows_def
    by (rule collect_results_map_cong [OF len]) (simp add: task_row_for_def nth)
  also have "\<dots> = unnest_rows px (pb_binds batch)"
    unfolding unnest_rows_def b
    by (cases "collect_results (map (\<lambda>v. px_jsonb px (vt_meta_json v)) vs)")
       (simp_all add: comp_def len nth_enumerate_eq)
  finally show ?thesis using rest b by (auto simp: submitted_keys_def list_ex_iff)
qed

text \<open>
  C39. The column-major bind arrays of a prepared batch carry the tasks faithfully: unnesting them
  gives, in order, one \<open>Pending\<close> row per task with that task's id, payload, budget, run time,
  priority, metadata and idempotency key, in the configured queue.
\<close>

theorem binds_carry_tasks:
  assumes "prepare_batch px cfg tasks = Inr (Some batch)"
  shows "unnest_rows px (pb_binds batch) = batch_rows px cfg tasks \<and>
    pb_task_count batch = length tasks \<and>
    (pb_any_idempotency_key batch \<longleftrightarrow> (\<exists>task \<in> set tasks. t_idempotency_key task \<noteq> None)) \<and>
    submitted_keys (pb_binds batch) = map the (filter (\<lambda>k. k \<noteq> None) (map t_idempotency_key tasks))"
  using assms by (rule binds_carry)

section \<open>Inserted rows\<close>

lemma insert_rows_Inr:
  "insert_rows rs d = (Inr ins, d') \<Longrightarrow>
   d' = d\<lparr>jobs := jobs d @ ins\<rparr> \<and> subseq ins rs \<and> (\<forall>r \<in> set ins. job_checks r)"
proof (induction rs d arbitrary: ins rule: insert_rows.induct)
  case (2 r rs d)
  show ?case
  proof (cases "key_taken (jobs d) r")
    case True
    then show ?thesis using 2 by (auto split: if_splits)
  next
    case False
    with 2(3) obtain ins' where ins: "ins = r # ins'" "job_checks r" "j_id r \<notin> set (map j_id (jobs d))"
      and rest: "insert_rows rs (d\<lparr>jobs := jobs d @ [r]\<rparr>) = (Inr ins', d')"
      by (auto split: if_splits prod.splits sum.splits)
    from 2(2) [OF _ False _ rest] ins show ?thesis by auto
  qed
qed auto

lemma insert_rows_ids:
  "insert_rows rs d = (Inr ins, d') \<Longrightarrow> distinct (map j_id (jobs d)) \<Longrightarrow> distinct (map j_id (jobs d'))"
proof (induction rs d arbitrary: ins rule: insert_rows.induct)
  case (2 r rs d)
  show ?case
  proof (cases "key_taken (jobs d) r")
    case True
    then show ?thesis using 2 by (auto split: if_splits)
  next
    case False
    with 2(3) obtain ins' where ins: "job_checks r" "j_id r \<notin> set (map j_id (jobs d))"
      and rest: "insert_rows rs (d\<lparr>jobs := jobs d @ [r]\<rparr>) = (Inr ins', d')"
      by (auto split: if_splits prod.splits sum.splits)
    from 2(2) [OF _ False _ rest] ins 2(4) show ?thesis by auto
  qed
qed auto

lemma idem_keys_append [simp]: "idem_keys (xs @ ys) = idem_keys xs @ idem_keys ys"
  by (simp add: idem_keys_def)

lemma idem_keys_one: "idem_keys [r] = (if j_idempotency_key r = None then [] else [(j_job_type r, j_idempotency_key r)])"
  by (simp add: idem_keys_def)

lemma insert_rows_keys:
  "insert_rows rs d = (Inr ins, d') \<Longrightarrow> distinct (idem_keys (jobs d)) \<Longrightarrow> distinct (idem_keys (jobs d'))"
proof (induction rs d arbitrary: ins rule: insert_rows.induct)
  case (2 r rs d)
  show ?case
  proof (cases "key_taken (jobs d) r")
    case True
    then show ?thesis using 2 by (auto split: if_splits)
  next
    case False
    with 2(3) obtain ins' where ins: "job_checks r" "j_id r \<notin> set (map j_id (jobs d))"
      and rest: "insert_rows rs (d\<lparr>jobs := jobs d @ [r]\<rparr>) = (Inr ins', d')"
      by (auto split: if_splits prod.splits sum.splits)
    have "distinct (idem_keys (jobs (d\<lparr>jobs := jobs d @ [r]\<rparr>)))"
      using False 2(4) by (auto simp: idem_keys_one key_taken_def)
    from 2(2) [OF _ False _ rest] ins this show ?thesis by auto
  qed
qed auto

text \<open>How often a key of the queue lands: once, unless it is stored already.\<close>

lemma insert_rows_count:
  assumes "insert_rows rs d = (Inr ins, d')" and "\<forall>r \<in> set rs. j_job_type r = q"
  shows "count_list (map j_idempotency_key ins) (Some k) =
    (if (q, Some k) \<in> set (idem_keys (jobs d)) \<or> Some k \<notin> set (map j_idempotency_key rs) then 0 else 1)"
  using assms
proof (induction rs d arbitrary: ins rule: insert_rows.induct)
  case (2 r rs d)
  show ?case
  proof (cases "key_taken (jobs d) r")
    case True
    with 2 have "count_list (map j_idempotency_key ins) (Some k) =
      (if (q, Some k) \<in> set (idem_keys (jobs d)) \<or> Some k \<notin> set (map j_idempotency_key rs) then 0 else 1)"
      by (auto split: if_splits)
    with True 2(4) show ?thesis by (auto simp: key_taken_def)
  next
    case False
    with 2(3) obtain ins' where ins: "ins = r # ins'" "job_checks r" "j_id r \<notin> set (map j_id (jobs d))"
      and rest: "insert_rows rs (d\<lparr>jobs := jobs d @ [r]\<rparr>) = (Inr ins', d')"
      by (auto split: if_splits prod.splits sum.splits)
    have "count_list (map j_idempotency_key ins') (Some k) =
      (if (q, Some k) \<in> set (idem_keys (jobs d @ [r])) \<or> Some k \<notin> set (map j_idempotency_key rs) then 0 else 1)"
      using 2(2) [OF _ False _ rest] ins 2(4) by auto
    with False ins 2(4) show ?thesis by (auto simp: idem_keys_one key_taken_def)
  qed
qed auto

lemma insert_rows_keyless:
  "insert_rows rs d = (Inr ins, d') \<Longrightarrow> \<forall>r \<in> set rs. j_idempotency_key r = None \<Longrightarrow> ins = rs"
  by (induction rs d arbitrary: ins rule: insert_rows.induct)
     (auto simp: key_taken_def split: if_splits prod.splits sum.splits)

text \<open>The keys that keep a batch from landing whole.\<close>

definition conflicting :: "string \<Rightarrow> job_row list \<Rightarrow> string list \<Rightarrow> string set" where
  "conflicting q js ks = {k \<in> set ks. (q, Some k) \<in> set (idem_keys js) \<or> 2 \<le> count_list ks k}"

section \<open>The accountant\<close>

lemma inserted_counts_eq: "inserted_counts keys k = count_list keys (Some k)"
proof -
  have "fold (\<lambda>k m. case k of None \<Rightarrow> m | Some x \<Rightarrow> m(x := m x + 1)) keys m k = m k + count_list keys (Some k)" for m
    by (induction keys arbitrary: m) (auto split: option.splits)
  then show ?thesis by (simp add: inserted_counts_def)
qed

lemma conflict_walk_spec:
  "distinct (conflict_walk c seen ks) \<and>
   set (conflict_walk c seen ks) = {k \<in> set ks. c k < count_list ks k} - set seen"
proof (induction c seen ks rule: conflict_walk.induct)
  case (2 c seen key ks)
  show ?case
  proof (cases "0 < c key")
    case True
    have eq: "{k \<in> set ks. (c(key := c key - 1)) k < count_list ks k} = {k \<in> set (key # ks). c k < count_list (key # ks) k}"
      using True count_notin [of key ks] by (cases "key \<in> set ks") auto
    have cw: "conflict_walk c seen (key # ks) = conflict_walk (c(key := c key - 1)) seen ks" using True by simp
    show ?thesis unfolding cw using 2(1) [OF True] unfolding eq .
  next
    case zero: False
    have all: "{k \<in> set (key # ks). c k < count_list (key # ks) k} = insert key {k \<in> set ks. c k < count_list ks k}"
      using zero by (auto simp: count_list_0_iff split: if_splits)
    show ?thesis
    proof (cases "key \<in> set seen")
      case True
      have "conflict_walk c seen (key # ks) = conflict_walk c seen ks" using zero True by simp
      then show ?thesis using 2(3) zero True unfolding all by auto
    next
      case False
      have "conflict_walk c seen (key # ks) = key # conflict_walk c (key # seen) ks" using zero False by simp
      then show ?thesis using 2(2) zero False unfolding all by auto
    qed
  qed
qed simp

section \<open>The paths\<close>

lemma insert_stmt_InrE:
  assumes "insert_stmt px b g = (Inr ins, g')"
  obtains g1 rows where "later g g1" "unnest_rows px b = Inr rows"
    "insert_rows rows (pg_db g) = (Inr ins, pg_db g')" "g' = g1\<lparr>pg_db := pg_db g'\<rparr>"
proof -
  from assms obtain g1 d where g1: "later g g1" "g' = g1\<lparr>pg_db := d\<rparr>"
    and body: "(case unnest_rows px b of Inl e \<Rightarrow> (Inl e, pg_db g1) | Inr rows \<Rightarrow> insert_rows rows (pg_db g1))
      = (Inr ins, d)" unfolding insert_stmt_def by (rule stmt_InrE)
  from body laterD(1) [OF g1(1)] obtain rows where "unnest_rows px b = Inr rows"
    "insert_rows rows (pg_db g) = (Inr ins, d)" by (cases "unnest_rows px b") auto
  with g1 show thesis by (intro that [of g1 rows]) auto
qed

definition task_keys :: "compact task list \<Rightarrow> string list" where
  "task_keys tasks = map the (filter (\<lambda>k. k \<noteq> None) (map t_idempotency_key tasks))"

lemma batch_rows_Inr:
  assumes "batch_rows px cfg tasks = Inr rows"
  shows "length rows = length tasks" and "map j_idempotency_key rows = map t_idempotency_key tasks"
    and "\<forall>r \<in> set rows. j_job_type r = c_queue cfg \<and> j_status r = Pending"
proof -
  let ?f = "\<lambda>(n, task). task_row_for px cfg n task"
  have len: "length rows = length tasks"
    and nth: "\<And>n. n < length tasks \<Longrightarrow> task_row_for px cfg n (tasks ! n) = Inr (rows ! n)"
    using collect_results_nth [OF assms [unfolded batch_rows_def]] by (simp_all add: nth_enumerate_eq)
  have row: "j_idempotency_key r = t_idempotency_key task \<and> j_job_type r = c_queue cfg \<and> j_status r = Pending"
    if "task_row_for px cfg n task = Inr r" for n task r
    using that by (cases "px_jsonb px (vt_meta_json (projr (validate_columns px task)))")
      (auto simp: task_row_for_def pending_row_def split: sum.splits)
  show "length rows = length tasks" by (rule len)
  show "map j_idempotency_key rows = map t_idempotency_key tasks"
    using len row [OF nth] by (intro nth_equalityI) auto
  show "\<forall>r \<in> set rows. j_job_type r = c_queue cfg \<and> j_status r = Pending"
    using len row [OF nth] by (metis in_set_conv_nth)
qed

lemma count_the: "count_list (map the (filter (\<lambda>k. k \<noteq> None) ks)) x = count_list ks (Some x)"
  by (induction ks) auto

lemma count_subseq_le: "subseq xs ys \<Longrightarrow> count_list xs x \<le> count_list ys x"
  by (induction rule: list_emb.induct) auto

lemma insert_rows_all:
  "insert_rows rs d = (Inr xs, e') \<Longrightarrow> \<forall>r \<in> set rs. j_job_type r = q \<Longrightarrow>
   \<forall>k. count_list (map j_idempotency_key rs) (Some k) \<le> (if (q, Some k) \<in> set (idem_keys (jobs d)) then 0 else 1) \<Longrightarrow>
   xs = rs"
proof (induction rs d arbitrary: xs rule: insert_rows.induct)
  case (2 r rs d)
  have bound: "count_list (map j_idempotency_key (r # rs)) (Some k) \<le>
      (if (q, Some k) \<in> set (idem_keys (jobs d)) then 0 else 1)" for k
    using 2(5) by blast
  have nt: "\<not> key_taken (jobs d) r"
  proof
    assume "key_taken (jobs d) r"
    then obtain k where "j_idempotency_key r = Some k" "(q, Some k) \<in> set (idem_keys (jobs d))"
      using 2(4) by (auto simp: key_taken_def)
    with bound [of k] show False by simp
  qed
  with 2(3) obtain xs' where xs: "xs = r # xs'" "job_checks r" "j_id r \<notin> set (map j_id (jobs d))"
    and rest: "insert_rows rs (d\<lparr>jobs := jobs d @ [r]\<rparr>) = (Inr xs', e')"
    by (auto split: if_splits prod.splits sum.splits)
  have "count_list (map j_idempotency_key rs) (Some k) \<le>
      (if (q, Some k) \<in> set (idem_keys (jobs d @ [r])) then 0 else 1)" for k
    using bound [of k] 2(4) by (cases "j_idempotency_key r = Some k") (auto simp: idem_keys_one split: if_splits)
  with 2(2) [OF _ nt _ rest] xs 2(4) show ?case by auto
qed auto

text \<open>A keyed insert that lost rows names exactly the keys that kept them out.\<close>

lemma walk_conflicting:
  assumes ins: "insert_rows rows (pg_db g) = (Inr ins, d')" and rows: "batch_rows px cfg tasks = Inr rows"
  shows "set (conflict_walk (inserted_counts (map j_idempotency_key ins)) [] (task_keys tasks)) =
      conflicting (c_queue cfg) (jobs (pg_db g)) (task_keys tasks)"
    and "length ins < length tasks \<Longrightarrow> conflicting (c_queue cfg) (jobs (pg_db g)) (task_keys tasks) \<noteq> {}"
proof -
  note br = batch_rows_Inr [OF rows]
  have inq: "\<forall>r \<in> set rows. j_job_type r = c_queue cfg" using br(3) by blast
  have cnt: "count_list (task_keys tasks) k = count_list (map j_idempotency_key rows) (Some k)" for k
    unfolding task_keys_def count_the br(2) ..
  have mem: "k \<in> set (task_keys tasks) \<longleftrightarrow> Some k \<in> set (map j_idempotency_key rows)" for k
    using cnt [of k] by (metis count_list_0_iff)
  have ic: "inserted_counts (map j_idempotency_key ins) k =
    (if (c_queue cfg, Some k) \<in> set (idem_keys (jobs (pg_db g))) \<or> k \<notin> set (task_keys tasks) then 0 else 1)" for k
    unfolding inserted_counts_eq mem by (rule insert_rows_count [OF ins inq])
  have pos: "k \<in> set (task_keys tasks) \<Longrightarrow> 0 < count_list (task_keys tasks) k" for k
    by (metis count_list_0_iff gr0I)
  show eq: "set (conflict_walk (inserted_counts (map j_idempotency_key ins)) [] (task_keys tasks)) =
      conflicting (c_queue cfg) (jobs (pg_db g)) (task_keys tasks)"
    using conflict_walk_spec [of "inserted_counts (map j_idempotency_key ins)" "[]" "task_keys tasks"] pos
    unfolding conflicting_def ic by (fastforce split: if_splits)
  assume short: "length ins < length tasks"
  show "conflicting (c_queue cfg) (jobs (pg_db g)) (task_keys tasks) \<noteq> {}"
  proof
    assume none: "conflicting (c_queue cfg) (jobs (pg_db g)) (task_keys tasks) = {}"
    have "count_list (map j_idempotency_key rows) (Some k) \<le>
          (if (c_queue cfg, Some k) \<in> set (idem_keys (jobs (pg_db g))) then 0 else 1)" for k
    proof (cases "k \<in> set (task_keys tasks)")
      case True
      with none have "(c_queue cfg, Some k) \<notin> set (idem_keys (jobs (pg_db g)))" "\<not> 2 \<le> count_list (task_keys tasks) k"
        by (auto simp: conflicting_def)
      then show ?thesis using cnt [of k] by simp
    next
      case False
      then show ?thesis using cnt [of k] count_notin [OF False] by simp
    qed
    then have "ins = rows" by (intro insert_rows_all [OF ins inq]) blast
    with short br(1) show False by simp
  qed
qed
lemma subseq_full: "subseq xs ys \<Longrightarrow> length ys \<le> length xs \<Longrightarrow> xs = ys"
  by (metis list_emb_length order_antisym subseq_same_length)

text \<open>What a prepared batch writes when its statement returns: everything.\<close>

definition lands :: "push_deps \<Rightarrow> config \<Rightarrow> compact task list \<Rightarrow> db \<Rightarrow> db \<Rightarrow> bool" where
  "lands px cfg tasks d d' \<longleftrightarrow>
     (\<exists>rows. batch_rows px cfg tasks = Inr rows \<and> d' = d\<lparr>jobs := jobs d @ rows\<rparr> \<and>
        conflicting (c_queue cfg) (jobs d) (task_keys tasks) = {})"

lemma insert_rows_keyless_none:
  assumes "\<forall>task \<in> set tasks. t_idempotency_key task = None"
  shows "conflicting q js (task_keys tasks) = {}"
  using assms by (auto simp: conflicting_def task_keys_def)

lemma keyless_rows_land:
  assumes prep: "prepare_batch px cfg tasks = Inr (Some batch)" and nokey: "\<not> pb_any_idempotency_key batch"
    and run: "(case unnest_rows px (pb_binds batch) of Inl e \<Rightarrow> (Inl e, d) | Inr rows \<Rightarrow> insert_rows rows d)
      = (Inr ins, d')"
  shows "lands px cfg tasks d d'"
proof -
  note bc = binds_carry [OF prep]
  from run bc obtain rows where rows: "batch_rows px cfg tasks = Inr rows" and ins: "insert_rows rows d = (Inr ins, d')"
    by (cases "batch_rows px cfg tasks") auto
  have none: "\<forall>task \<in> set tasks. t_idempotency_key task = None" using bc nokey by blast
  then have "\<forall>r \<in> set rows. j_idempotency_key r = None"
    using batch_rows_Inr(2) [OF rows] by (metis (no_types, lifting) image_eqI image_iff list.set_map)
  with ins have "ins = rows" by (rule insert_rows_keyless)
  with insert_rows_Inr [OF ins] rows insert_rows_keyless_none [OF none] show ?thesis by (auto simp: lands_def)
qed

lemma insert_batch_lands:
  assumes "prepare_batch px cfg tasks = Inr (Some batch)" and "\<not> pb_any_idempotency_key batch"
    and "insert_batch px batch g = (Inr u, g')"
  shows "lands px cfg tasks (pg_db g) (pg_db g')"
proof -
  from assms(3) obtain ins g1 rows where "unnest_rows px (pb_binds batch) = Inr rows"
    "insert_rows rows (pg_db g) = (Inr ins, pg_db g')"
    unfolding insert_batch_def by (auto elim!: sbind_InrE insert_stmt_InrE)
  then show ?thesis using keyless_rows_land [OF assms(1,2), of "pg_db g" ins "pg_db g'"] by simp
qed

lemma keyed_insert_lands:
  assumes prep: "prepare_batch px cfg tasks = Inr (Some batch)"
    and run: "insert_reporting_conflicts px batch g = (Inr u, g')"
  shows "lands px cfg tasks (pg_db g) (pg_db g')"
proof -
  note bc = binds_carry [OF prep]
  from run obtain ins g1 where st: "insert_stmt px (pb_binds batch) g = (Inr ins, g1)"
    and len: "\<not> length ins < length tasks" "g1 = g'"
    unfolding insert_reporting_conflicts_def using bc by (auto elim!: sbind_InrE split: if_splits)
  from st obtain rows where rows: "batch_rows px cfg tasks = Inr rows"
    and ins: "insert_rows rows (pg_db g) = (Inr ins, pg_db g')"
    using bc len(2) by (auto elim!: insert_stmt_InrE)
  have "ins = rows"
    using insert_rows_Inr [OF ins] len(1) batch_rows_Inr(1) [OF rows] subseq_full by fastforce
  moreover have "conflicting (c_queue cfg) (jobs (pg_db g)) (task_keys tasks) = {}"
  proof (rule ccontr)
    assume "conflicting (c_queue cfg) (jobs (pg_db g)) (task_keys tasks) \<noteq> {}"
    then obtain k where k: "k \<in> set (task_keys tasks)"
      "(c_queue cfg, Some k) \<in> set (idem_keys (jobs (pg_db g))) \<or> 2 \<le> count_list (task_keys tasks) k"
      by (auto simp: conflicting_def)
    have "count_list (map j_idempotency_key ins) (Some k) = count_list (task_keys tasks) k"
      unfolding \<open>ins = rows\<close> batch_rows_Inr(2) [OF rows] task_keys_def count_the ..
    moreover have "\<forall>r \<in> set rows. j_job_type r = c_queue cfg" using batch_rows_Inr(3) [OF rows] by blast
    ultimately show False
      using insert_rows_count [OF ins, of "c_queue cfg" k] k
      by (auto split: if_splits) (metis count_notin count_list_0_iff)+
  qed
  ultimately show ?thesis using rows insert_rows_Inr [OF ins] by (auto simp: lands_def)
qed

lemma keyed_insert_conflict:
  assumes prep: "prepare_batch px cfg tasks = Inr (Some batch)"
    and run: "insert_reporting_conflicts px batch g = (Inl (IdempotencyConflict q keys n), g')"
  shows "q = c_queue cfg \<and> n = length tasks \<and> distinct keys \<and> keys \<noteq> [] \<and>
    set keys = conflicting (c_queue cfg) (jobs (pg_db g)) (task_keys tasks)"
proof -
  note bc = binds_carry [OF prep]
  have jt: "bb_job_type (pb_binds batch) = c_queue cfg"
    using prep by (auto simp: prepare_batch_def rbind_eq_Inr validate_queue_Inr Let_def split: if_splits)
  obtain r g1 where st: "insert_stmt px (pb_binds batch) g = (r, g1)" by fastforce
  have "\<exists>ins. r = Inr ins"
  proof (cases r)
    case (Inl e)
    with st have "insert_stmt px (pb_binds batch) g = (Inl e, g1)" by simp
    then have "\<exists>de. e = error_database ''inserting jobs'' de" unfolding insert_stmt_def by (rule stmt_InlE) blast
    with run st Inl show ?thesis by (auto simp: insert_reporting_conflicts_def error_database_def)
  qed simp
  then obtain ins where ins: "r = Inr ins" by blast
  with st run bc jt have *: "length ins < length tasks" "q = c_queue cfg" "n = length tasks"
    "keys = conflict_walk (inserted_counts (map j_idempotency_key ins)) [] (task_keys tasks)"
    by (auto simp: insert_reporting_conflicts_def idempotency_conflict_def task_keys_def split: if_splits)
  from st ins obtain rows where rows: "batch_rows px cfg tasks = Inr rows"
    and ir: "insert_rows rows (pg_db g) = (Inr ins, pg_db g1)"
    using bc by (auto elim!: insert_stmt_InrE)
  note wc = walk_conflicting [OF ir rows]
  show ?thesis
    using * wc(1) wc(2) [OF *(1)] conflict_walk_spec [of "inserted_counts (map j_idempotency_key ins)" "[]" "task_keys tasks"]
    by auto
qed

lemma prepare_batch_error:
  assumes "prepare_batch px cfg tasks = Inl e"
  shows "\<exists>m. e = InvalidArgument m"
proof -
  have "\<exists>m. e' = InvalidArgument m" if "validate_columns px t = Inl e'" for t e'
    using that
    by (auto simp: validate_columns_def rbind_eq_Inl ok_or_def map_sum_def split: if_splits option.splits sum.splits)
  then show ?thesis
    using assms
    by (auto simp: prepare_batch_def rbind_eq_Inl validate_queue_def Let_def split: if_splits
        dest!: collect_results_Inl)
qed

lemma insert_batch_no_conflict: "insert_batch px batch g \<noteq> (Inl (IdempotencyConflict q keys n), g')"
proof
  assume "insert_batch px batch g = (Inl (IdempotencyConflict q keys n), g')"
  then have "insert_stmt px (pb_binds batch) g = (Inl (IdempotencyConflict q keys n), g')"
    by (auto simp: insert_batch_def sbind_def split: prod.splits sum.splits)
  then show False unfolding insert_stmt_def by (rule stmt_InlE) (simp add: error_database_def)
qed

lemma flush_on_conn_cases:
  assumes run: "flush_on_conn px cfg tasks g = (s, g')" and ne: "tasks \<noteq> []"
  shows "(\<exists>e. s = Inl (FlushRejected e)) \<and> pg_db g' = pg_db g \<and> (\<exists>task \<in> set tasks. validate_task px cfg task \<noteq> Inr ()) \<or>
    s = Inr () \<and> lands px cfg tasks (pg_db g) (pg_db g') \<or>
    (\<exists>e. s = Inl (FlushUncertain e)) \<and> (pg_db g' = pg_db g \<or> lands px cfg tasks (pg_db g) (pg_db g'))"
proof (cases "prepare_batch px cfg tasks")
  case (Inl e)
  moreover have "\<exists>task \<in> set tasks. validate_task px cfg task \<noteq> Inr ()"
    using validated_tasks_prepared [OF ne, of px cfg] Inl by auto
  ultimately show ?thesis using run by (auto simp: flush_on_conn_def)
next
  case (Inr b)
  then obtain batch where prep: "prepare_batch px cfg tasks = Inr (Some batch)"
    using ne by (auto simp: prepare_batch_def rbind_eq_Inr Let_def split: if_splits)
  show ?thesis
  proof (cases "pb_any_idempotency_key batch")
    case True
    obtain r where t: "transaction (insert_reporting_conflicts px batch) g = (r, g')"
      and s: "s = (case r of Inl e \<Rightarrow> Inl (FlushUncertain e) | Inr _ \<Rightarrow> Inr ())"
      using run prep True by (auto simp: flush_on_conn_def split: prod.splits sum.splits)
    from t have "(pg_db g' = pg_db g \<and> (\<exists>e. r = Inl e)) \<or> lands px cfg tasks (pg_db g) (pg_db g')"
    proof (cases rule: transaction_cases)
      case (committed g1 x g2 flt)
      from keyed_insert_lands [OF prep committed(3)] show ?thesis
        using laterD(1) [OF committed(1)] laterD(1) [OF next_step_later [OF committed(4)]] by simp
    qed simp
    with s show ?thesis by (auto split: sum.splits)
  next
    case False
    obtain r where t: "insert_batch px batch g = (r, g')"
      and s: "s = (case r of Inl e \<Rightarrow> Inl (FlushUncertain e) | Inr _ \<Rightarrow> Inr ())"
      using run prep False by (auto simp: flush_on_conn_def split: prod.splits sum.splits)
    show ?thesis
    proof (cases r)
      case (Inr u)
      with insert_batch_lands [OF prep False] t s show ?thesis by simp
    next
      case (Inl e)
      with t have "insert_stmt px (pb_binds batch) g = (Inl e, g')"
        by (auto simp: insert_batch_def sbind_def split: prod.splits sum.splits)
      then have "pg_db g' = pg_db g \<or> lands px cfg tasks (pg_db g) (pg_db g')"
        unfolding insert_stmt_def
      proof (rule stmt_InlE)
        fix g1 de
        assume l: "later g g1" and "pg_db g' = pg_db g \<or>
          (\<exists>x. (case unnest_rows px (pb_binds batch) of Inl e \<Rightarrow> (Inl e, pg_db g1)
               | Inr rows \<Rightarrow> insert_rows rows (pg_db g1)) = (Inr x, pg_db g'))"
        then show ?thesis
          using keyless_rows_land [OF prep False, of "pg_db g1" _ "pg_db g'"] laterD(1) [OF l] by auto
      qed
      with s Inl show ?thesis by simp
    qed
  qed
qed

lemma push_all_or_nothing_raw:
  assumes run: "push_tasks_on_conn px cfg tasks g = (r, g')" and ne: "tasks \<noteq> []"
  shows "(pg_db g' = pg_db g \<or> lands px cfg tasks (pg_db g) (pg_db g')) \<and>
    (r = Inr () \<longrightarrow> lands px cfg tasks (pg_db g) (pg_db g')) \<and>
    (r = Inl (IdempotencyConflict q keys n) \<longrightarrow>
       pg_db g' = pg_db g \<and> q = c_queue cfg \<and> n = length tasks \<and> distinct keys \<and> keys \<noteq> [] \<and>
       set keys = {k \<in> set (task_keys tasks). (q, Some k) \<in> set (idem_keys (jobs (pg_db g))) \<or>
                                              2 \<le> count_list (task_keys tasks) k})"
proof (cases "prepare_batch px cfg tasks")
  case (Inl e)
  then obtain m where "e = InvalidArgument m" using prepare_batch_error by blast
  with Inl run show ?thesis by (auto simp: push_tasks_on_conn_def)
next
  case (Inr b)
  then obtain batch where prep: "prepare_batch px cfg tasks = Inr (Some batch)"
    using ne by (auto simp: prepare_batch_def rbind_eq_Inr Let_def split: if_splits)
  define f where "f = (if pb_any_idempotency_key batch then insert_reporting_conflicts px batch else insert_batch px batch)"
  have t: "transaction f g = (r, g')" using run prep by (auto simp: push_tasks_on_conn_def f_def split: if_splits)
  have land: "lands px cfg tasks (pg_db h) (pg_db h')" if "f h = (Inr u, h')" for h h' u
    using that keyed_insert_lands [OF prep] insert_batch_lands [OF prep] by (auto simp: f_def split: if_splits)
  have "(pg_db g' = pg_db g \<or> lands px cfg tasks (pg_db g) (pg_db g')) \<and>
      (r = Inr () \<longrightarrow> lands px cfg tasks (pg_db g) (pg_db g'))"
    using t
  proof (cases rule: transaction_cases)
    case (committed g1 x g2 flt)
    then have "lands px cfg tasks (pg_db g1) (pg_db g2)" using land by blast
    then show ?thesis
      using laterD(1) [OF committed(1)] laterD(1) [OF next_step_later [OF committed(4)]] by simp
  qed simp
  moreover have "pg_db g' = pg_db g \<and> q = c_queue cfg \<and> n = length tasks \<and> distinct keys \<and> keys \<noteq> [] \<and>
       set keys = conflicting q (jobs (pg_db g)) (task_keys tasks)"
    if "r = Inl (IdempotencyConflict q keys n)"
  proof -
    have "transaction f g = (Inl (IdempotencyConflict q keys n), g')" using t that by simp
    then obtain g1 g2 where g1: "later g g1" "f g1 = (Inl (IdempotencyConflict q keys n), g2)" "pg_db g' = pg_db g"
      by (rule transaction_closure_error) (simp add: error_from_diesel_def)
    have "insert_reporting_conflicts px batch g1 = (Inl (IdempotencyConflict q keys n), g2)"
      using g1(2) insert_batch_no_conflict by (auto simp: f_def split: if_splits)
    from keyed_insert_conflict [OF prep this] g1(3) show ?thesis unfolding laterD(1) [OF g1(1)] by simp
  qed
  ultimately show ?thesis unfolding conflicting_def by blast
qed

text \<open>
  C12. Enqueueing a batch is all or nothing on every path of the connection: afterwards the job table
  is unchanged or it is the old table followed by one row per task in order, and a success means
  the latter. An \<open>IdempotencyConflict\<close> left the tables unchanged and names, each once, exactly the
  submitted keys that are already stored in the queue or submitted twice; a batch with such a key
  is never written.
\<close>

theorem push_all_or_nothing:
  assumes run: "push_tasks_on_conn px cfg tasks g = (r, g')" and ne: "tasks \<noteq> []"
  shows "(pg_db g' = pg_db g \<or> lands px cfg tasks (pg_db g) (pg_db g')) \<and>
    (r = Inr () \<longrightarrow> lands px cfg tasks (pg_db g) (pg_db g')) \<and>
    (r = Inl (IdempotencyConflict q keys n) \<longrightarrow>
       pg_db g' = pg_db g \<and> q = c_queue cfg \<and> n = length tasks \<and> distinct keys \<and> keys \<noteq> [] \<and>
       set keys = {k \<in> set (task_keys tasks). (q, Some k) \<in> set (idem_keys (jobs (pg_db g))) \<or>
                                              2 \<le> count_list (task_keys tasks) k})"
  using assms by (rule push_all_or_nothing_raw)

lemma flush_phases:
  assumes run: "flush_tasks px cfg tasks g = (r, g')" and ne: "tasks \<noteq> []"
  shows "(\<forall>ts e. r = Inl (FlushNotStarted ts e) \<longrightarrow> ts = tasks \<and> pg_db g' = pg_db g) \<and>
    (\<forall>e. r = Inl (FlushRejected e) \<longrightarrow> pg_db g' = pg_db g \<and>
        (\<exists>task \<in> set tasks. validate_task px cfg task \<noteq> Inr ())) \<and>
    (\<forall>e. r = Inl (FlushUncertain e) \<longrightarrow> pg_db g' = pg_db g \<or> lands px cfg tasks (pg_db g) (pg_db g')) \<and>
    (r = Inr () \<longrightarrow> lands px cfg tasks (pg_db g) (pg_db g'))"
proof -
  consider (ran) h s where "pg_db h = pg_db g" "flush_on_conn px cfg tasks h = (s, g')"
      "r = s \<or> (\<exists>m. r = Inl (FlushUncertain (Blocking m)))"
    | (not) e p where "r = Inl (FlushNotStarted tasks e)" "g' = g\<lparr>pg_pool := p\<rparr>"
  proof (cases "pg_pool g")
    case Nil
    then show thesis using run ran [of g r] by (simp add: flush_tasks_def)
  next
    case (Cons a rest)
    obtain s h where "flush_on_conn px cfg tasks (g\<lparr>pg_pool := rest\<rparr>) = (s, h)" by fastforce
    with Cons run show thesis
      using ran [of "g\<lparr>pg_pool := rest\<rparr>" s] not [of _ rest] by (cases a) (auto simp: flush_tasks_def split: if_splits)
  qed
  then show ?thesis
  proof cases
    case ran
    from flush_on_conn_cases [OF ran(2) ne] ran(3) show ?thesis unfolding ran(1) by auto
  qed simp
qed

text \<open>
  C36. The phase a failed flush reports is true: \<open>NotStarted\<close> hands the batch back unchanged and
  nothing was written, \<open>Rejected\<close> wrote nothing and never happens to validated tasks, and
  after \<open>Uncertain\<close> the table is as before or has the whole batch, never a part of it. A
  success wrote the whole batch.
\<close>

theorem flush_phase_is_true:
  assumes run: "flush_tasks px cfg tasks g = (r, g')" and ne: "tasks \<noteq> []"
  shows "(\<forall>ts e. r = Inl (FlushNotStarted ts e) \<longrightarrow> ts = tasks \<and> pg_db g' = pg_db g) \<and>
    (\<forall>e. r = Inl (FlushRejected e) \<longrightarrow> pg_db g' = pg_db g \<and>
        (\<exists>task \<in> set tasks. validate_task px cfg task \<noteq> Inr ())) \<and>
    (\<forall>e. r = Inl (FlushUncertain e) \<longrightarrow> pg_db g' = pg_db g \<or> lands px cfg tasks (pg_db g) (pg_db g')) \<and>
    (r = Inr () \<longrightarrow> lands px cfg tasks (pg_db g) (pg_db g'))"
  using assms by (rule flush_phases)

section \<open>The lifecycle contract\<close>

lemma pending_row_simps [simp]:
  "j_status (pending_row i q b m r p me k) = Pending" "j_lock_by (pending_row i q b m r p me k) = None"
  "j_done_at (pending_row i q b m r p me k) = None" "j_attempts (pending_row i q b m r p me k) = 0"
  by (simp_all add: pending_row_def)

lemma insert_rows_lifecycle:
  assumes run: "insert_rows rs d = (Inr ins, d')"
    and rows: "\<forall>r \<in> set rs. j_status r = Pending \<and> j_lock_by r = None \<and> j_done_at r = None \<and> j_attempts r = 0"
  shows "lifecycle d d'"
  unfolding lifecycle_def
proof (intro impI conjI)
  assume inv: "db_inv d"
  note ins = insert_rows_Inr [OF run]
  have sub: "set ins \<subseteq> set rs" using ins by (metis notin_set_nthsI subseq_conv_nths subsetI)
  then have new: "\<forall>r \<in> set ins. job_checks r \<and> job_fk (workers d) r \<and> job_shape r"
    using rows ins by (auto simp: job_fk_def job_shape_def)
  have ids: "distinct (map j_id (jobs d'))" "distinct (idem_keys (jobs d'))"
    using insert_rows_ids [OF run] insert_rows_keys [OF run] inv by (simp_all add: db_inv_def db_ok_def)
  have "\<forall>j \<in> set (jobs d'). job_checks j \<and> job_fk (workers d') j \<and> job_shape j"
    using ins new db_inv_job [OF inv] by auto
  then show inv': "db_inv d'"
    using ids ins inv by (auto simp: db_inv_def db_ok_def)
  show ev: "evolves d d'" using ins by (auto simp: evolves_def intro!: bexI)
  show "follows d d'"
    by (rule evolves_follows [OF inv inv' ev]) (use ins rows sub in auto)
qed

lemma insert_stmt_lifecycle: "ensures lifecycle (insert_stmt px b)"
  unfolding insert_stmt_def
proof (rule life.ensures_stmt)
  fix g x d
  assume run: "(case unnest_rows px b of Inl e \<Rightarrow> (Inl e, pg_db g) | Inr rows \<Rightarrow> insert_rows rows (pg_db g))
      = (Inr x, d)"
  then obtain rows where rows: "unnest_rows px b = Inr rows" "insert_rows rows (pg_db g) = (Inr x, d)"
    by (cases "unnest_rows px b") auto
  have "\<forall>r \<in> set rows. j_status r = Pending \<and> j_lock_by r = None \<and> j_done_at r = None \<and> j_attempts r = 0"
    using rows(1) by (auto simp: unnest_rows_def rbind_eq_Inr)
  with rows(2) show "lifecycle (pg_db g) d" by (rule insert_rows_lifecycle)
qed

lemma insert_batch_lifecycle: "ensures lifecycle (insert_batch px b)"
  unfolding insert_batch_def by (intro life.ensures_intros insert_stmt_lifecycle)

lemma insert_reporting_conflicts_lifecycle: "ensures lifecycle (insert_reporting_conflicts px b)"
  unfolding insert_reporting_conflicts_def by (intro life.ensures_intros insert_stmt_lifecycle)

lemma push_tasks_on_conn_lifecycle: "ensures lifecycle (push_tasks_on_conn px cfg tasks)"
  unfolding ensures_def push_tasks_on_conn_def
  using ensuresD [OF life.ensures_transaction [OF insert_reporting_conflicts_lifecycle]]
    ensuresD [OF life.ensures_transaction [OF insert_batch_lifecycle]]
  by (simp add: life.refl split: sum.splits option.splits)

lemma flush_on_conn_lifecycle: "lifecycle (pg_db g) (pg_db (snd (flush_on_conn px cfg tasks g)))"
  using ensuresD_run [OF life.ensures_transaction [OF insert_reporting_conflicts_lifecycle]]
    ensuresD_run [OF insert_batch_lifecycle]
  by (auto simp: flush_on_conn_def life.refl split: sum.splits option.splits prod.splits if_splits)

lemma flush_tasks_lifecycle: "lifecycle (pg_db g) (pg_db (snd (flush_tasks px cfg tasks g)))"
  using flush_on_conn_lifecycle [of "g\<lparr>pg_pool := p\<rparr>" px cfg tasks for p] flush_on_conn_lifecycle [of g px cfg tasks]
  by (auto simp: flush_tasks_def life.refl split: list.splits pool_step.splits)

end
