(* ===== verification/Sink.thy ===== *)
theory Sink
  imports Push
begin

text \<open>
  The buffered task sink (\<^verbatim>\<open>src/sink.rs\<close>). A flush in flight is a future over
  \<^verbatim>\<open>flush_tasks\<close>: each poll of it is pending or completes with the outcome of the flush on the
  current connection. The flush loop is stated over the contract of a batch writer, a locale that
  \<open>flush_tasks\<close> implements.
\<close>

section \<open>State\<close>

record sink =
  s_config :: config
  s_buffer :: "compact task list"
  s_flight :: "compact task list option"
  s_failed :: bool

definition sink_new :: "config \<Rightarrow> sink" where
  "sink_new cfg = \<lparr>s_config = cfg, s_buffer = [], s_flight = None, s_failed = False\<rparr>"

text \<open>A clone starts with an empty pipeline; a re-typed sink carries everything over.\<close>

definition sink_clone :: "sink \<Rightarrow> sink" where
  "sink_clone s = \<lparr>s_config = s_config s, s_buffer = [], s_flight = None, s_failed = False\<rparr>"

definition retype :: "sink \<Rightarrow> sink" where
  "retype s = \<lparr>s_config = s_config s, s_buffer = s_buffer s, s_flight = s_flight s, s_failed = s_failed s\<rparr>"

definition capacity :: "sink \<Rightarrow> nat" where
  "capacity s = max (c_buffer_size (s_config s)) 1"

definition needs_flush_before_ready :: "sink \<Rightarrow> bool" where
  "needs_flush_before_ready s \<longleftrightarrow> s_failed s \<or> s_flight s \<noteq> None \<or> capacity s \<le> length (s_buffer s)"

section \<open>Sending\<close>

definition try_push :: "push_deps \<Rightarrow> compact task \<Rightarrow> sink \<Rightarrow> (error, unit) result \<times> sink" where
  "try_push px item s =
     (if s_failed s then (Inl SinkFailed, s)
      else if capacity s \<le> length (s_buffer s) then (Inl (SinkBufferFull (capacity s)), s)
      else case validate_task px (s_config s) item of
        Inl e \<Rightarrow> (Inl e, s)
      | Inr _ \<Rightarrow> (Inr (), s\<lparr>s_buffer := s_buffer s @ [item]\<rparr>))"

section \<open>Flushing\<close>

text \<open>
  The flush loop over a batch writer \<open>flush\<close> and the polls of its futures: \<open>False\<close> is a pending
  poll, \<open>True\<close> a completing one, and a future that is polled when the list is used up completes.
\<close>

type_synonym 'g writer = "compact task list \<Rightarrow> 'g \<Rightarrow> (flush_failure, unit) result \<times> 'g"

function poll_flush_loop :: "'g writer \<Rightarrow> bool list \<Rightarrow> sink \<Rightarrow> 'g \<Rightarrow> (error, unit) result poll \<times> sink \<times> 'g" where
  "poll_flush_loop flush polls s g =
     (if s_flight s = None \<and> s_buffer s = [] then (PollReady (Inr ()), s, g)
      else
        let batch = (case s_flight s of Some b \<Rightarrow> b | None \<Rightarrow> s_buffer s);
            s1 = (case s_flight s of Some _ \<Rightarrow> s | None \<Rightarrow> s\<lparr>s_flight := Some batch, s_buffer := []\<rparr>)
        in if polls \<noteq> [] \<and> \<not> hd polls then (PollPending, s1, g)
           else case flush batch g of
             (Inl (FlushNotStarted tasks e), g1) \<Rightarrow>
               (PollReady (Inl e), s1\<lparr>s_flight := None, s_buffer := tasks @ s_buffer s1\<rparr>, g1)
           | (Inl (FlushRejected e), g1) \<Rightarrow> (PollReady (Inl e), s1\<lparr>s_flight := None\<rparr>, g1)
           | (Inl (FlushUncertain e), g1) \<Rightarrow>
               (PollReady (Inl e), s1\<lparr>s_failed := True, s_flight := None\<rparr>, g1)
           | (Inr _, g1) \<Rightarrow> poll_flush_loop flush (tl polls) (s1\<lparr>s_flight := None\<rparr>) g1)"
  by pat_completeness auto

termination
  by (relation "measure (\<lambda>(flush, polls, s, g). (if s_flight s = None then 0 else 1) + (if s_buffer s = [] then 0 else 2))")
     (auto split: option.splits)

declare poll_flush_loop.simps [simp del]

definition poll_flush_inner ::
    "push_deps \<Rightarrow> bool list \<Rightarrow> sink \<Rightarrow> pg \<Rightarrow> (error, unit) result poll \<times> sink \<times> pg" where
  "poll_flush_inner px polls s g =
     (if s_failed s then (PollReady (Inl SinkFailed), s, g)
      else poll_flush_loop (flush_tasks px (s_config s)) polls s g)"

section \<open>The sink interface\<close>

definition poll_ready ::
    "push_deps \<Rightarrow> bool list \<Rightarrow> sink \<Rightarrow> pg \<Rightarrow> (error, unit) result poll \<times> sink \<times> pg" where
  "poll_ready px polls s g =
     (if needs_flush_before_ready s then poll_flush_inner px polls s g else (PollReady (Inr ()), s, g))"

definition start_send :: "push_deps \<Rightarrow> compact task \<Rightarrow> sink \<Rightarrow> (error, unit) result \<times> sink" where
  "start_send = try_push"

definition poll_flush ::
    "push_deps \<Rightarrow> bool list \<Rightarrow> sink \<Rightarrow> pg \<Rightarrow> (error, unit) result poll \<times> sink \<times> pg" where
  "poll_flush = poll_flush_inner"

definition poll_close ::
    "push_deps \<Rightarrow> bool list \<Rightarrow> sink \<Rightarrow> pg \<Rightarrow> (error, unit) result poll \<times> sink \<times> pg" where
  "poll_close = poll_flush"

section \<open>What a batch writer promises\<close>

text \<open>Every task the sink accepted and has not confirmed, oldest first.\<close>

definition content :: "sink \<Rightarrow> compact task list" where
  "content s = (case s_flight s of None \<Rightarrow> [] | Some b \<Rightarrow> b) @ s_buffer s"

text \<open>A flight is never empty.\<close>

definition sink_wf :: "sink \<Rightarrow> bool" where
  "sink_wf s \<longleftrightarrow> s_flight s \<noteq> Some []"

text \<open>\<open>wrote bs g g'\<close>: the store went from \<open>g\<close> to \<open>g'\<close> by writing the batches \<open>bs\<close>, in order.\<close>

locale batch_writer =
  fixes flush :: "'g writer" and wrote :: "compact task list list \<Rightarrow> 'g \<Rightarrow> 'g \<Rightarrow> bool"
    and good :: "compact task \<Rightarrow> bool"
  assumes wrote_nothing: "wrote [] g g"
    and wrote_more: "wrote bs g g1 \<Longrightarrow> wrote cs g1 g2 \<Longrightarrow> wrote (bs @ cs) g g2"
    and flush_ok: "flush b g = (Inr u, g1) \<Longrightarrow> b \<noteq> [] \<Longrightarrow> wrote [b] g g1"
    and flush_not_started:
      "flush b g = (Inl (FlushNotStarted ts e), g1) \<Longrightarrow> b \<noteq> [] \<Longrightarrow> ts = b \<and> wrote [] g g1"
    and flush_rejected: "flush b g = (Inl (FlushRejected e), g1) \<Longrightarrow> b \<noteq> [] \<Longrightarrow>
      wrote [] g g1 \<and> (\<exists>t \<in> set b. \<not> good t)"
    and flush_uncertain:
      "flush b g = (Inl (FlushUncertain e), g1) \<Longrightarrow> b \<noteq> [] \<Longrightarrow> wrote [] g g1 \<or> wrote [b] g g1"
begin

lemma one_flush:
  assumes "flush b g = (Inl f, g1)" and "b \<noteq> []" and "\<forall>t \<in> set b. good t"
  shows "(\<exists>e. f = FlushNotStarted b e) \<and> wrote [] g g1 \<or>
    (\<exists>e. f = FlushUncertain e) \<and> (wrote [] g g1 \<or> wrote [b] g g1)"
  using assms flush_not_started flush_rejected flush_uncertain by (cases f) fastforce+

end

text \<open>
  The account of one flush request: a success wrote everything the sink held, in order; otherwise
  the batches written and what the sink still holds are together what it held, except that an
  uncertain failure gives up one batch, which may have been written, and marks the sink failed.
\<close>

definition accounted ::
    "(compact task list list \<Rightarrow> 'g \<Rightarrow> 'g \<Rightarrow> bool) \<Rightarrow> sink \<Rightarrow> 'g \<Rightarrow> (error, unit) result poll \<Rightarrow> sink \<Rightarrow> 'g \<Rightarrow> bool" where
  "accounted wrote s g r s' g' \<longleftrightarrow>
     (\<exists>bs b. concat bs @ b @ content s' = content s \<and>
        (if s_failed s' then b \<noteq> [] \<and> (\<exists>e. r = PollReady (Inl e)) \<and> (wrote bs g g' \<or> wrote (bs @ [b]) g g')
         else b = [] \<and> wrote bs g g')) \<and>
     (r = PollReady (Inr ()) \<longrightarrow> content s' = [] \<and> \<not> s_failed s') \<and>
     (r = PollPending \<longrightarrow> s_flight s' \<noteq> None \<and> \<not> s_failed s') \<and>
     sink_wf s' \<and> s_config s' = s_config s"

context batch_writer
begin

lemma accounted_after_batch:
  assumes one: "wrote [b] g g1" and rest: "accounted wrote s1 g1 r s' g'"
    and content: "content s = b @ content s1" and cfg: "s_config s1 = s_config s"
  shows "accounted wrote s g r s' g'"
proof -
  from rest obtain bs c where *: "concat bs @ c @ content s' = content s1"
    "if s_failed s' then c \<noteq> [] \<and> (\<exists>e. r = PollReady (Inl e)) \<and> (wrote bs g1 g' \<or> wrote (bs @ [c]) g1 g')
     else c = [] \<and> wrote bs g1 g'"
    by (auto simp: accounted_def)
  have "wrote (b # bs) g g'" if "wrote bs g1 g'" for bs using wrote_more [OF one that] by simp
  with * content have "concat (b # bs) @ c @ content s' = content s \<and>
      (if s_failed s' then c \<noteq> [] \<and> (\<exists>e. r = PollReady (Inl e)) \<and> (wrote (b # bs) g g' \<or> wrote ((b # bs) @ [c]) g g')
       else c = [] \<and> wrote (b # bs) g g')" by auto
  with rest cfg show ?thesis unfolding accounted_def by metis
qed

lemma accounted_failure:
  assumes fl: "flush batch g = (Inl f, g1)" and ne: "batch \<noteq> []" and good: "\<forall>t \<in> set batch. good t"
    and s1: "\<not> s_failed s1" "content s = batch @ s_buffer s1" "s_config s1 = s_config s"
    and out: "(case f of
        FlushNotStarted tasks e \<Rightarrow> (PollReady (Inl e), s1\<lparr>s_flight := None, s_buffer := tasks @ s_buffer s1\<rparr>)
      | FlushRejected e \<Rightarrow> (PollReady (Inl e), s1\<lparr>s_flight := None\<rparr>)
      | FlushUncertain e \<Rightarrow> (PollReady (Inl e), s1\<lparr>s_failed := True, s_flight := None\<rparr>)) = (r, s')"
  shows "accounted wrote s g r s' g1"
  using one_flush [OF fl ne good]
proof (elim disjE conjE exE)
  fix e assume "f = FlushNotStarted batch e" "wrote [] g g1"
  with out s1 show ?thesis
    by (auto simp: accounted_def content_def sink_wf_def intro!: exI [of _ "[]"])
next
  fix e assume f: "f = FlushUncertain e" and "wrote [] g g1"
  with out s1 ne show ?thesis
    by (auto simp: accounted_def content_def sink_wf_def intro!: exI [of _ "[]"] exI [of _ batch])
next
  fix e assume f: "f = FlushUncertain e" and "wrote [batch] g g1"
  with out s1 ne show ?thesis
    by (auto simp: accounted_def content_def sink_wf_def intro!: exI [of _ "[]"] exI [of _ batch])
qed

lemma poll_flush_loop_step:
  assumes "\<not> (s_flight s = None \<and> s_buffer s = [])"
    and "batch = (case s_flight s of Some b \<Rightarrow> b | None \<Rightarrow> s_buffer s)"
    and "s1 = (case s_flight s of Some _ \<Rightarrow> s | None \<Rightarrow> s\<lparr>s_flight := Some batch, s_buffer := []\<rparr>)"
  shows "poll_flush_loop flush polls s g =
    (if polls \<noteq> [] \<and> \<not> hd polls then (PollPending, s1, g)
     else case flush batch g of
       (Inl (FlushNotStarted tasks e), g1) \<Rightarrow>
         (PollReady (Inl e), s1\<lparr>s_flight := None, s_buffer := tasks @ s_buffer s1\<rparr>, g1)
     | (Inl (FlushRejected e), g1) \<Rightarrow> (PollReady (Inl e), s1\<lparr>s_flight := None\<rparr>, g1)
     | (Inl (FlushUncertain e), g1) \<Rightarrow> (PollReady (Inl e), s1\<lparr>s_failed := True, s_flight := None\<rparr>, g1)
     | (Inr _, g1) \<Rightarrow> poll_flush_loop flush (tl polls) (s1\<lparr>s_flight := None\<rparr>) g1)"
  by (subst poll_flush_loop.simps, subst if_not_P [OF assms(1)]) (simp only: Let_def assms(2,3) [symmetric])

lemma poll_flush_loop_accounts:
  assumes "poll_flush_loop flush polls s g = (r, s', g')" and "sink_wf s"
    and "\<forall>t \<in> set (content s). good t" and "\<not> s_failed s"
  shows "accounted wrote s g r s' g'"
  using assms
proof (induction f \<equiv> flush polls s g rule: poll_flush_loop.induct)
  case (1 polls s g)
  show ?case
  proof (cases "s_flight s = None \<and> s_buffer s = []")
    case True
    with 1(2) have "r = PollReady (Inr ())" "s' = s" "g' = g" by (simp_all add: poll_flush_loop.simps)
    with True 1(3,5) wrote_nothing show ?thesis
      by (auto simp: accounted_def content_def intro!: exI [of _ "[]"])
  next
    case False
    define batch where "batch = (case s_flight s of Some b \<Rightarrow> b | None \<Rightarrow> s_buffer s)"
    define s1 where "s1 = (case s_flight s of Some _ \<Rightarrow> s | None \<Rightarrow> s\<lparr>s_flight := Some batch, s_buffer := []\<rparr>)"
    have ne: "batch \<noteq> []" using False 1(3) by (auto simp: batch_def sink_wf_def split: option.splits)
    have s1: "s_flight s1 = Some batch" "content s = batch @ s_buffer s1" "s_config s1 = s_config s" "\<not> s_failed s1"
      using 1(5) by (auto simp: s1_def batch_def content_def split: option.splits)
    note unfold = poll_flush_loop_step [OF False batch_def s1_def, of polls g]
    have good: "\<forall>t \<in> set batch. good t" using 1(4) s1(2) by simp
    show ?thesis
    proof (cases "polls \<noteq> [] \<and> \<not> hd polls")
      case True
      with 1(2) unfold have "r = PollPending" "s' = s1" "g' = g" by simp_all
      with s1 ne wrote_nothing show ?thesis
        by (auto simp: accounted_def content_def sink_wf_def intro!: exI [of _ "[]"])
    next
      case go: False
      obtain x g1 where fl: "flush batch g = (x, g1)" by fastforce
      show ?thesis
      proof (cases x)
        case (Inr u)
        have rec: "poll_flush_loop flush (tl polls) (s1\<lparr>s_flight := None\<rparr>) g1 = (r, s', g')"
          using 1(2) unfold go fl Inr by simp
        have "\<forall>t \<in> set (content (s1\<lparr>s_flight := None\<rparr>)). good t"
          using 1(4) s1(2) by (simp add: content_def [of "s1\<lparr>s_flight := None\<rparr>"])
        then have "accounted wrote (s1\<lparr>s_flight := None\<rparr>) g1 r s' g'"
          using 1(1) [OF False batch_def s1_def go fl [symmetric] Inr rec] s1(4)
          by (simp add: sink_wf_def)
        moreover have "content s = batch @ content (s1\<lparr>s_flight := None\<rparr>)"
          using s1(2) by (simp add: content_def [of "s1\<lparr>s_flight := None\<rparr>"])
        moreover have "s_config (s1\<lparr>s_flight := None\<rparr>) = s_config s" using s1(3) by simp
        ultimately show ?thesis
          using flush_ok [OF fl [unfolded Inr] ne] by (blast intro: accounted_after_batch)
      next
        case (Inl f)
        have "(case f of
            FlushNotStarted tasks e \<Rightarrow> (PollReady (Inl e), s1\<lparr>s_flight := None, s_buffer := tasks @ s_buffer s1\<rparr>)
          | FlushRejected e \<Rightarrow> (PollReady (Inl e), s1\<lparr>s_flight := None\<rparr>)
          | FlushUncertain e \<Rightarrow> (PollReady (Inl e), s1\<lparr>s_failed := True, s_flight := None\<rparr>)) = (r, s')"
          "g1 = g'"
          using 1(2) unfold go fl Inl by (auto split: flush_failure.splits)
        with fl Inl ne good s1 show ?thesis by (blast intro: accounted_failure)
      qed
    qed
  qed
qed

end

section \<open>The flush as a batch writer\<close>

text \<open>The tables after writing batches of the sink's queue in order.\<close>

fun landed :: "push_deps \<Rightarrow> config \<Rightarrow> compact task list list \<Rightarrow> db \<Rightarrow> db \<Rightarrow> bool" where
  "landed px cfg [] d d' = (d' = d)"
| "landed px cfg (b # bs) d d' = (\<exists>m. lands px cfg b d m \<and> landed px cfg bs m d')"

lemma landed_append: "landed px cfg bs d m \<Longrightarrow> landed px cfg cs m d' \<Longrightarrow> landed px cfg (bs @ cs) d d'"
  by (induction bs arbitrary: d) auto

definition flush_wrote :: "push_deps \<Rightarrow> config \<Rightarrow> compact task list list \<Rightarrow> pg \<Rightarrow> pg \<Rightarrow> bool" where
  "flush_wrote px cfg bs g g' \<longleftrightarrow> landed px cfg bs (pg_db g) (pg_db g')"

interpretation flush: batch_writer "flush_tasks px cfg" "flush_wrote px cfg"
  "\<lambda>t. validate_task px cfg t = Inr ()" for px cfg
proof unfold_locales
  show "flush_wrote px cfg [] g g" for g by (simp add: flush_wrote_def)
  show "flush_wrote px cfg bs g g1 \<Longrightarrow> flush_wrote px cfg cs g1 g2 \<Longrightarrow> flush_wrote px cfg (bs @ cs) g g2" for bs cs g g1 g2
    by (auto simp: flush_wrote_def intro: landed_append)
qed (auto simp: flush_wrote_def dest!: flush_phases)

section \<open>What the sink promises\<close>

definition sink_inv :: "push_deps \<Rightarrow> sink \<Rightarrow> bool" where
  "sink_inv px s \<longleftrightarrow> sink_wf s \<and> (\<forall>t \<in> set (content s). validate_task px (s_config s) t = Inr ())"

lemma try_push_content:
  assumes "try_push px t s = (r, s')"
  shows "(r = Inr () \<and> content s' = content s @ [t] \<and> s_flight s' = s_flight s \<and> s_config s' = s_config s \<and>
      s_failed s' = s_failed s \<and> validate_task px (s_config s) t = Inr () \<and> length (s_buffer s) < capacity s) \<or>
   ((\<exists>e. r = Inl e) \<and> s' = s)"
proof (cases "validate_task px (s_config s) t")
  case (Inl e)
  then have "\<exists>e. fst (try_push px t s) = Inl e" "snd (try_push px t s) = s" by (simp_all add: try_push_def)
  with assms show ?thesis by simp
next
  case (Inr u)
  with assms show ?thesis by (auto simp: try_push_def content_def split: if_splits)
qed

lemma try_push_inv: "sink_inv px s \<Longrightarrow> try_push px t s = (r, s') \<Longrightarrow> sink_inv px s'"
  by (drule try_push_content) (auto simp: sink_inv_def sink_wf_def)

text \<open>
  C14. The sink loses, duplicates and reorders nothing it accepted. A flush that completes wrote every
  accepted task, oldest first; one that fails before its statement, or is pending, leaves the
  unwritten tasks in the sink in the same order; a flush whose outcome is unknown gives up exactly
  one batch, which was written whole or not at all, and marks the sink failed for good.
\<close>

theorem sink_accounts_for_every_task:
  assumes "poll_flush_inner px polls s g = (r, s', g')" and "sink_inv px s" and "\<not> s_failed s"
  shows "\<exists>bs b. concat bs @ b @ content s' = content s \<and> sink_inv px s' \<and>
    (if s_failed s' then b \<noteq> [] \<and> (\<exists>e. r = PollReady (Inl e)) \<and>
        (landed px (s_config s) bs (pg_db g) (pg_db g') \<or> landed px (s_config s) (bs @ [b]) (pg_db g) (pg_db g'))
     else b = [] \<and> landed px (s_config s) bs (pg_db g) (pg_db g')) \<and>
    (r = PollReady (Inr ()) \<longrightarrow> content s' = [] \<and> \<not> s_failed s')"
proof -
  have "accounted (flush_wrote px (s_config s)) s g r s' g'"
    using assms by (intro flush.poll_flush_loop_accounts) (auto simp: poll_flush_inner_def sink_inv_def)
  then obtain bs b where *: "concat bs @ b @ content s' = content s"
    "if s_failed s' then b \<noteq> [] \<and> (\<exists>e. r = PollReady (Inl e)) \<and>
        (flush_wrote px (s_config s) bs g g' \<or> flush_wrote px (s_config s) (bs @ [b]) g g')
     else b = [] \<and> flush_wrote px (s_config s) bs g g'"
    "r = PollReady (Inr ()) \<longrightarrow> content s' = [] \<and> \<not> s_failed s'" "sink_wf s'" "s_config s' = s_config s"
    by (auto simp: accounted_def)
  have "set (content s') \<subseteq> set (content s)" unfolding *(1) [symmetric] by auto
  then have "sink_inv px s'" using *(4,5) assms(2) by (auto simp: sink_inv_def)
  with *(1-3) show ?thesis unfolding flush_wrote_def by blast
qed

text \<open>One call a client of the sink makes, with whether readiness is granted.\<close>

inductive sink_step :: "push_deps \<Rightarrow> sink \<times> bool \<Rightarrow> sink \<times> bool \<Rightarrow> bool" for px where
  ready: "poll_ready px polls s g = (PollReady (Inr ()), s', g') \<Longrightarrow> sink_step px (s, granted) (s', True)"
| unready: "poll_ready px polls s g = (r, s', g') \<Longrightarrow> r \<noteq> PollReady (Inr ()) \<Longrightarrow> sink_step px (s, granted) (s', False)"
| send: "try_push px t s = (r, s') \<Longrightarrow> sink_step px (s, True) (s', False)"
| flush: "poll_flush px polls s g = (r, s', g') \<Longrightarrow> sink_step px (s, granted) (s', granted)"

definition sink_bound :: "push_deps \<Rightarrow> sink \<times> bool \<Rightarrow> bool" where
  "sink_bound px = (\<lambda>(s, granted). sink_inv px s \<and> length (content s) \<le> capacity s + 1 \<and>
     (granted \<and> \<not> s_failed s \<longrightarrow> length (content s) \<le> capacity s))"

lemma capacity_config: "s_config s' = s_config s \<Longrightarrow> capacity s' = capacity s"
  by (simp add: capacity_def)

lemma poll_flush_shrinks:
  assumes "poll_flush_inner px polls s g = (r, s', g')" and "sink_inv px s"
  shows "length (content s') \<le> length (content s) \<and> sink_inv px s' \<and> s_config s' = s_config s \<and>
    (s_failed s \<longrightarrow> s' = s) \<and> (r = PollReady (Inr ()) \<longrightarrow> content s' = [])"
proof (cases "s_failed s")
  case True
  with assms show ?thesis by (auto simp: poll_flush_inner_def)
next
  case False
  have acc: "accounted (flush_wrote px (s_config s)) s g r s' g'"
    using assms False by (intro flush.poll_flush_loop_accounts) (auto simp: poll_flush_inner_def sink_inv_def)
  then obtain bs b where *: "concat bs @ b @ content s' = content s" "s_config s' = s_config s" "sink_wf s'"
    by (auto simp: accounted_def)
  have "set (content s') \<subseteq> set (content s)" unfolding *(1) [symmetric] by auto
  moreover have "length (content s') \<le> length (content s)" unfolding *(1) [symmetric] by simp
  ultimately show ?thesis using * acc assms(2) False by (auto simp: accounted_def sink_inv_def)
qed

lemma sink_bound_step: "sink_step px a b \<Longrightarrow> sink_bound px a \<Longrightarrow> sink_bound px b"
proof (induction rule: sink_step.induct)
  case (ready polls s g s' g' granted)
  show ?case
  proof (cases "needs_flush_before_ready s")
    case True
    with ready show ?thesis
      using poll_flush_shrinks [of px polls s g "PollReady (Inr ())" s' g'] by (auto simp: poll_ready_def sink_bound_def)
  next
    case False
    with ready show ?thesis
      by (auto simp: poll_ready_def sink_bound_def needs_flush_before_ready_def content_def)
  qed
next
  case (unready polls s g r s' g' granted)
  then have "poll_flush_inner px polls s g = (r, s', g')" by (auto simp: poll_ready_def split: if_splits)
  with unready show ?case
    using poll_flush_shrinks [of px polls s g r s' g'] capacity_config [of s' s] by (auto simp: sink_bound_def)
next
  case (send t s r s')
  have inv: "sink_inv px s'" using send try_push_inv by (auto simp: sink_bound_def)
  from try_push_content [OF send(1)] show ?case
  proof (elim disjE conjE exE)
    assume ok: "r = Inr ()" "content s' = content s @ [t]" "s_config s' = s_config s"
    have "\<not> s_failed s" using send(1) ok(1) by (auto simp: try_push_def)
    with send(2) inv ok capacity_config [OF ok(3)] show ?thesis by (simp add: sink_bound_def)
  next
    assume "s' = s"
    with send(2) show ?thesis by (simp add: sink_bound_def)
  qed
next
  case (flush polls s g r s' g' granted)
  then show ?case
    using poll_flush_shrinks [of px polls s g r s' g'] capacity_config [of s' s]
    by (auto simp: sink_bound_def poll_flush_def)
qed

text \<open>
  Following the sink protocol (a task is sent only after readiness was granted), the sink holds
  at most one task more than its capacity, also while a flush is in flight and after a batch was
  handed back; it accepts nothing after it failed.
\<close>

lemma sink_holds_at_most_one_extra:
  assumes "(sink_step px)\<^sup>*\<^sup>* (sink_new cfg, False) (s, granted)"
  shows "length (content s) \<le> capacity s + 1 \<and> sink_inv px s \<and>
    (s_failed s \<longrightarrow> fst (start_send px t s) = Inl SinkFailed \<and> snd (start_send px t s) = s)"
proof -
  have start: "sink_bound px (sink_new cfg, False)"
    by (simp add: sink_bound_def sink_new_def sink_inv_def sink_wf_def content_def capacity_def)
  have "sink_bound px (s, granted)"
    using assms by (induction rule: rtranclp_induct) (auto intro: start sink_bound_step)
  then show ?thesis by (simp add: sink_bound_def start_send_def try_push_def)
qed

end
