(* ===== verification/Storage.thy ===== *)
theory Storage
  imports Shared Retention Sink
begin

text \<open>
  The storage facade (\<^verbatim>\<open>src/lib.rs\<close>): enqueueing on a caller's connection, releasing a
  registration when a worker stopped, the heartbeat stream, and the pipeline of a worker's task stream.
  The codec, the constructor of a task from its payload and \<^verbatim>\<open>futures::stream::select\<close> are
  parameters. The state beside the storage is that of one storage and its clones, which share the
  connection pool, the local registry of leases and the token.
\<close>

section \<open>The storage\<close>

record ('f, 'p) postgres_storage =
  sg_config :: config
  sg_fetcher :: 'f
  sg_sink :: sink
  sg_lease_token :: string
  sg_poll_factory :: "'p option"

text \<open>
  The constructors of the polling, the notify-driven and the shared storages, which differ in the
  fetcher; the token is the one \<^verbatim>\<open>mint_lease_token\<close> gave.
\<close>

definition storage_new :: "config \<Rightarrow> 'f \<Rightarrow> string \<Rightarrow> ('f, 'p) postgres_storage" where
  "storage_new cfg fetcher token =
     \<lparr>sg_config = cfg, sg_fetcher = fetcher, sg_sink = sink_new cfg, sg_lease_token = token, sg_poll_factory = None\<rparr>"

definition storage_clone :: "('f, 'p) postgres_storage \<Rightarrow> ('f, 'p) postgres_storage" where
  "storage_clone s = \<lparr>sg_config = sg_config s, sg_fetcher = sg_fetcher s, sg_sink = sink_clone (sg_sink s),
     sg_lease_token = sg_lease_token s, sg_poll_factory = sg_poll_factory s\<rparr>"

definition with_codec :: "('f, 'p) postgres_storage \<Rightarrow> ('f, 'p) postgres_storage" where
  "with_codec s = \<lparr>sg_config = sg_config s, sg_fetcher = sg_fetcher s, sg_sink = retype (sg_sink s),
     sg_lease_token = sg_lease_token s, sg_poll_factory = sg_poll_factory s\<rparr>"

definition with_poll_strategy_factory :: "'p \<Rightarrow> ('f, 'p) postgres_storage \<Rightarrow> ('f, 'p) postgres_storage" where
  "with_poll_strategy_factory factory s = s\<lparr>sg_poll_factory := Some factory\<rparr>"

definition acknowledger :: "('f, 'p) postgres_storage \<Rightarrow> pg_acknowledger" where
  "acknowledger s = pg_ack_with_lease_registry (sg_lease_token s)"

definition middleware :: "('f, 'p) postgres_storage \<Rightarrow> pg_middleware" where
  "middleware s = pg_middleware_with_lease_registry (c_ack (sg_config s)) (sg_lease_token s)"

definition storage_purge_terminal_tasks :: "('f, 'p) postgres_storage \<Rightarrow> duration \<Rightarrow> nat sql" where
  "storage_purge_terminal_tasks s completed_before = purge_terminal_tasks (c_queue (sg_config s)) completed_before"

definition storage_prune_workers :: "('f, 'p) postgres_storage \<Rightarrow> duration \<Rightarrow> nat sql" where
  "storage_prune_workers s stale_for = prune_workers (sg_config s) stale_for"

section \<open>Release\<close>

record pg_releaser =
  pr_config :: config
  pr_lease_token :: string

definition releaser :: "('f, 'p) postgres_storage \<Rightarrow> pg_releaser" where
  "releaser s = \<lparr>pr_config = sg_config s, pr_lease_token = sg_lease_token s\<rparr>"

definition releaser_release_worker :: "pg_releaser \<Rightarrow> string \<Rightarrow> proc \<Rightarrow> (error, nat) result \<times> proc" where
  "releaser_release_worker rel worker_id st =
     on_pg (release_worker (pr_config rel) worker_id (pr_lease_token rel)) (retire_lease worker_id st)"

definition storage_release_worker ::
    "('f, 'p) postgres_storage \<Rightarrow> string \<Rightarrow> proc \<Rightarrow> (error, nat) result \<times> proc" where
  "storage_release_worker s worker_id st = releaser_release_worker (releaser s) worker_id st"

text \<open>How a future that may panic ends, and what \<^verbatim>\<open>run_released\<close> hands back.\<close>

datatype 'a unwound = Finished 'a | Unwound string

record 'a released_run =
  rr_outcome :: 'a
  rr_released :: "(error, nat) result"

definition run_released ::
    "pg_releaser \<Rightarrow> string \<Rightarrow> (proc \<Rightarrow> 'a unwound \<times> proc) \<Rightarrow> proc \<Rightarrow> 'a released_run unwound \<times> proc" where
  "run_released rel worker_id run st =
     (let (outcome, st1) = run st; (released, st2) = releaser_release_worker rel worker_id st1 in
      (case outcome of
         Finished x \<Rightarrow> Finished \<lparr>rr_outcome = x, rr_released = released\<rparr>
       | Unwound panic \<Rightarrow> Unwound panic, st2))"

section \<open>Enqueueing on a caller's connection\<close>

text \<open>The task with its payload replaced by the encoded bytes and its id filled in.\<close>

definition compact_task :: "compact \<Rightarrow> string \<Rightarrow> 'a task \<Rightarrow> compact task" where
  "compact_task bytes i t = \<lparr>t_args = bytes, t_task_id = Some i, t_queue = t_queue t,
     t_lock_by = t_lock_by t, t_lock_at = t_lock_at t, t_max_attempts = t_max_attempts t, t_priority = t_priority t,
     t_meta = t_meta t, t_attempt = t_attempt t, t_status = t_status t, t_run_at = t_run_at t,
     t_idempotency_key = t_idempotency_key t, t_worker = t_worker t, t_claim = t_claim t\<rparr>"

fun encode_tasks ::
    "('a \<Rightarrow> (string, compact) result) \<Rightarrow> (nat \<Rightarrow> string) \<Rightarrow> nat \<Rightarrow> 'a task list \<Rightarrow>
     (error, compact task list \<times> string list) result" where
  "encode_tasks encode ulid n [] = Inr ([], [])"
| "encode_tasks encode ulid n (task # tasks) =
     rbind (map_sum Decode id (encode (t_args task))) (\<lambda>bytes.
     let i = (case t_task_id task of Some x \<Rightarrow> x | None \<Rightarrow> ulid n) in
     rbind (encode_tasks encode ulid (Suc n) tasks) (\<lambda>(compacts, ids).
       Inr (compact_task bytes i task # compacts, i # ids)))"

fun encode_args ::
    "('a \<Rightarrow> (string, compact) result) \<Rightarrow> (compact \<Rightarrow> compact task) \<Rightarrow> (nat \<Rightarrow> string) \<Rightarrow> nat \<Rightarrow> 'a list \<Rightarrow>
     (error, compact task list \<times> string list) result" where
  "encode_args encode task_new ulid n [] = Inr ([], [])"
| "encode_args encode task_new ulid n (args # batch) =
     rbind (map_sum Decode id (encode args)) (\<lambda>bytes.
     let i = ulid n in
     rbind (encode_args encode task_new ulid (Suc n) batch) (\<lambda>(compacts, ids).
       Inr ((task_new bytes)\<lparr>t_task_id := Some i\<rparr> # compacts, i # ids)))"

definition push_encoded ::
    "push_deps \<Rightarrow> config \<Rightarrow> (error, compact task list \<times> string list) result \<Rightarrow> string list sql" where
  "push_encoded px cfg encoded g = (case encoded of
     Inl e \<Rightarrow> (Inl e, g)
   | Inr (tasks, ids) \<Rightarrow> (case push_tasks_on_conn px cfg tasks g of
       (Inl e, g1) \<Rightarrow> (Inl e, g1)
     | (Inr _, g1) \<Rightarrow> (Inr ids, g1)))"

definition push_tasks_with_conn ::
    "('a \<Rightarrow> (string, compact) result) \<Rightarrow> push_deps \<Rightarrow> config \<Rightarrow> 'a task list \<Rightarrow> string list sql" where
  "push_tasks_with_conn encode px cfg tasks = push_encoded px cfg (encode_tasks encode (px_ulid px) 0 tasks)"

definition push_batch_with_conn ::
    "('a \<Rightarrow> (string, compact) result) \<Rightarrow> (compact \<Rightarrow> compact task) \<Rightarrow> push_deps \<Rightarrow> config \<Rightarrow> 'a list \<Rightarrow>
     string list sql" where
  "push_batch_with_conn encode task_new px cfg batch = push_encoded px cfg (encode_args encode task_new (px_ulid px) 0 batch)"

definition push_task_with_conn ::
    "('a \<Rightarrow> (string, compact) result) \<Rightarrow> push_deps \<Rightarrow> config \<Rightarrow> 'a task \<Rightarrow> string sql" where
  "push_task_with_conn encode px cfg task g =
     (case encode (t_args task) of
        Inl m \<Rightarrow> (Inl (Decode m), g)
      | Inr bytes \<Rightarrow>
          let i = (case t_task_id task of Some x \<Rightarrow> x | None \<Rightarrow> px_ulid px 0) in
          (case push_tasks_on_conn px cfg [compact_task bytes i task] g of
             (Inl e, g1) \<Rightarrow> (Inl e, g1)
           | (Inr _, g1) \<Rightarrow> (Inr i, g1)))"

definition push_with_conn ::
    "('a \<Rightarrow> (string, compact) result) \<Rightarrow> (compact \<Rightarrow> compact task) \<Rightarrow> push_deps \<Rightarrow> config \<Rightarrow> 'a \<Rightarrow> string sql" where
  "push_with_conn encode task_new px cfg args g =
     (case encode args of
        Inl m \<Rightarrow> (Inl (Decode m), g)
      | Inr bytes \<Rightarrow>
          (case push_tasks_on_conn px cfg [(task_new bytes)\<lparr>t_task_id := Some (px_ulid px 0)\<rparr>] g of
             (Inl e, g1) \<Rightarrow> (Inl e, g1)
           | (Inr _, g1) \<Rightarrow> (Inr (px_ulid px 0), g1)))"

section \<open>Heartbeats\<close>

text \<open>
  An endless stream that sleeps and then performs an operation. A sleep is given by the number of polls
  at which it is pending; when the list is used up the timer has not fired yet.
\<close>

fun after_sleep :: "('w \<Rightarrow> (error, 'a) result \<times> 'w) \<Rightarrow> (nat list, 'w, (error, 'a) result) stream" where
  "after_sleep act [] w = (PollPending, [], w)"
| "after_sleep act (Suc n # ns) w = (PollPending, n # ns, w)"
| "after_sleep act (0 # ns) w = (case act w of (r, w1) \<Rightarrow> (PollReady (Some r), ns, w1))"

definition keep_alive_stream ::
    "config \<Rightarrow> worker_ctx \<Rightarrow> string \<Rightarrow> (nat list, proc, (error, unit) result) stream" where
  "keep_alive_stream cfg worker token = after_sleep (on_pg (keep_alive cfg worker token))"

definition reenqueue_orphaned_stream :: "config \<Rightarrow> (nat list, proc, (error, nat) result) stream" where
  "reenqueue_orphaned_stream cfg = after_sleep (on_pg (reenqueue_orphaned cfg))"

text \<open>\<^verbatim>\<open>TryStreamExt::map_ok(|_| ())\<close>.\<close>

definition map_ok_unit :: "('s, 'w, (error, 'a) result) stream \<Rightarrow> ('s, 'w, (error, unit) result) stream" where
  "map_ok_unit poll s w = (case poll s w of
     (r, s1, w1) \<Rightarrow> (case r of
        PollPending \<Rightarrow> PollPending
      | PollReady None \<Rightarrow> PollReady None
      | PollReady (Some x) \<Rightarrow> PollReady (Some (map_sum id (\<lambda>_. ()) x)), s1, w1))"

text \<open>
  The wait for the registration, then the beats, created when the wait is over: the
  \<^verbatim>\<open>flat_map\<close> over the single item of the registration future.
\<close>

datatype 'b heart = Waiting registration_wait 'b | Beating 'b

definition beats_poll ::
    "waker \<Rightarrow> string \<Rightarrow> ('b, proc, (error, unit) result) stream \<Rightarrow> ('b heart, proc, (error, unit) result) stream" where
  "beats_poll w name body h st = (case h of
     Waiting r b \<Rightarrow> (case for_worker name (p_leases st) of (l, leases) \<Rightarrow>
       (case poll_registration r w l of
          (False, l1) \<Rightarrow> (PollPending, Waiting r b, st\<lparr>p_leases := leases(name \<mapsto> l1)\<rparr>)
        | (True, l1) \<Rightarrow> (case body b (st\<lparr>p_leases := leases(name \<mapsto> l1)\<rparr>) of (x, b1, st1) \<Rightarrow> (x, Beating b1, st1))))
   | Beating b \<Rightarrow> (case body b st of (x, b1, st1) \<Rightarrow> (x, Beating b1, st1)))"

text \<open>
  \<^verbatim>\<open>heartbeat_stream\<close>: a configuration that cannot keep a registration alive is reported once;
  otherwise the beats of the worker under its lease, which this stream never retires.
\<close>

datatype 'b heartbeat = RefusedOnce error | RefusedDone | Beats "'b heart lease_stream"

definition heartbeat_stream :: "config \<Rightarrow> string \<Rightarrow> 'b \<Rightarrow> proc \<Rightarrow> 'b heartbeat \<times> proc" where
  "heartbeat_stream cfg name b st = (case validate_liveness cfg of
     Inl e \<Rightarrow> (RefusedOnce e, st)
   | Inr _ \<Rightarrow> (case for_worker name (p_leases st) of (l, leases) \<Rightarrow>
       (Beats (lease_stream_new (Waiting (Lease.registration l) b) name False), st\<lparr>p_leases := leases\<rparr>)))"

definition heartbeat_poll ::
    "waker \<Rightarrow> string \<Rightarrow> ('b, proc, (error, unit) result) stream \<Rightarrow> ('b heartbeat, proc, (error, unit) result) stream" where
  "heartbeat_poll w name body h st = (case h of
     RefusedOnce e \<Rightarrow> (PollReady (Some (Inl e)), RefusedDone, st)
   | RefusedDone \<Rightarrow> (PollReady None, RefusedDone, st)
   | Beats s \<Rightarrow> (case lease_stream_poll (beats_poll w name body) s st of (x, s1, st1) \<Rightarrow> (x, Beats s1, st1)))"

text \<open>The beats of a worker: renewals merged with sweeps.\<close>

definition worker_beats ::
    "((nat list, proc, (error, unit) result) stream \<Rightarrow> (nat list, proc, (error, unit) result) stream \<Rightarrow>
      (nat list \<times> nat list, proc, (error, unit) result) stream) \<Rightarrow>
     config \<Rightarrow> worker_ctx \<Rightarrow> string \<Rightarrow> (nat list \<times> nat list, proc, (error, unit) result) stream" where
  "worker_beats select cfg worker token =
     select (keep_alive_stream cfg worker token) (map_ok_unit (reenqueue_orphaned_stream cfg))"

section \<open>The task stream\<close>

text \<open>\<^verbatim>\<open>Backend::poll\<close> and \<^verbatim>\<open>BackendExt::poll_compact\<close> around the stream of any fetcher.\<close>

definition poll_compact ::
    "('s, proc, item) stream \<Rightarrow> ('s lease_stream, proc, item) stream" where
  "poll_compact compact = lease_stream_poll compact"

definition backend_poll ::
    "foreign \<Rightarrow> (compact \<Rightarrow> 'a decoding) \<Rightarrow> surroundings \<Rightarrow> string \<Rightarrow> string \<Rightarrow>
     ('s, proc, item) stream \<Rightarrow> ('s lease_stream, proc, (error, 'a task option) result) stream" where
  "backend_poll fx dec su name token compact =
     decode_task_stream fx dec su name (Some token) (lease_stream_poll compact)"

section \<open>Enqueued ids\<close>

text \<open>What encoding makes of a task.\<close>

definition encoded_as :: "('a \<Rightarrow> (string, compact) result) \<Rightarrow> 'a task \<Rightarrow> compact task \<Rightarrow> string \<Rightarrow> bool" where
  "encoded_as encode task c i \<longleftrightarrow> encode (t_args task) = Inr (t_args c) \<and> t_task_id c = Some i \<and>
     (\<forall>x. t_task_id task = Some x \<longrightarrow> i = x) \<and> t_priority c = t_priority task \<and>
     t_max_attempts c = t_max_attempts task \<and> t_idempotency_key c = t_idempotency_key task"

lemma encode_tasks_Inr:
  assumes "encode_tasks encode ulid n tasks = Inr (cs, ids)"
  shows "length cs = length tasks \<and> length ids = length tasks \<and>
    (\<forall>k < length tasks. encoded_as encode (tasks ! k) (cs ! k) (ids ! k))"
  using assms
proof (induction tasks arbitrary: n cs ids)
  case (Cons task tasks)
  then obtain bytes cs' ids' where one: "encode (t_args task) = Inr bytes"
    and rest: "encode_tasks encode ulid (Suc n) tasks = Inr (cs', ids')"
    and eq: "cs = compact_task bytes (case t_task_id task of Some x \<Rightarrow> x | None \<Rightarrow> ulid n) task # cs'"
      "ids = (case t_task_id task of Some x \<Rightarrow> x | None \<Rightarrow> ulid n) # ids'"
    by (cases "encode (t_args task)") (auto simp: rbind_eq_Inr Let_def)
  have "encoded_as encode task (compact_task bytes (case t_task_id task of Some x \<Rightarrow> x | None \<Rightarrow> ulid n) task)
      (case t_task_id task of Some x \<Rightarrow> x | None \<Rightarrow> ulid n)"
    using one by (simp add: encoded_as_def compact_task_def)
  with Cons.IH [OF rest] show ?case by (auto simp: eq nth_Cons split: nat.split)
qed simp

lemma encode_tasks_error:
  assumes "task \<in> set tasks" and "encode (t_args task) = Inl m"
  shows "\<exists>m'. encode_tasks encode ulid n tasks = Inl (Decode m')"
  using assms
proof (induction tasks arbitrary: n)
  case (Cons t ts)
  show ?case
  proof (cases "encode (t_args t)")
    case (Inl e)
    then show ?thesis by (simp add: rbind_def)
  next
    case (Inr bytes)
    with Cons have "\<exists>m'. encode_tasks encode ulid (Suc n) ts = Inl (Decode m')" by auto
    with Inr show ?thesis by (auto simp: rbind_def Let_def)
  qed
qed simp

lemma batch_rows_nth:
  assumes "batch_rows px cfg tasks = Inr rows" and "n < length tasks" and "t_task_id (tasks ! n) = Some i"
  shows "j_id (rows ! n) = i \<and> j_job (rows ! n) = t_args (tasks ! n) \<and> j_job_type (rows ! n) = c_queue cfg \<and>
    j_status (rows ! n) = Pending \<and> j_attempts (rows ! n) = 0 \<and> j_priority (rows ! n) = t_priority (tasks ! n) \<and>
    j_max_attempts (rows ! n) = t_max_attempts (tasks ! n) \<and>
    j_idempotency_key (rows ! n) = t_idempotency_key (tasks ! n)"
proof -
  have "task_row_for px cfg n (tasks ! n) = Inr (rows ! n)"
    using collect_results_nth [OF assms(1) [unfolded batch_rows_def]] assms(2) by (simp add: nth_enumerate_eq)
  then obtain v :: validated_task and meta where "pending_row i (c_queue cfg) (t_args (tasks ! n)) (t_max_attempts (tasks ! n))
      (vt_run_at v) (t_priority (tasks ! n)) meta (t_idempotency_key (tasks ! n)) = rows ! n"
    using assms(3) by (auto simp: task_row_for_def map_sum_def split: sum.splits)
  from this [symmetric] show ?thesis by (simp add: pending_row_def)
qed

text \<open>The rows of a pushed batch.\<close>

definition stored_as :: "('a \<Rightarrow> (string, compact) result) \<Rightarrow> config \<Rightarrow> 'a task \<Rightarrow> string \<Rightarrow> job_row \<Rightarrow> bool" where
  "stored_as encode cfg task i row \<longleftrightarrow> j_id row = i \<and> (\<forall>x. t_task_id task = Some x \<longrightarrow> i = x) \<and>
     encode (t_args task) = Inr (j_job row) \<and> j_job_type row = c_queue cfg \<and> j_status row = Pending \<and>
     j_attempts row = 0 \<and> j_priority row = t_priority task \<and> j_max_attempts row = t_max_attempts task \<and>
     j_idempotency_key row = t_idempotency_key task"

lemma push_encoded_lands:
  assumes enc: "encode_tasks encode ulid 0 tasks = Inr (cs, ids)" and land: "lands px cfg cs d d'"
  obtains rows where "d' = d\<lparr>jobs := jobs d @ rows\<rparr>" "length rows = length tasks" "map j_id rows = ids"
    "\<forall>n < length tasks. stored_as encode cfg (tasks ! n) (ids ! n) (rows ! n)"
proof -
  note E = encode_tasks_Inr [OF enc]
  from land obtain rows where rows: "batch_rows px cfg cs = Inr rows" and d': "d' = d\<lparr>jobs := jobs d @ rows\<rparr>"
    by (auto simp: lands_def)
  have len: "length rows = length tasks" using batch_rows_Inr(1) [OF rows] E by simp
  have st: "stored_as encode cfg (tasks ! n) (ids ! n) (rows ! n)" if "n < length tasks" for n
    using E that batch_rows_nth [OF rows, of n "ids ! n"] by (auto simp: stored_as_def encoded_as_def)
  moreover have "map j_id rows = ids"
    using E len st by (intro nth_equalityI) (auto simp: stored_as_def)
  ultimately show thesis using that [OF d' len] by blast
qed

text \<open>
  C13. Enqueueing on a caller's connection reports what it stored. A success returns one id per task in
  the order they were given, each the given id where there was one, and appended exactly the rows of
  these ids, pending and unattempted, with the encoded payload, priority, budget and key of their task.
  Any failure stored nothing or everything, and a task the codec rejects fails the batch before anything
  is sent.
\<close>

theorem push_reports_stored_ids:
  assumes run: "push_tasks_with_conn encode px cfg tasks g = (r, g')"
  shows "(\<forall>ids. r = Inr ids \<longrightarrow> (\<exists>rows. pg_db g' = (pg_db g)\<lparr>jobs := jobs (pg_db g) @ rows\<rparr> \<and>
       length rows = length tasks \<and> map j_id rows = ids \<and>
       (\<forall>n < length tasks. stored_as encode cfg (tasks ! n) (ids ! n) (rows ! n)))) \<and>
    (\<forall>e. r = Inl e \<longrightarrow> pg_db g' = pg_db g \<or> (\<exists>rows. pg_db g' = (pg_db g)\<lparr>jobs := jobs (pg_db g) @ rows\<rparr> \<and>
       length rows = length tasks)) \<and>
    ((\<exists>task \<in> set tasks. \<exists>m. encode (t_args task) = Inl m) \<longrightarrow> g' = g \<and> (\<exists>m. r = Inl (Decode m)))"
proof (cases "encode_tasks encode (px_ulid px) 0 tasks")
  case (Inl e)
  with run have eq: "r = Inl e" "g' = g" by (simp_all add: push_tasks_with_conn_def push_encoded_def)
  moreover have "\<exists>m. e = Decode m" if "task \<in> set tasks" "encode (t_args task) = Inl m" for task m
    using encode_tasks_error [of task tasks encode m "px_ulid px" 0] that Inl by auto
  ultimately show ?thesis by auto
next
  case (Inr enc)
  obtain cs ids where enc: "enc = (cs, ids)" by fastforce
  note E = Inr [unfolded enc]
  have good: "\<not> (\<exists>task \<in> set tasks. \<exists>m. encode (t_args task) = Inl m)"
  proof
    assume "\<exists>task \<in> set tasks. \<exists>m. encode (t_args task) = Inl m"
    then obtain task m where "task \<in> set tasks" "encode (t_args task) = Inl m" by blast
    with encode_tasks_error [of task tasks encode m "px_ulid px" 0] E show False by auto
  qed
  obtain r1 g1 where push: "push_tasks_on_conn px cfg cs g = (r1, g1)" by fastforce
  have eq: "g' = g1" "r = (case r1 of Inl e \<Rightarrow> Inl e | Inr _ \<Rightarrow> Inr ids)"
    using run E push by (auto simp: push_tasks_with_conn_def push_encoded_def split: sum.splits)
  show ?thesis
  proof (cases "cs = []")
    case True
    have "tasks = []" "ids = []" using encode_tasks_Inr [OF E] True by auto
    moreover have "r1 = Inr ()" "g1 = g" using push True by (simp_all add: push_tasks_on_conn_def prepare_batch_def)
    ultimately show ?thesis using eq by simp
  next
    case False
    note all = push_all_or_nothing_raw [OF push False]
    have rows: "\<exists>rows. pg_db g' = (pg_db g)\<lparr>jobs := jobs (pg_db g) @ rows\<rparr> \<and>
       length rows = length tasks \<and> map j_id rows = ids \<and>
       (\<forall>n < length tasks. stored_as encode cfg (tasks ! n) (ids ! n) (rows ! n))"
      if "lands px cfg cs (pg_db g) (pg_db g1)"
      by (rule push_encoded_lands [OF E that]) (use eq(1) in blast)
    have "r1 = Inr () \<Longrightarrow> lands px cfg cs (pg_db g) (pg_db g1)"
      "pg_db g1 = pg_db g \<or> lands px cfg cs (pg_db g) (pg_db g1)" using all by blast+
    with rows eq good show ?thesis by (cases r1) auto
  qed
qed

section \<open>Release\<close>

text \<open>
  C28. A worker that ran is released, however its run ended. Whether the run returned or panicked, the
  local name is retired before the release is attempted and stays retired; the caller gets the outcome
  with the release's result, or the panic goes on after the release. A release that succeeded left the
  name no active claim in the queue and no token in its registration.
\<close>

theorem run_released_always_releases:
  assumes "run st = (outcome, st1)" and "run_released rel w run st = (res, st')"
    and "db_ok (pg_db (p_pg st1))"
  shows "name_retired (p_leases st') w \<and>
    (\<exists>released. (released, st') = on_pg (release_worker (pr_config rel) w (pr_lease_token rel)) (retire_lease w st1) \<and>
       (\<forall>x. outcome = Finished x \<longrightarrow> res = Finished \<lparr>rr_outcome = x, rr_released = released\<rparr>) \<and>
       (\<forall>p. outcome = Unwound p \<longrightarrow> res = Unwound p) \<and>
       (\<forall>n. released = Inr n \<longrightarrow> (\<forall>j \<in> set (jobs (pg_db (p_pg st'))). \<not> active_claim (c_queue (pr_config rel)) w j) \<and>
          (\<exists>r. find_worker w (c_queue (pr_config rel)) (pg_db (p_pg st')) = Some r \<and> w_lease_token r = None)))"
proof -
  let ?q = "c_queue (pr_config rel)"
  let ?f = "release_worker (pr_config rel) w (pr_lease_token rel)"
  obtain released g where run: "?f (p_pg st1) = (released, g)" by fastforce
  have frame: "p_pg (retire_lease w st1) = p_pg st1" by (simp add: retire_lease_def)
  with run have rel: "on_pg ?f (retire_lease w st1) = (released, (retire_lease w st1)\<lparr>p_pg := g\<rparr>)"
    by (simp add: on_pg_def)
  have eq: "st' = (retire_lease w st1)\<lparr>p_pg := g\<rparr>"
    "res = (case outcome of Finished x \<Rightarrow> Finished \<lparr>rr_outcome = x, rr_released = released\<rparr> | Unwound p \<Rightarrow> Unwound p)"
    using assms(1,2) rel by (auto simp: run_released_def releaser_release_worker_def)
  have "name_retired (p_leases st') w" by (simp add: eq(1) retire_lease_def names.retired_retire)
  moreover have "(\<forall>j \<in> set (jobs (pg_db g)). \<not> active_claim ?q w j) \<and>
      (\<exists>r. find_worker w ?q (pg_db g) = Some r \<and> w_lease_token r = None)" if "released = Inr n" for n
  proof -
    from run [unfolded that release_worker_def] obtain g1 where g1: "later (p_pg st1) g1" "release_worker_blocking ?q w (pr_lease_token rel) g1 = (Inr n, g)"
      by (rule with_conn_InrE)
    have "db_ok (pg_db g1)" using assms(3) laterD(1) [OF g1(1)] by simp
    from release_hands_back_raw [OF this g1(2)] show ?thesis unfolding owned_by_eq by blast
  qed
  ultimately show ?thesis
    using rel eq by (intro conjI exI [of _ released]) simp_all
qed

section \<open>Heartbeats wait for the registration\<close>

text \<open>The registration future of a heartbeat is not done yet.\<close>

definition unsettled :: "string \<Rightarrow> registration_wait \<Rightarrow> proc \<Rightarrow> bool" where
  "unsettled name r st \<longleftrightarrow> \<not> is_settled r (fst (for_worker name (p_leases st)))"

definition waiting_heart :: "string \<Rightarrow> registration_wait \<Rightarrow> 'b \<Rightarrow> 'b heartbeat \<Rightarrow> bool" where
  "waiting_heart name r b h \<longleftrightarrow> h = Beats (lease_stream_new (Waiting r b) name False)"

lemma lease_poll_plain:
  assumes "ls_ended s = False" and "\<not> name_retired (p_leases st) (ls_name s)" and "\<not> ls_retire_on_drop s"
    and "ls_registration s = NotBegun" and "inner (ls_inner s) st = (x, i, st1)" and "\<not> outcome_unknown x"
  shows "lease_stream_poll inner s st = (x, s\<lparr>ls_inner := i\<rparr>, st1)"
  using assms
  by (simp add: lease_stream_poll_def ensure_active_def for_worker_retired begin_attempt_def settle_first_def)

lemma is_settled_add_waiter [simp]: "is_settled r (add_waiter w l) = is_settled r l"
  by (simp add: is_settled_def add_waiter_def)

lemma waiting_poll:
  assumes h: "waiting_heart name r b h" and un: "unsettled name r st"
  obtains st1 where "heartbeat_poll w name body h st = (PollPending, h, st1)" "unsettled name r st1" "p_pg st1 = p_pg st"
proof -
  obtain l leases where fw: "for_worker name (p_leases st) = (l, leases)" by fastforce
  let ?l = "add_waiter w l" let ?st = "st\<lparr>p_leases := leases(name \<mapsto> ?l)\<rparr>"
  have no: "\<not> is_settled r l" using un fw by (simp add: unsettled_def)
  then have "\<not> name_retired (p_leases st) name"
    using for_worker_retired [of name "p_leases st"] fw by (simp add: is_settled_def)
  moreover have "beats_poll w name body (Waiting r b) st = (PollPending, Waiting r b, ?st)"
    using fw no by (simp add: beats_poll_def poll_registration_def Let_def)
  ultimately have "lease_stream_poll (beats_poll w name body) (lease_stream_new (Waiting r b) name False) st =
      (PollPending, (lease_stream_new (Waiting r b) name False)\<lparr>ls_inner := Waiting r b\<rparr>, ?st)"
    by (intro lease_poll_plain) (simp_all add: lease_stream_new_def outcome_unknown_def)
  then have "heartbeat_poll w name body h st = (PollPending, h, ?st)"
    using h by (simp add: heartbeat_poll_def waiting_heart_def lease_stream_new_def)
  moreover have "unsettled name r ?st" using no by (simp add: unsettled_def for_worker_def)
  ultimately show thesis using that by simp
qed

lemma waiting_polls:
  assumes "waiting_heart name r b h" and "unsettled name r st"
    and "\<forall>f \<in> set others. \<forall>x. unsettled name r x \<longrightarrow> unsettled name r (f x)"
    and "poll_many (heartbeat_poll w name body) others h st = (items, h', st')"
  shows "(\<forall>x \<in> set items. x = PollPending) \<and> h' = h"
  using assms(2-)
proof (induction others arbitrary: st items)
  case (Cons f others)
  have "unsettled name r (f st)" using Cons.prems by simp
  from waiting_poll [OF assms(1) this, where body = body and w = w] obtain st1 where
    one: "heartbeat_poll w name body h (f st) = (PollPending, h, st1)" "unsettled name r st1" by blast
  obtain rs h2 st2 where rest: "poll_many (heartbeat_poll w name body) others h st1 = (rs, h2, st2)" by (metis prod.exhaust)
  with Cons.prems(3) one(1) have eq: "items = PollPending # rs" "h2 = h'" "st2 = st'" by simp_all
  from Cons.IH [OF one(2) _ rest [unfolded eq]] Cons.prems(2) eq show ?case by simp
qed simp

text \<open>
  C33. A heartbeat waits for its registration and then beats. As long as the registration of the worker is
  neither settled nor made unnecessary by a retirement, whatever runs between its polls, the heartbeat
  stream only waits: it yields nothing and neither renews nor sweeps. The first poll after a settled
  registration, with the name not retired, goes to the renewals and sweeps.
\<close>

theorem heartbeat_waits_for_registration:
  assumes "heartbeat_stream cfg name (b, 0) st = (h, st0)" and "validate_liveness cfg = Inr ()"
    and "\<not> l_registered (fst (for_worker name (p_leases st)))" and "\<not> name_retired (p_leases st) name"
    and "\<forall>f \<in> set others. \<forall>x. unsettled name (Lease.registration (fst (for_worker name (p_leases st)))) x \<longrightarrow>
           unsettled name (Lease.registration (fst (for_worker name (p_leases st)))) (f x)"
    and "poll_many (heartbeat_poll w name (counted body)) others h st0 = (items, h', st')"
  shows "(\<forall>x \<in> set items. x = PollPending) \<and>
    (\<exists>s r. h' = Beats s \<and> ls_inner s = Waiting r (b, 0)) \<and>
    (\<forall>now. is_settled (Lease.registration (fst (for_worker name (p_leases st)))) (fst (for_worker name (p_leases now))) \<and>
       \<not> name_retired (p_leases now) name \<longrightarrow>
       (\<exists>x s b' st2. heartbeat_poll w name (counted body) h' now = (x, Beats s, st2) \<and> ls_inner s = Beating (b', 1)))"
proof -
  let ?l = "fst (for_worker name (p_leases st))" let ?r = "Lease.registration (fst (for_worker name (p_leases st)))"
  have h: "waiting_heart name ?r (b, 0) h"
    using assms(1,2) by (auto simp: heartbeat_stream_def waiting_heart_def case_prod_beta)
  have st0: "fst (for_worker name (p_leases st0)) = ?l"
    using assms(1,2) by (auto simp: heartbeat_stream_def for_worker_def case_prod_beta split: option.splits)
  then have un: "unsettled name ?r st0"
    using assms(3,4) for_worker_retired [of name "p_leases st"]
    by (simp add: unsettled_def is_settled_def Lease.registration_def)
  from waiting_polls [OF h un assms(5,6)] have res: "\<forall>x \<in> set items. x = PollPending" "h' = h" by blast+
  have "\<exists>x s b' st2. heartbeat_poll w name (counted body) h now = (x, Beats s, st2) \<and> ls_inner s = Beating (b', 1)"
    if set: "is_settled ?r (fst (for_worker name (p_leases now)))" "\<not> name_retired (p_leases now) name" for now
  proof -
    let ?s = "lease_stream_new (Waiting ?r (b, 0 :: nat)) name False"
    obtain l leases where fw: "for_worker name (p_leases now) = (l, leases)" by fastforce
    obtain x b1 st2 where bd: "body b (now\<lparr>p_leases := leases(name \<mapsto> l)\<rparr>) = (x, b1, st2)" by (metis prod.exhaust)
    have "beats_poll w name (counted body) (Waiting ?r (b, 0)) now = (x, Beating (b1, 1), st2)"
      using fw set(1) bd by (simp add: beats_poll_def poll_registration_def counted_def)
    then have "lease_stream_poll (beats_poll w name (counted body)) ?s now =
        (x, ?s\<lparr>ls_inner := Beating (b1, 1)\<rparr>, if outcome_unknown x then retire_lease name st2 else st2)"
      using set(2)
      by (simp add: lease_stream_poll_def lease_stream_new_def ensure_active_def for_worker_retired begin_attempt_def settle_first_def)
    then show ?thesis using h by (simp add: waiting_heart_def heartbeat_poll_def)
  qed
  with res h show ?thesis by (auto simp: waiting_heart_def lease_stream_new_def)
qed

end
