(* ===== verification/Admin.thy ===== *)
theory Admin
  imports Retention Models "HOL-Library.Multiset"
begin

text \<open>
  The operations behind dashboards and tooling (\<^verbatim>\<open>src/queries/admin.rs\<close>,
  \<^verbatim>\<open>src/admin.rs\<close>): lookup and listings, registration without a token, vacuum, and waiting for
  completion. The codec of the task arguments, the id parser and the decoder of results are
  parameters. Instants of the waiting process are nanoseconds.
\<close>

section \<open>Lookup and listings\<close>

definition fetch_by_id_row :: "string \<Rightarrow> string \<Rightarrow> job_row option sql" where
  "fetch_by_id_row task_id queue = with_conn (stmt ''fetching task by id'' (\<lambda>g.
     (Inr (find (\<lambda>j. j_id j = task_id \<and> j_job_type j = queue) (jobs (pg_db g))), pg_db g)))"

definition fetch_by_id ::
    "conversion \<Rightarrow> (compact \<Rightarrow> (string, 'a) result) \<Rightarrow> string \<Rightarrow> string \<Rightarrow> 'a task option sql" where
  "fetch_by_id conv decode task_id queue =
     sbind (fetch_by_id_row task_id queue) (\<lambda>row g. (case row of
       None \<Rightarrow> Inr None
     | Some j \<Rightarrow> rbind (task_row conv j) (\<lambda>task. rbind (try_map decode task) (\<lambda>t. Inr (Some t))), g))"

text \<open>
  \<^verbatim>\<open>ORDER BY done_at DESC, run_at DESC, id DESC\<close>, where a row without a completion time comes
  first.
\<close>

definition list_key :: "job_row \<Rightarrow> (nat \<times> int) \<times> int \<times> string" where
  "list_key j = ((case j_done_at j of None \<Rightarrow> (1, 0) | Some t \<Rightarrow> (0, t)), j_run_at j, j_id j)"

definition listing :: "(job_row \<Rightarrow> bool) \<Rightarrow> job_row list \<Rightarrow> job_row list" where
  "listing P js = rev (sort_key list_key (filter P js))"

definition page :: "int \<Rightarrow> int \<Rightarrow> 'a list \<Rightarrow> 'a list" where
  "page limit offset rows = take (nat limit) (drop (nat offset) rows)"

definition list_tasks_rows :: "string \<Rightarrow> status \<Rightarrow> int \<Rightarrow> int \<Rightarrow> job_row list sql" where
  "list_tasks_rows queue st limit offset = with_conn (stmt ''listing tasks'' (\<lambda>g.
     (Inr (page limit offset (listing (\<lambda>j. j_status j = st \<and> j_job_type j = queue) (jobs (pg_db g)))), pg_db g)))"

definition list_all_tasks_rows :: "status \<Rightarrow> int \<Rightarrow> int \<Rightarrow> job_row list sql" where
  "list_all_tasks_rows st limit offset = with_conn (stmt ''listing all tasks'' (\<lambda>g.
     (Inr (page limit offset (listing (\<lambda>j. j_status j = st) (jobs (pg_db g)))), pg_db g)))"

definition filter_status :: "page_filter \<Rightarrow> status" where
  "filter_status f = (case pf_status f of None \<Rightarrow> Pending | Some s \<Rightarrow> s)"

definition list_tasks ::
    "conversion \<Rightarrow> (compact \<Rightarrow> (string, 'a) result) \<Rightarrow> string \<Rightarrow> page_filter \<Rightarrow> 'a task list sql" where
  "list_tasks conv decode queue f g =
     (case rbind (i32_from_u32 (pf_limit f) ''limit'') (\<lambda>limit.
           rbind (filter_offset_i32 f) (\<lambda>offset. Inr (limit, offset))) of
        Inl e \<Rightarrow> (Inl e, g)
      | Inr (limit, offset) \<Rightarrow>
          sbind (list_tasks_rows queue (filter_status f) limit offset) (\<lambda>rows g.
            (rbind (collect_results (map (task_row conv) rows)) (\<lambda>tasks.
               collect_results (map (try_map decode) tasks)), g)) g)"

definition list_all_tasks :: "conversion \<Rightarrow> page_filter \<Rightarrow> compact task list sql" where
  "list_all_tasks conv f g =
     (case rbind (i32_from_u32 (pf_limit f) ''limit'') (\<lambda>limit.
           rbind (filter_offset_i32 f) (\<lambda>offset. Inr (limit, offset))) of
        Inl e \<Rightarrow> (Inl e, g)
      | Inr (limit, offset) \<Rightarrow>
          sbind (list_all_tasks_rows (filter_status f) limit offset) (\<lambda>rows g.
            (collect_results (map (task_row conv) rows), g)) g)"

definition list_workers_rows :: "string \<Rightarrow> worker_row list sql" where
  "list_workers_rows queue = with_conn (stmt ''listing workers'' (\<lambda>g.
     (Inr (sort_key (\<lambda>w. - w_last_seen w) (filter (\<lambda>w. w_worker_type w = queue) (workers (pg_db g)))), pg_db g)))"

definition list_all_workers_rows :: "worker_row list sql" where
  "list_all_workers_rows = with_conn (stmt ''listing all workers'' (\<lambda>g.
     (Inr (sort_key (\<lambda>w. - w_last_seen w) (workers (pg_db g))), pg_db g)))"

definition list_workers :: "string option \<Rightarrow> running_worker list sql" where
  "list_workers queue =
     sbind (case queue of Some q \<Rightarrow> list_workers_rows q | None \<Rightarrow> list_all_workers_rows)
       (\<lambda>rows. sreturn (map running_worker_of rows))"

section \<open>Registration without a token, and vacuum\<close>

definition STORAGE_NAME :: string where "STORAGE_NAME = ''PostgresStorage''"

definition admin_row :: "string \<Rightarrow> string \<Rightarrow> timestamp \<Rightarrow> worker_row" where
  "admin_row worker_id worker_type now =
     \<lparr>w_id = worker_id, w_worker_type = worker_type, w_storage_name = STORAGE_NAME, w_layers = '''',
      w_last_seen = now, w_started_at = Some now, w_lease_token = None\<rparr>"

definition admin_renewed :: "timestamp \<Rightarrow> worker_row \<Rightarrow> worker_row" where
  "admin_renewed now w =
     (if w_lease_token w = None
      then w\<lparr>w_storage_name := STORAGE_NAME, w_layers := '''', w_last_seen := now\<rparr> else w)"

definition register_worker_admin :: "string \<Rightarrow> string \<Rightarrow> unit sql" where
  "register_worker_admin worker_id worker_type = with_conn (
     sbind (stmt ''registering worker'' (\<lambda>g.
       upsert_worker (admin_row worker_id worker_type (pg_now g)) (admin_renewed (pg_now g)) (pg_db g)))
     (\<lambda>_. sreturn ()))"

definition register_worker :: "string \<Rightarrow> string \<Rightarrow> unit sql" where
  "register_worker worker_id worker_type = register_worker_admin worker_id worker_type"

definition vacuum :: "config \<Rightarrow> nat sql" where
  "vacuum cfg = purge_terminal_tasks (c_queue cfg) 0"

section \<open>Waiting for completion\<close>

text \<open>The arithmetic of the retries, on durations and a \<^verbatim>\<open>u32\<close> streak that stays small.\<close>

definition next_backoff :: "duration \<Rightarrow> duration \<Rightarrow> duration" where
  "next_backoff backoff limit = min (backoff * 2) limit"

definition db_errors_exhausted :: "nat \<Rightarrow> nat \<Rightarrow> bool" where
  "db_errors_exhausted error_streak max_consecutive \<longleftrightarrow> max_consecutive \<le> error_streak + 1"

definition INITIAL_BACKOFF :: duration where "INITIAL_BACKOFF = 100 * 1000000"
definition MAX_BACKOFF :: duration where "MAX_BACKOFF = 2 * 1000000000"
definition MAX_CONSECUTIVE_DB_ERRORS :: nat where "MAX_CONSECUTIVE_DB_ERRORS = 3"

definition hint_missing :: string where
  "hint_missing = ''the task does not exist: it was never enqueued, its enqueue has not committed, or it was purged''"

definition missing :: "string \<Rightarrow> error" where
  "missing i = task_not_found ''waiting for completion'' i None hint_missing"

text \<open>What the crate needs to read a result row: the id parser and the decoder of the result type.\<close>

type_synonym ('i, 'o) reader = "task_result_row \<Rightarrow> (error, ('i, 'o) task_result) result"

type_synonym absences = "string \<rightharpoonup> nat"

fun triage_ids ::
    "('i, 'o) reader \<Rightarrow> nat \<Rightarrow> duration \<Rightarrow> string list \<Rightarrow> (string \<rightharpoonup> tracked_task_row) \<Rightarrow> absences \<Rightarrow>
     (error, ('i, 'o) task_result) result list \<times> string list \<times> absences" where
  "triage_ids rd now grace [] present absent = ([], [], absent)"
| "triage_ids rd now grace (i # ids) present absent =
     (case present i of
        Some row \<Rightarrow>
          (case triage_ids rd now grace ids (present(i := None)) (absent(i := None)) of (items, rest, ab) \<Rightarrow>
             if tt_terminal row then (rd (task_result_row_of row) # items, rest, ab) else (items, i # rest, ab))
      | None \<Rightarrow>
          (case absent i of
             Some first \<Rightarrow>
               if grace \<le> now - first
               then (case triage_ids rd now grace ids present (absent(i := None)) of (items, rest, ab) \<Rightarrow>
                       (Inl (missing i) # items, rest, ab))
               else (case triage_ids rd now grace ids present absent of (items, rest, ab) \<Rightarrow> (items, i # rest, ab))
           | None \<Rightarrow>
               (case triage_ids rd now grace ids present (absent(i \<mapsto> now)) of (items, rest, ab) \<Rightarrow>
                  (items, i # rest, ab))))"

definition present_rows :: "tracked_task_row list \<Rightarrow> (string \<rightharpoonup> tracked_task_row)" where
  "present_rows rows = fold (\<lambda>r m. m(tt_id r \<mapsto> r)) rows Map.empty"

definition triage_poll ::
    "('i, 'o) reader \<Rightarrow> string list \<Rightarrow> tracked_task_row list \<Rightarrow> absences \<Rightarrow> nat \<Rightarrow> duration \<Rightarrow>
     (error, ('i, 'o) task_result) result list \<times> string list \<times> absences" where
  "triage_poll rd remaining rows absent now grace = triage_ids rd now grace remaining (present_rows rows) absent"

definition distinct_ids :: "string list \<Rightarrow> string list" where
  "distinct_ids ids = first_occurrences [] ids"

definition tracked_row :: "job_row \<Rightarrow> tracked_task_row" where
  "tracked_row j = \<lparr>tt_id = j_id j, tt_status = status_name (j_status j),
     tt_result = (if terminal_row j then j_last_result j else None), tt_terminal = terminal_row j\<rparr>"

definition tracked_task_rows :: "string list \<Rightarrow> tracked_task_row list sql" where
  "tracked_task_rows ids = with_conn (stmt ''fetching tracked task rows'' (\<lambda>g.
     (Inr (map tracked_row (filter (\<lambda>j. j_id j \<in> set ids) (jobs (pg_db g)))), pg_db g)))"

text \<open>
  The state of the stream, and one step of its \<^verbatim>\<open>unfold\<close>: the stream has ended, or the items it
  yields, how long it slept, and the next state.
\<close>

record wait =
  wt_remaining :: "string list"
  wt_backoff :: duration
  wt_streak :: nat
  wt_absent :: absences

definition wait_start :: "string list \<Rightarrow> wait" where
  "wait_start ids = \<lparr>wt_remaining = distinct_ids ids, wt_backoff = INITIAL_BACKOFF, wt_streak = 0, wt_absent = Map.empty\<rparr>"

definition wait_step ::
    "('i, 'o) reader \<Rightarrow> nat \<Rightarrow> wait \<Rightarrow> pg \<Rightarrow>
     ((error, ('i, 'o) task_result) result list \<times> duration \<times> wait) option \<times> pg" where
  "wait_step rd now w g =
     (if wt_remaining w = [] then (None, g)
      else case tracked_task_rows (wt_remaining w) g of
        (Inl e, g1) \<Rightarrow>
          if db_errors_exhausted (wt_streak w) MAX_CONSECUTIVE_DB_ERRORS
          then (Some ([Inl e], 0, \<lparr>wt_remaining = [], wt_backoff = INITIAL_BACKOFF, wt_streak = 0, wt_absent = wt_absent w\<rparr>), g1)
          else (Some ([], wt_backoff w, w\<lparr>wt_backoff := next_backoff (wt_backoff w) MAX_BACKOFF, wt_streak := wt_streak w + 1\<rparr>), g1)
      | (Inr rows, g1) \<Rightarrow>
          (case triage_poll rd (wt_remaining w) rows (wt_absent w) now INITIAL_BACKOFF of (items, rest, ab) \<Rightarrow>
             if items = []
             then (Some ([], wt_backoff w, \<lparr>wt_remaining = rest, wt_backoff = next_backoff (wt_backoff w) MAX_BACKOFF,
                     wt_streak = 0, wt_absent = ab\<rparr>), g1)
             else (Some (items, 0, \<lparr>wt_remaining = rest, wt_backoff = INITIAL_BACKOFF, wt_streak = 0, wt_absent = ab\<rparr>), g1)))"

definition completed_task_rows :: "string list \<Rightarrow> task_result_row list sql" where
  "completed_task_rows ids = with_conn (stmt ''fetching completed task results'' (\<lambda>g.
     (Inr (map (\<lambda>j. \<lparr>tr_id = Some (j_id j), tr_status = Some (status_name (j_status j)), tr_result = j_last_result j\<rparr>)
             (filter (\<lambda>j. j_id j \<in> set ids \<and> terminal_row j) (jobs (pg_db g)))), pg_db g)))"

definition check_status :: "('i, 'o) reader \<Rightarrow> string list \<Rightarrow> ('i, 'o) task_result list sql" where
  "check_status rd ids = sbind (completed_task_rows ids) (\<lambda>rows g. (collect_results (map rd rows), g))"

text \<open>
  The items of the stream over a series of polls (\<^verbatim>\<open>stream::unfold(..).flatten()\<close>). Each poll
  comes with its instant and the connection it runs on: other sessions may have changed the tables
  since the poll before.
\<close>

fun wait_run ::
    "('i, 'o) reader \<Rightarrow> (nat \<times> pg) list \<Rightarrow> wait \<Rightarrow> (error, ('i, 'o) task_result) result list \<times> wait" where
  "wait_run rd [] w = ([], w)"
| "wait_run rd ((now, g) # polls) w =
     (case fst (wait_step rd now w g) of
        None \<Rightarrow> ([], w)
      | Some (items, slept, w') \<Rightarrow>
          (case wait_run rd polls w' of (others, w'') \<Rightarrow> (items @ others, w'')))"

definition wait_for_completion ::
    "('i, 'o) reader \<Rightarrow> string list \<Rightarrow> (nat \<times> pg) list \<Rightarrow> (error, ('i, 'o) task_result) result list \<times> wait" where
  "wait_for_completion rd task_ids polls = wait_run rd polls (wait_start task_ids)"

section \<open>One poll\<close>

text \<open>What a poll decides for one id, by itself: its item, or nothing yet.\<close>

definition poll_verdict ::
    "('i, 'o) reader \<Rightarrow> nat \<Rightarrow> duration \<Rightarrow> (string \<rightharpoonup> tracked_task_row) \<Rightarrow> absences \<Rightarrow> string \<Rightarrow>
     (error, ('i, 'o) task_result) result option" where
  "poll_verdict rd now grace present absent i =
     (case present i of
        Some row \<Rightarrow> if tt_terminal row then Some (rd (task_result_row_of row)) else None
      | None \<Rightarrow> (case absent i of
          Some first \<Rightarrow> if grace \<le> now - first then Some (Inl (missing i)) else None
        | None \<Rightarrow> None))"

text \<open>The absence a poll leaves behind for one id.\<close>

definition poll_absence ::
    "('i, 'o) reader \<Rightarrow> nat \<Rightarrow> duration \<Rightarrow> (string \<rightharpoonup> tracked_task_row) \<Rightarrow> absences \<Rightarrow> absences" where
  "poll_absence rd now grace present absent i =
     (if present i \<noteq> None \<or> poll_verdict rd now grace present absent i \<noteq> None then None
      else case absent i of None \<Rightarrow> Some now | Some first \<Rightarrow> Some first)"

lemma poll_verdict_cong:
  "ab k = ab' k \<Longrightarrow> poll_verdict rd now grace present ab k = poll_verdict rd now grace present ab' k"
  by (simp add: poll_verdict_def split: option.split)

lemma poll_absence_cong:
  "ab k = ab' k \<Longrightarrow> poll_absence rd now grace present ab k = poll_absence rd now grace present ab' k"
  by (simp add: poll_absence_def poll_verdict_cong [of ab k ab'])

lemma triage_ids_present_cong:
  "\<forall>i \<in> set ids. present i = present' i \<Longrightarrow>
   triage_ids rd now grace ids present absent = triage_ids rd now grace ids present' absent"
proof (induction ids arbitrary: present present' absent)
  case (Cons i ids)
  then have "triage_ids rd now grace ids (present(i := None)) ab = triage_ids rd now grace ids (present'(i := None)) ab"
    "triage_ids rd now grace ids present ab = triage_ids rd now grace ids present' ab" for ab
    by auto
  with Cons.prems show ?case by (simp split: option.splits)
qed simp

lemma triage_ids_eq:
  assumes "distinct ids"
  shows "triage_ids rd now grace ids present absent =
    (List.map_filter (poll_verdict rd now grace present absent) ids,
     filter (\<lambda>i. poll_verdict rd now grace present absent i = None) ids,
     \<lambda>i. if i \<in> set ids then poll_absence rd now grace present absent i else absent i)"
  using assms
proof (induction ids arbitrary: absent)
  case (Cons i ids)
  have upd: "triage_ids rd now grace ids present (absent(i := x)) =
    (List.map_filter (poll_verdict rd now grace present absent) ids,
     filter (\<lambda>i. poll_verdict rd now grace present absent i = None) ids,
     \<lambda>k. if k \<in> set ids then poll_absence rd now grace present absent k else (absent(i := x)) k)" for x
  proof -
    have "poll_verdict rd now grace present (absent(i := x)) k = poll_verdict rd now grace present absent k"
      "poll_absence rd now grace present (absent(i := x)) k = poll_absence rd now grace present absent k"
      if "k \<in> set ids" for k
      using that Cons.prems by (auto intro!: poll_verdict_cong poll_absence_cong)
    then show ?thesis
      using Cons by (auto simp: map_filter_def intro!: filter_cong map_cong)
  qed
  have gone: "triage_ids rd now grace ids (present(i := None)) ab = triage_ids rd now grace ids present ab" for ab
    using Cons.prems by (intro triage_ids_present_cong) auto
  have "triage_ids rd now grace (i # ids) present absent =
    (case triage_ids rd now grace ids present (absent(i := poll_absence rd now grace present absent i)) of
       (items, rest, ab) \<Rightarrow> (case poll_verdict rd now grace present absent i of
          Some it \<Rightarrow> (it # items, rest, ab) | None \<Rightarrow> (items, i # rest, ab)))"
    using gone by (auto simp: poll_verdict_def poll_absence_def fun_upd_idem split: option.split prod.split)
  then show ?case
    by (auto simp: upd map_filter_simps fun_eq_iff split: option.split)
qed (simp add: map_filter_simps)

text \<open>
  One pass over the waited ids, with its map of rows that it consumes and its map of absences
  that it updates, decides each id as if it were alone, in the order waited: a terminal row is
  reported with its result, an active row keeps waiting and clears its absence, an id without a row
  keeps waiting from its first absence on and is reported missing once the grace has passed. No id
  is both reported and waited for, and none is lost.
\<close>

lemma triage_poll_decides_each:
  assumes "distinct remaining"
  shows "triage_poll rd remaining rows absent now grace =
    (List.map_filter (poll_verdict rd now grace (present_rows rows) absent) remaining,
     filter (\<lambda>i. poll_verdict rd now grace (present_rows rows) absent i = None) remaining,
     \<lambda>i. if i \<in> set remaining then poll_absence rd now grace (present_rows rows) absent i else absent i)"
  unfolding triage_poll_def by (rule triage_ids_eq [OF assms])

section \<open>A whole wait\<close>

text \<open>What the polls saw: whether the query failed, and whether a task had a row.\<close>

definition poll_failed :: "pg \<Rightarrow> bool" where
  "poll_failed g \<longleftrightarrow> isl (fst (tracked_task_rows [] g))"

definition no_row :: "string \<Rightarrow> pg \<Rightarrow> bool" where
  "no_row i g \<longleftrightarrow> i \<notin> j_id ` set (jobs (pg_db g))"

text \<open>Since the poll at instant \<open>t\<close>, which succeeded, no successful poll found a row of the task.\<close>

definition absent_since :: "(nat \<times> pg) list \<Rightarrow> string \<Rightarrow> nat \<Rightarrow> bool" where
  "absent_since polls i t \<longleftrightarrow> (\<exists>before g0 rest. polls = before @ (t, g0) # rest \<and> \<not> poll_failed g0 \<and> no_row i g0 \<and>
     (\<forall>(n, g) \<in> set rest. poll_failed g \<or> no_row i g))"






text \<open>The \<open>n\<close> polls at the end of the series failed.\<close>

definition failed_tail :: "(nat \<times> pg) list \<Rightarrow> nat \<Rightarrow> bool" where
  "failed_tail polls n \<longleftrightarrow> (\<exists>before rest. polls = before @ rest \<and> length rest = n \<and> (\<forall>(t, g) \<in> set rest. poll_failed g))"

lemma tracked_run:
  assumes "tracked_task_rows ids g = (r, g')"
  shows "isl r = poll_failed g" and "\<And>rows. r = Inr rows \<Longrightarrow>
    rows = map tracked_row (filter (\<lambda>j. j_id j \<in> set ids) (jobs (pg_db g)))"
proof -
  show "isl r = poll_failed g"
    using assms unfolding poll_failed_def tracked_task_rows_def with_conn_def stmt_def next_step_def
    by (auto simp: Let_def split: list.splits pool_step.splits option.splits)
  show "rows = map tracked_row (filter (\<lambda>j. j_id j \<in> set ids) (jobs (pg_db g)))" if "r = Inr rows" for rows
    using assms unfolding that tracked_task_rows_def by (elim with_conn_InrE stmt_InrE) (auto simp: laterD)
qed

lemma fold_upd_rows:
  "fold (\<lambda>r m. m(tt_id r \<mapsto> r)) rows m i = Some r \<Longrightarrow> (r \<in> set rows \<and> tt_id r = i) \<or> m i = Some r"
  "fold (\<lambda>r m. m(tt_id r \<mapsto> r)) rows m i = None \<longleftrightarrow> m i = None \<and> i \<notin> tt_id ` set rows"
  by (induction rows arbitrary: m) (fastforce split: if_splits)+

lemma present_tracked:
  assumes "rows = map tracked_row (filter (\<lambda>j. j_id j \<in> set ids) (jobs (pg_db g)))"
  shows "present_rows rows i = Some r \<Longrightarrow> \<exists>j \<in> set (jobs (pg_db g)). j_id j = i \<and> r = tracked_row j"
    and "i \<in> set ids \<Longrightarrow> present_rows rows i = None \<longleftrightarrow> no_row i g"
proof -
  show "\<exists>j \<in> set (jobs (pg_db g)). j_id j = i \<and> r = tracked_row j" if "present_rows rows i = Some r"
    using fold_upd_rows(1) [OF that [unfolded present_rows_def]] assms by (auto simp: tracked_row_def)
  show "present_rows rows i = None \<longleftrightarrow> no_row i g" if "i \<in> set ids"
    using that assms by (auto simp: present_rows_def fold_upd_rows(2) no_row_def tracked_row_def image_iff)
qed

lemma wait_step_ended: "wt_remaining w = [] \<Longrightarrow> fst (wait_step rd now w g) = None"
  by (simp add: wait_step_def)

lemma wait_run_ended: "wt_remaining w = [] \<Longrightarrow> wait_run rd polls w = ([], w)"
  by (induction rd polls w rule: wait_run.induct) (simp_all add: wait_step_ended)

lemma wait_step_None: "fst (wait_step rd now w g) = None \<longleftrightarrow> wt_remaining w = []"
  by (auto simp: wait_step_def split: prod.splits sum.splits)

lemma wait_run_snoc:
  "wait_run rd (polls @ [(now, g)]) w =
     (case wait_run rd polls w of (items, w1) \<Rightarrow>
        (case fst (wait_step rd now w1 g) of
           None \<Rightarrow> (items, w1)
         | Some (new, slept, w2) \<Rightarrow> (items @ new, w2)))"
proof (induction rd polls w rule: wait_run.induct)
  case (2 rd t h polls w)
  then show ?case
    by (cases "fst (wait_step rd t w h)")
       (auto simp: wait_step_None wait_step_ended split: prod.splits option.splits)
qed (simp split: option.splits prod.splits)

lemma wait_step_cases [consumes 2, case_names surfaced retried polled]:
  assumes "fst (wait_step rd now w g) = Some (new, slept, w')" and "distinct (wt_remaining w)"
  obtains
    (surfaced) e where "poll_failed g" "MAX_CONSECUTIVE_DB_ERRORS \<le> wt_streak w + 1" "new = [Inl e]" "wt_remaining w' = []"
  | (retried) "poll_failed g" "new = []" "slept = wt_backoff w"
      "w' = w\<lparr>wt_backoff := next_backoff (wt_backoff w) MAX_BACKOFF, wt_streak := wt_streak w + 1\<rparr>"
  | (polled) rows v where "\<not> poll_failed g"
      "rows = map tracked_row (filter (\<lambda>j. j_id j \<in> set (wt_remaining w)) (jobs (pg_db g)))"
      "v = poll_verdict rd now INITIAL_BACKOFF (present_rows rows) (wt_absent w)"
      "new = List.map_filter v (wt_remaining w)" "wt_remaining w' = filter (\<lambda>i. v i = None) (wt_remaining w)"
      "wt_streak w' = 0"
      "\<And>i. i \<in> set (wt_remaining w) \<Longrightarrow>
        wt_absent w' i = poll_absence rd now INITIAL_BACKOFF (present_rows rows) (wt_absent w) i"
proof -
  have ne: "wt_remaining w \<noteq> []" using assms(1) by (auto simp: wait_step_def)
  obtain r g1 where q: "tracked_task_rows (wt_remaining w) g = (r, g1)" by fastforce
  show thesis
  proof (cases r)
    case (Inl e)
    note q = q [unfolded Inl]
    have bad: "poll_failed g" using tracked_run(1) [OF q] by simp
    show thesis
    proof (cases "db_errors_exhausted (wt_streak w) MAX_CONSECUTIVE_DB_ERRORS")
      case True
      with assms(1) ne q have "new = [Inl e]" "wt_remaining w' = []" by (auto simp: wait_step_def)
      with bad True show thesis by (auto simp: db_errors_exhausted_def intro: surfaced)
    next
      case False
      with assms(1) ne q bad show thesis by (auto simp: wait_step_def intro!: retried)
    qed
  next
    case (Inr rows)
    note q = q [unfolded Inr]
    let ?v = "poll_verdict rd now INITIAL_BACKOFF (present_rows rows) (wt_absent w)"
    have t: "triage_poll rd (wt_remaining w) rows (wt_absent w) now INITIAL_BACKOFF =
      (List.map_filter ?v (wt_remaining w), filter (\<lambda>i. ?v i = None) (wt_remaining w),
       \<lambda>i. if i \<in> set (wt_remaining w) then poll_absence rd now INITIAL_BACKOFF (present_rows rows) (wt_absent w) i else wt_absent w i)"
      unfolding triage_poll_def by (rule triage_ids_eq [OF assms(2)])
    have "\<not> poll_failed g" and rows: "rows = map tracked_row (filter (\<lambda>j. j_id j \<in> set (wt_remaining w)) (jobs (pg_db g)))"
      using tracked_run [OF q] by simp_all
    then show thesis
      using assms(1) ne q t by (intro polled [of rows ?v]) (auto simp: wait_step_def split: if_splits)
  qed
qed

text \<open>The state of the wait tells the truth about the polls so far.\<close>

definition wait_inv :: "(nat \<times> pg) list \<Rightarrow> wait \<Rightarrow> bool" where
  "wait_inv polls w \<longleftrightarrow> distinct (wt_remaining w) \<and>
     (wt_remaining w \<noteq> [] \<longrightarrow> failed_tail polls (wt_streak w)) \<and>
     (\<forall>i \<in> set (wt_remaining w). \<forall>t. wt_absent w i = Some t \<longrightarrow> absent_since polls i t)"

lemma absent_since_snoc:
  "absent_since polls i t \<Longrightarrow> poll_failed g \<or> no_row i g \<Longrightarrow> absent_since (polls @ [(n, g)]) i t"
  unfolding absent_since_def
  by (elim exE conjE, rule_tac x = before in exI, rule_tac x = g0 in exI, rule_tac x = "rest @ [(n, g)]" in exI) auto

lemma absent_since_now: "\<not> poll_failed g \<Longrightarrow> no_row i g \<Longrightarrow> absent_since (polls @ [(n, g)]) i n"
  unfolding absent_since_def by (rule exI [of _ polls], rule exI [of _ g], rule exI [of _ "[]"]) simp

lemma failed_tail_snoc: "failed_tail polls k \<Longrightarrow> poll_failed g \<Longrightarrow> failed_tail (polls @ [(n, g)]) (k + 1)"
  unfolding failed_tail_def
  by (elim exE conjE, rule_tac x = before in exI, rule_tac x = "rest @ [(n, g)]" in exI) auto

lemma failed_tail_0 [simp]: "failed_tail polls 0"
  by (auto simp: failed_tail_def)


lemma wait_inv_step:
  assumes "wait_inv polls w" and "fst (wait_step rd now w g) = Some (new, slept, w')"
  shows "wait_inv (polls @ [(now, g)]) w'"
proof -
  have d: "distinct (wt_remaining w)" using assms(1) by (simp add: wait_inv_def)
  from assms(2) d show ?thesis
  proof (cases rule: wait_step_cases)
    case surfaced
    then show ?thesis by (simp add: wait_inv_def)
  next
    case retried
    with assms(1) show ?thesis
      using failed_tail_snoc [of polls "wt_streak w"] by (auto simp: wait_inv_def intro: absent_since_snoc)
  next
    case (polled rows v)
    have "absent_since (polls @ [(now, g)]) i t"
      if i: "i \<in> set (wt_remaining w)" and t: "wt_absent w' i = Some t" for i t
    proof -
      have t': "poll_absence rd now INITIAL_BACKOFF (present_rows rows) (wt_absent w) i = Some t"
        using polled(7) [OF i] t by simp
      then have "no_row i g" using present_tracked(2) [OF polled(2) i] by (auto simp: poll_absence_def split: if_splits)
      with t' assms(1) i polled(1) show ?thesis
        by (auto simp: poll_absence_def wait_inv_def absent_since_now intro: absent_since_snoc split: if_splits option.splits)
    qed
    with polled d show ?thesis by (auto simp: wait_inv_def)
  qed
qed

lemma wait_run_inv: "wait_inv polls (snd (wait_run rd polls (wait_start ids)))"
proof (induction polls rule: rev_induct)
  case Nil
  show ?case by (simp add: wait_inv_def wait_start_def distinct_ids_def distinct_first_occurrences)
next
  case (snoc p polls)
  obtain now g where p: "p = (now, g)" by fastforce
  obtain items w where run: "wait_run rd polls (wait_start ids) = (items, w)" by fastforce
  show ?case
  proof (cases "fst (wait_step rd now w g)")
    case None
    then have "wt_remaining w = []" by (simp add: wait_step_None)
    with None run p show ?thesis by (simp add: wait_run_snoc wait_inv_def)
  next
    case (Some x)
    then obtain new slept w' where x: "fst (wait_step rd now w g) = Some (new, slept, w')" by (cases x) auto
    from wait_inv_step [OF _ x, of polls] snoc run x show ?thesis by (simp add: p wait_run_snoc)
  qed
qed

lemma wait_step_backoff:
  assumes "INITIAL_BACKOFF \<le> wt_backoff w" and "wt_backoff w \<le> MAX_BACKOFF"
    and "fst (wait_step rd now w g) = Some (new, slept, w')"
  shows "INITIAL_BACKOFF \<le> wt_backoff w' \<and> wt_backoff w' \<le> MAX_BACKOFF"
proof -
  have "INITIAL_BACKOFF \<le> MAX_BACKOFF" by (simp add: INITIAL_BACKOFF_def MAX_BACKOFF_def)
  moreover have "wt_backoff w' \<in> {INITIAL_BACKOFF, next_backoff (wt_backoff w) MAX_BACKOFF}"
    using assms(3) by (auto simp: wait_step_def split: if_splits prod.splits sum.splits)
  ultimately show ?thesis using assms(1,2) by (auto simp: next_backoff_def)
qed

lemma wait_run_backoff:
  "INITIAL_BACKOFF \<le> wt_backoff (snd (wait_run rd polls (wait_start ids))) \<and>
   wt_backoff (snd (wait_run rd polls (wait_start ids))) \<le> MAX_BACKOFF"
proof (induction polls rule: rev_induct)
  case Nil
  show ?case by (simp add: wait_start_def INITIAL_BACKOFF_def MAX_BACKOFF_def)
next
  case (snoc p polls)
  obtain now g where p: "p = (now, g)" by fastforce
  obtain items w where run: "wait_run rd polls (wait_start ids) = (items, w)" by fastforce
  show ?case
  proof (cases "fst (wait_step rd now w g)")
    case None
    with run p snoc show ?thesis by (simp add: wait_run_snoc)
  next
    case (Some x)
    then obtain new slept w' where x: "fst (wait_step rd now w g) = Some (new, slept, w')" by (cases x) auto
    from snoc run wait_step_backoff [OF _ _ x] show ?thesis by (simp add: p wait_run_snoc x)
  qed
qed












text \<open>
  Two consecutive polls that do not find a task do not end its wait by themselves: within the grace the
  task is waited for, so that an enqueue may still commit.
\<close>

lemma two_absent_polls_within_grace:
  assumes "quiet g" and "jobs (pg_db g) = []" and "n < INITIAL_BACKOFF"
  shows "fst (wait_for_completion rd [i] [(0, g), (n, g)]) = [] \<and> wt_remaining (snd (wait_for_completion rd [i] [(0, g), (n, g)])) = [i]"
  using assms
  by (simp add: wait_for_completion_def wait_start_def wait_step_def tracked_task_rows_def stmt_quiet quiet_def
      triage_poll_def present_rows_def distinct_ids_def)


text \<open>
  A wait ends: the first successful poll at which every task still waited for has a terminal
  row reports them all and leaves nothing to wait for, so the stream ends. Until then every pause
  between two polls lasts from 100 ms to 2 s.
\<close>

lemma wait_ends_when_tasks_end:
  assumes "db_ok (pg_db g)" and "\<not> poll_failed g"
    and "\<forall>i \<in> set (wt_remaining (snd (wait_for_completion rd ids polls))). \<exists>j \<in> set (jobs (pg_db g)). j_id j = i \<and> terminal_row j"
  shows "wt_remaining (snd (wait_for_completion rd ids (polls @ [(now, g)]))) = [] \<and>
    INITIAL_BACKOFF \<le> wt_backoff (snd (wait_for_completion rd ids polls)) \<and>
    wt_backoff (snd (wait_for_completion rd ids polls)) \<le> MAX_BACKOFF"
proof -
  obtain items w where run: "wait_run rd polls (wait_start ids) = (items, w)" by fastforce
  have "wt_remaining (snd (wait_run rd (polls @ [(now, g)]) (wait_start ids))) = []"
  proof (cases "fst (wait_step rd now w g)")
    case None
    then have "wt_remaining w = []" by (simp add: wait_step_None)
    with run show ?thesis by (simp add: wait_run_snoc wait_step_ended)
  next
    case (Some x)
    then obtain new slept w' where x: "fst (wait_step rd now w g) = Some (new, slept, w')" by (cases x) auto
    have "distinct (wt_remaining w)" using wait_run_inv [of polls rd ids] run by (simp add: wait_inv_def)
    with x have "wt_remaining w' = []"
    proof (cases rule: wait_step_cases)
      case (polled rows v)
      have "v i \<noteq> None" if i: "i \<in> set (wt_remaining w)" for i
      proof -
        from assms(3) i run obtain j where j: "j \<in> set (jobs (pg_db g))" "j_id j = i" "terminal_row j"
          by (auto simp: wait_for_completion_def)
        then have "\<not> no_row i g" by (auto simp: no_row_def)
        with present_tracked(2) [OF polled(2) i] obtain r where r: "present_rows rows i = Some r" by auto
        from present_tracked(1) [OF polled(2) r] j assms(1) have "r = tracked_row j"
          by (auto simp: db_ok_def dest: distinct_key_unique [of j_id])
        with r j(3) show ?thesis by (simp add: polled(3) poll_verdict_def tracked_row_def)
      qed
      then show ?thesis by (auto simp: polled(5) filter_empty_conv)
    qed (use assms(2) in simp_all)
    with run x show ?thesis by (simp add: wait_run_snoc)
  qed
  with wait_run_backoff [of rd polls ids] show ?thesis by (simp add: wait_for_completion_def)
qed

section \<open>Listings\<close>

lemma pages_tile: "concat (map (\<lambda>p. take l (drop ((p - 1) * l) xs)) [1..<n + 1]) = take (n * l) xs"
proof (induction n)
  case (Suc n)
  have "concat (map (\<lambda>p. take l (drop ((p - 1) * l) xs)) [1..<Suc n + 1]) = take (n * l) xs @ take l (drop (n * l) xs)"
    using Suc by (simp add: upt_Suc)
  also have "\<dots> = take (n * l + l) xs" by (simp add: take_add)
  finally show ?case by (simp add: add.commute)
qed simp

lemma listing_descends: "sorted (rev (map list_key (listing P js)))"
  by (simp add: listing_def rev_map)

lemma listing_mset: "mset (listing P js) = mset (filter P js)"
  by (simp add: listing_def)

lemma collect_two:
  assumes "rbind (collect_results (map f rows)) (\<lambda>xs. collect_results (map h xs)) = Inr ts"
  shows "map Inr ts = map (\<lambda>r. rbind (f r) h) rows"
proof -
  from assms obtain xs where "map f rows = map Inr xs" "map h xs = map Inr ts"
    by (auto simp: rbind_eq_Inr collect_results_Inr_iff)
  moreover have "map (\<lambda>r. rbind (f r) h) rows = map (\<lambda>y. rbind y h) (map f rows)" by simp
  ultimately show ?thesis by (simp add: comp_def)
qed

lemma list_tasks_rows_Inr:
  assumes "list_tasks_rows q st l off g = (Inr rows, g')"
  shows "rows = page l off (listing (\<lambda>j. j_status j = st \<and> j_job_type j = q) (jobs (pg_db g)))"
  using assms unfolding list_tasks_rows_def by (elim with_conn_InrE stmt_InrE) (auto simp: laterD)

text \<open>The row of a listing as the caller sees it.\<close>

abbreviation listed :: "conversion \<Rightarrow> (compact \<Rightarrow> (string, 'a) result) \<Rightarrow> job_row \<Rightarrow> (error, 'a task) result" where
  "listed conv decode j \<equiv> rbind (task_row conv j) (try_map decode)"

lemma list_tasks_Inr:
  assumes "fst (list_tasks conv decode q f g) = Inr ts"
  shows "pf_page f \<noteq> 0 \<and> map Inr ts = map (listed conv decode)
    (take (unat (pf_limit f)) (drop ((unat (pf_page f) - 1) * unat (pf_limit f))
       (listing (\<lambda>j. j_status j = filter_status f \<and> j_job_type j = q) (jobs (pg_db g)))))"
proof -
  obtain g1 where run: "list_tasks conv decode q f g = (Inr ts, g1)" using run_fst [OF assms] by blast
  then obtain l off where lo: "i32_from_u32 (pf_limit f) ''limit'' = Inr l" "filter_offset_i32 f = Inr off"
    by (auto simp: list_tasks_def rbind_eq_Inr split: sum.splits dest: sym)
  with run obtain rows g2 where r: "list_tasks_rows q (filter_status f) l off g = (Inr rows, g2)"
    "rbind (collect_results (map (task_row conv) rows)) (\<lambda>tasks. collect_results (map (try_map decode) tasks)) = Inr ts"
    by (auto simp: list_tasks_def elim!: sbind_InrE)
  have l: "nat l = unat (pf_limit f)"
    using lo(1) by (auto simp: i32_from_u32_def i32_try_from_def split: option.splits if_splits)
  have off: "pf_page f \<noteq> 0" "off = (uint (pf_page f) - 1) * uint (pf_limit f)"
    using lo(2) by (simp_all add: filter_offset_i32_iff)
  have "0 < unat (pf_page f)" using off(1) by (simp add: unat_gt_0)
  then have "off = int ((unat (pf_page f) - 1) * unat (pf_limit f))"
    unfolding off(2) by (simp add: of_nat_diff)
  then have "nat off = (unat (pf_page f) - 1) * unat (pf_limit f)" by (simp only: nat_int)
  with list_tasks_rows_Inr [OF r(1)] collect_two [OF r(2)] off(1) l show ?thesis by (simp add: page_def)
qed

text \<open>
  The pages of a listing tile it: pages 1 to n of one filter, read while the tasks stay as they
  are, are the first n times limit rows of the one ordered listing of the queue's tasks in that
  state, without a gap, a repetition or a change of order. The listing holds exactly those tasks, the
  latest completion first and tasks without one before all others.
\<close>

lemma pages_tile_the_listing:
  assumes "\<forall>p \<in> {1..n}. jobs (pg_db (conn p)) = js \<and>
      fst (list_tasks conv decode queue (f\<lparr>pf_page := of_nat p\<rparr>) (conn p)) = Inr (tasks p)"
    and "n < 2 ^ 32"
  defines "rows \<equiv> listing (\<lambda>j. j_status j = filter_status f \<and> j_job_type j = queue) js"
  shows "map Inr (concat (map tasks [1..<n + 1])) = map (listed conv decode) (take (n * unat (pf_limit f)) rows) \<and>
    mset rows = mset (filter (\<lambda>j. j_status j = filter_status f \<and> j_job_type j = queue) js) \<and>
    sorted (rev (map list_key rows))"
proof -
  have one: "map Inr (tasks p) = map (listed conv decode) (take (unat (pf_limit f)) (drop ((p - 1) * unat (pf_limit f)) rows))"
    if "p \<in> set [1..<n + 1]" for p
  proof -
    from that assms(2) have "unat (of_nat p :: 32 word) = p" by (intro of_nat_inverse [OF refl]) auto
    with that assms(1) list_tasks_Inr [of conv decode queue "f\<lparr>pf_page := of_nat p\<rparr>" "conn p" "tasks p"]
    show ?thesis by (auto simp: rows_def filter_status_def)
  qed
  have "map Inr (concat (map tasks [1..<n + 1])) = concat (map (\<lambda>p. map Inr (tasks p)) [1..<n + 1])"
    by (simp add: map_concat comp_def)
  also have "\<dots> = concat (map (\<lambda>p. map (listed conv decode) (take (unat (pf_limit f)) (drop ((p - 1) * unat (pf_limit f)) rows))) [1..<n + 1])"
    by (intro arg_cong [of _ _ concat] map_cong refl one)
  also have "\<dots> = map (listed conv decode) (take (n * unat (pf_limit f)) rows)"
    using pages_tile [of "unat (pf_limit f)" rows n] by (simp add: map_concat comp_def flip: pages_tile)
  finally show ?thesis by (simp add: rows_def listing_mset listing_descends)
qed

section \<open>Registration without a token\<close>

text \<open>What the upsert of a dashboard does to the registrations, at some instant from \<open>now\<close> on.\<close>

definition admin_touch :: "string \<times> string \<Rightarrow> db \<Rightarrow> db \<Rightarrow> bool" where
  "admin_touch key d d' \<longleftrightarrow> jobs d' = jobs d \<and>
     (\<forall>v \<in> set (workers d). worker_key v \<noteq> key \<or> w_lease_token v \<noteq> None \<longrightarrow> v \<in> set (workers d')) \<and>
     (\<forall>v \<in> set (workers d'). v \<in> set (workers d) \<or> worker_key v = key \<and> w_lease_token v = None)"

lemma admin_upsert_touch:
  assumes "upsert_worker (admin_row w q now) (admin_renewed now) d = (Inr k, d')"
  shows "admin_touch (w, q) d d'" and "\<exists>v \<in> set (workers d'). worker_key v = (w, q) \<and> (w_lease_token v = None \<longrightarrow> w_last_seen v = now)"
proof -
  have key: "worker_key (admin_row w q now) = (w, q)" by (simp add: admin_row_def worker_key_def)
  have renewed: "worker_key (admin_renewed now v) = worker_key v" "w_lease_token (admin_renewed now v) = w_lease_token v"
    "w_lease_token v \<noteq> None \<Longrightarrow> admin_renewed now v = v"
    "w_lease_token v = None \<Longrightarrow> w_last_seen (admin_renewed now v) = now" for v
    by (auto simp: admin_renewed_def worker_key_def)
  show "admin_touch (w, q) d d'"
  proof (cases "(w, q) \<in> set (map worker_key (workers d))")
    case True
    with assms have "d' = d\<lparr>workers := update_where (\<lambda>v. worker_key v = (w, q)) (admin_renewed now) (workers d)\<rparr>"
      by (simp add: upsert_worker_def key)
    then have ws: "set (workers d') = (admin_renewed now) ` {v \<in> set (workers d). worker_key v = (w, q)} \<union>
        {v \<in> set (workers d). worker_key v \<noteq> (w, q)}" and js: "jobs d' = jobs d"
      by (auto simp: set_update_where)
    have "v \<in> set (workers d')" if "v \<in> set (workers d)" "worker_key v \<noteq> (w, q) \<or> w_lease_token v \<noteq> None" for v
      using that renewed(3) [of v] unfolding ws by (cases "worker_key v = (w, q)") force+
    moreover have "v \<in> set (workers d) \<or> worker_key v = (w, q) \<and> w_lease_token v = None" if "v \<in> set (workers d')" for v
    proof -
      from that consider "v \<in> set (workers d)"
        | u where "u \<in> set (workers d)" "worker_key u = (w, q)" "v = admin_renewed now u"
        unfolding ws by auto
      then show ?thesis
        using renewed by cases (fastforce)+
    qed
    ultimately show ?thesis using js by (simp add: admin_touch_def)
  next
    case False
    with assms have "d' = d\<lparr>workers := workers d @ [admin_row w q now]\<rparr>" by (simp add: upsert_worker_def key)
    with key show ?thesis by (simp add: admin_touch_def) (simp add: admin_row_def)
  qed
  show "\<exists>v \<in> set (workers d'). worker_key v = (w, q) \<and> (w_lease_token v = None \<longrightarrow> w_last_seen v = now)"
  proof (cases "(w, q) \<in> set (map worker_key (workers d))")
    case True
    then obtain v where v: "v \<in> set (workers d)" "worker_key v = (w, q)" by auto
    from True assms have "workers d' = update_where (\<lambda>v. worker_key v = (w, q)) (admin_renewed now) (workers d)"
      by (auto simp: upsert_worker_def key)
    with v update_where_in [OF v(1), of "\<lambda>v. worker_key v = (w, q)" "admin_renewed now"] renewed show ?thesis
      by (intro bexI [of _ "admin_renewed now v"]) simp_all
  next
    case False
    with assms have "workers d' = workers d @ [admin_row w q now]" by (auto simp: upsert_worker_def key)
    moreover have "w_last_seen (admin_row w q now) = now" by (simp add: admin_row_def)
    ultimately show ?thesis using key by (intro bexI [of _ "admin_row w q now"]) simp_all
  qed
qed

lemma admin_touch_refl [simp]: "admin_touch key d d"
  by (simp add: admin_touch_def)

lemma admin_touch_trans: "admin_touch key a b \<Longrightarrow> admin_touch key b c \<Longrightarrow> admin_touch key a c"
  unfolding admin_touch_def by auto

interpretation touching: db_relation "admin_touch key" for key
  by unfold_locales (auto intro: admin_touch_trans)

lemma register_worker_admin_lifecycle: "ensures lifecycle (register_worker_admin w q)"
  unfolding register_worker_admin_def
  by (intro life.ensures_with_conn life.ensures_sbind life.ensures_stmt life.ensures_sreturn)
     (auto elim!: upsert_worker_lifecycle simp: admin_renewed_def worker_key_def)

lemma register_worker_admin_touches: "ensures (admin_touch (w, q)) (register_worker_admin w q)"
  unfolding register_worker_admin_def
  by (intro touching.ensures_with_conn touching.ensures_sbind touching.ensures_stmt touching.ensures_sreturn)
     (auto dest: admin_upsert_touch(1))

text \<open>
  A registration from a dashboard, which carries no token, cannot take a live worker's place:
  whatever fails, a registration with a lease token and every registration of another worker or queue
  stay exactly as they are (so a foreign worker is neither kept fresh nor relabelled), and no task
  changes. When it returns, the worker is registered, and without a token its last sign of life is no
  older than the call.
\<close>

lemma admin_registration_respects_owners:
  assumes run: "register_worker w q g = (r, g')"
  shows "jobs (pg_db g') = jobs (pg_db g) \<and> (db_inv (pg_db g) \<longrightarrow> db_inv (pg_db g')) \<and>
    (\<forall>v \<in> set (workers (pg_db g)). worker_key v \<noteq> (w, q) \<or> w_lease_token v \<noteq> None \<longrightarrow> v \<in> set (workers (pg_db g'))) \<and>
    (\<forall>v \<in> set (workers (pg_db g')). v \<in> set (workers (pg_db g)) \<or> worker_key v = (w, q) \<and> w_lease_token v = None) \<and>
    (r = Inr () \<longrightarrow> (\<exists>v \<in> set (workers (pg_db g')). worker_key v = (w, q) \<and>
       (w_lease_token v = None \<longrightarrow> pg_now g \<le> w_last_seen v)))"
proof -
  note run = run [unfolded register_worker_def]
  have touch: "admin_touch (w, q) (pg_db g) (pg_db g')"
    using ensuresD_run [OF register_worker_admin_touches run] .
  have inv: "db_inv (pg_db g) \<longrightarrow> db_inv (pg_db g')"
    using ensuresD_run [OF register_worker_admin_lifecycle run] by (auto simp: lifecycle_def)
  have "\<exists>v \<in> set (workers (pg_db g')). worker_key v = (w, q) \<and> (w_lease_token v = None \<longrightarrow> pg_now g \<le> w_last_seen v)"
    if "r = Inr ()"
  proof -
    from run [unfolded that register_worker_admin_def] obtain g1 g2 d k where s: "later g g1" "later g1 g2"
      "upsert_worker (admin_row w q (pg_now g2)) (admin_renewed (pg_now g2)) (pg_db g2) = (Inr k, d)" "pg_db g' = d"
      by (elim with_conn_InrE sbind_InrE stmt_InrE) auto
    have "pg_now g \<le> pg_now g2" using later_trans [OF s(1,2)] by (simp add: later_def)
    with admin_upsert_touch(2) [OF s(3)] s(4) show ?thesis by (metis order_refl)
  qed
  with touch inv show ?thesis by (simp add: admin_touch_def)
qed

end
