(* ===== verification/Statistics.thy ===== *)
theory Statistics
  imports Admin
begin

text \<open>
  The statistics of the dashboards (\<^verbatim>\<open>list_queues\<close> and \<^verbatim>\<open>metrics\<close> of
  \<^verbatim>\<open>src/queries/admin.rs\<close>, and the rows they are read from in \<^verbatim>\<open>src/models.rs\<close>).
  How the server renders a number or an instant, its calendar and its collation are parameters, and so
  is the decoding of the JSON columns by \<^verbatim>\<open>serde\<close>; which rows a statistic counts, and how the
  rows are grouped, ordered and defaulted, is the code's.
\<close>

section \<open>Rows and values\<close>

record 'k statistic =
  sc_title :: string
  sc_stat_type :: 'k
  sc_value :: string
  sc_priority :: "nat option"

record statistic_row =
  sr_priority :: "int option"
  sr_type :: "string option"
  sr_statistic :: "string option"
  sr_value :: "string option"

definition unwrap_text :: "string option \<Rightarrow> string" where
  "unwrap_text x = (case x of Some t \<Rightarrow> t | None \<Rightarrow> '''')"

definition statistic_of :: "(string \<Rightarrow> 'k) \<Rightarrow> statistic_row \<Rightarrow> 'k statistic" where
  "statistic_of kind row = \<lparr>sc_title = unwrap_text (sr_statistic row), sc_stat_type = kind (unwrap_text (sr_type row)),
     sc_value = (case sr_value row of Some v \<Rightarrow> v | None \<Rightarrow> ''0''),
     sc_priority = Some (nat (max (case sr_priority row of Some p \<Rightarrow> p | None \<Rightarrow> 0) 0))\<rparr>"

record queue_info_row =
  qr_name :: "string option"
  qr_stats :: "json option"
  qr_workers :: "json option"
  qr_activity :: "json option"

record 'k queue_info =
  qi_name :: string
  qi_stats :: "'k statistic list"
  qi_workers :: "string list"
  qi_activity :: "int list"

text \<open>What \<^verbatim>\<open>serde_json::from_value\<close> makes of the three JSON columns.\<close>

record 'k queue_json =
  qj_stats :: "json \<Rightarrow> 'k statistic list option"
  qj_workers :: "json \<Rightarrow> string list option"
  qj_activity :: "json \<Rightarrow> int list option"

definition parsed_or_default :: "('j \<Rightarrow> 'a list option) \<Rightarrow> 'j option \<Rightarrow> 'a list" where
  "parsed_or_default parse column = (case Option.bind column parse of Some xs \<Rightarrow> xs | None \<Rightarrow> [])"

definition queue_info_of :: "'k queue_json \<Rightarrow> queue_info_row \<Rightarrow> 'k queue_info" where
  "queue_info_of qj row = \<lparr>qi_name = unwrap_text (qr_name row), qi_stats = parsed_or_default (qj_stats qj) (qr_stats row),
     qi_workers = parsed_or_default (qj_workers qj) (qr_workers row), qi_activity = parsed_or_default (qj_activity qj) (qr_activity row)\<rparr>"

section \<open>The server's arithmetic\<close>

text \<open>
  Texts of a count, of a rounded percentage, of a rounded rate per \<open>n\<close>, of rounded minutes (an
  average, a maximum), of an instant and of its epoch; the date and the hour of an instant and the
  instants one day and seven days earlier, in the time zone of the session; the sort key of the
  collation; and the sizes the server reports. Durations are microseconds.
\<close>

record rendering =
  re_count :: "nat \<Rightarrow> string"
  re_percent :: "nat \<Rightarrow> nat \<Rightarrow> string"
  re_per :: "nat \<Rightarrow> nat \<Rightarrow> string"
  re_avg_mins :: "int list \<Rightarrow> string"
  re_mins :: "int \<Rightarrow> string"
  re_stamp :: "timestamp \<Rightarrow> string"
  re_epoch :: "timestamp \<Rightarrow> string"
  re_date :: "timestamp \<Rightarrow> int"
  re_hour :: "timestamp \<Rightarrow> int"
  re_day_ago :: "timestamp \<Rightarrow> timestamp"
  re_week_ago :: "timestamp \<Rightarrow> timestamp"
  re_collate :: "string \<Rightarrow> string"
  re_page_size :: string
  re_page_count :: string
  re_db_size :: string

definition hour_ago :: "timestamp \<Rightarrow> timestamp" where
  "hour_ago now = now - 3600 * 1000000"

text \<open>\<^verbatim>\<open>COUNT(*) FILTER (WHERE p)::TEXT\<close>, and the percentage that is null over no rows.\<close>

definition counted_text :: "rendering \<Rightarrow> (job_row \<Rightarrow> bool) \<Rightarrow> job_row list \<Rightarrow> string option" where
  "counted_text re p js = Some (re_count re (count_where p js))"

definition percent_text :: "rendering \<Rightarrow> (job_row \<Rightarrow> bool) \<Rightarrow> (job_row \<Rightarrow> bool) \<Rightarrow> job_row list \<Rightarrow> string option" where
  "percent_text re p q js =
     (if count_where q js = 0 then None
      else Some (re_percent re (count_where (\<lambda>j. p j \<and> q j) js) (count_where q js)))"

definition durations :: "job_row list \<Rightarrow> int list" where
  "durations js = concat (map (\<lambda>j. case j_done_at j of Some t \<Rightarrow> [t - j_run_at j] | None \<Rightarrow> [])
     (filter (\<lambda>j. j_status j \<in> {Done, Failed, Killed}) js))"

definition avg_duration :: "rendering \<Rightarrow> job_row list \<Rightarrow> string option" where
  "avg_duration re js = (if durations js = [] then None else Some (re_avg_mins re (durations js)))"

definition longest_running :: "rendering \<Rightarrow> timestamp \<Rightarrow> job_row list \<Rightarrow> string option" where
  "longest_running re now js =
     (let ages = map (\<lambda>j. now - j_run_at j) (filter (\<lambda>j. j_status j \<in> {Queued, Running}) js)
      in Some (re_mins re (if ages = [] then 0 else Max (set ages))))"

definition newest :: "job_row list \<Rightarrow> timestamp option" where
  "newest js = (if js = [] then None else Some (Max (set (map j_run_at js))))"

definition oldest_due :: "timestamp \<Rightarrow> job_row list \<Rightarrow> timestamp option" where
  "oldest_due now js = (let due = filter (\<lambda>j. j_status j = Pending \<and> j_run_at j \<le> now) js in
     if due = [] then None else Some (Min (set (map j_run_at due))))"

definition today :: "rendering \<Rightarrow> timestamp \<Rightarrow> job_row \<Rightarrow> bool" where
  "today re now j \<longleftrightarrow> re_date re (j_run_at j) = re_date re now"

section \<open>The overview of the queues\<close>

type_synonym stat_line = "int \<times> string \<times> string \<times> string option"

text \<open>The \<^verbatim>\<open>VALUES\<close> of \<^verbatim>\<open>queue_stats\<close> over the rows of one queue.\<close>

definition queue_lines :: "rendering \<Rightarrow> timestamp \<Rightarrow> job_row list \<Rightarrow> stat_line list" where
  "queue_lines re now js =
    [(1, ''Number'', ''RUNNING_JOBS'', counted_text re (\<lambda>j. j_status j = Running) js),
     (1, ''Number'', ''PENDING_JOBS'', counted_text re (\<lambda>j. j_status j = Pending) js),
     (1, ''Number'', ''FAILED_JOBS'', counted_text re (\<lambda>j. j_status j = Failed) js),
     (2, ''Number'', ''ACTIVE_JOBS'', counted_text re (\<lambda>j. j_status j \<in> {Pending, Queued, Running}) js),
     (2, ''Number'', ''STALE_RUNNING_JOBS'',
        counted_text re (\<lambda>j. j_status j \<in> {Queued, Running} \<and> j_run_at j < hour_ago now) js),
     (2, ''Percentage'', ''KILL_RATE'', percent_text re (\<lambda>j. j_status j = Killed) (\<lambda>j. True) js),
     (3, ''Number'', ''JOBS_PAST_HOUR'', counted_text re (\<lambda>j. hour_ago now \<le> j_run_at j) js),
     (3, ''Number'', ''JOBS_TODAY'', counted_text re (today re now) js),
     (3, ''Number'', ''KILLED_JOBS_TODAY'', counted_text re (\<lambda>j. j_status j = Killed \<and> today re now j) js),
     (3, ''Decimal'', ''AVG_JOBS_PER_MINUTE_PAST_HOUR'',
        Some (re_per re (count_where (\<lambda>j. hour_ago now \<le> j_run_at j) js) 60)),
     (4, ''Number'', ''TOTAL_JOBS'', counted_text re (\<lambda>j. True) js),
     (4, ''Number'', ''DONE_JOBS'', counted_text re (\<lambda>j. j_status j = Done) js),
     (4, ''Number'', ''KILLED_JOBS'', counted_text re (\<lambda>j. j_status j = Killed) js),
     (4, ''Percentage'', ''SUCCESS_RATE'', percent_text re (\<lambda>j. j_status j = Done) (\<lambda>j. True) js),
     (5, ''Decimal'', ''AVG_JOB_DURATION_MINS'', avg_duration re js),
     (5, ''Decimal'', ''LONGEST_RUNNING_JOB_MINS'', longest_running re now js),
     (6, ''Number'', ''JOBS_PAST_7_DAYS'', counted_text re (\<lambda>j. re_week_ago re now \<le> j_run_at j) js),
     (8, ''Timestamp'', ''MOST_RECENT_JOB'', map_option (re_stamp re) (newest js))]"

definition stat_order :: "rendering \<Rightarrow> stat_line \<Rightarrow> int \<times> string" where
  "stat_order re line = (case line of (p, ty, s, v) \<Rightarrow> (p, re_collate re s))"

definition stat_json :: "stat_line \<Rightarrow> json" where
  "stat_json line = (case line of (p, ty, s, v) \<Rightarrow>
     JObject [(''title'', JString s), (''stat_type'', JString ty),
       (''value'', JString (case v of Some x \<Rightarrow> x | None \<Rightarrow> ''0'')), (''priority'', JNumber p)])"

definition queue_stats :: "rendering \<Rightarrow> timestamp \<Rightarrow> job_row list \<Rightarrow> json option" where
  "queue_stats re now js =
     (if js = [] then None else Some (JArray (map stat_json (sort_key (stat_order re) (queue_lines re now js)))))"

definition all_job_types :: "rendering \<Rightarrow> db \<Rightarrow> string list" where
  "all_job_types re d =
     sort_key (re_collate re) (remdups (map w_worker_type (workers d) @ map j_job_type (jobs d)))"

definition locked_workers :: "rendering \<Rightarrow> job_row list \<Rightarrow> json option" where
  "locked_workers re js =
     (let owners = remdups (concat (map (\<lambda>j. case j_lock_by j of Some w \<Rightarrow> [w] | None \<Rightarrow> [])
        (filter (\<lambda>j. j_status j \<in> {Pending, Queued, Running}) js)))
      in if owners = [] then None else Some (JArray (map JString (sort_key (re_collate re) owners))))"

definition daily_activity :: "rendering \<Rightarrow> timestamp \<Rightarrow> job_row list \<Rightarrow> json option" where
  "daily_activity re now js =
     (let recent = filter (\<lambda>j. re_week_ago re now \<le> j_run_at j) js;
          dates = sort (remdups (map (\<lambda>j. re_date re (j_run_at j)) recent))
      in if recent = [] then None
         else Some (JArray (map (\<lambda>d. JNumber (int (count_where (\<lambda>j. re_date re (j_run_at j) = d) recent))) dates)))"

definition coalesce_array :: "json option \<Rightarrow> json option" where
  "coalesce_array x = Some (case x of Some v \<Rightarrow> v | None \<Rightarrow> JArray [])"

definition queue_info_row_for :: "rendering \<Rightarrow> timestamp \<Rightarrow> db \<Rightarrow> string \<Rightarrow> queue_info_row" where
  "queue_info_row_for re now d q =
     (let js = filter (\<lambda>j. j_job_type j = q) (jobs d) in
      \<lparr>qr_name = Some q, qr_stats = coalesce_array (queue_stats re now js),
       qr_workers = coalesce_array (locked_workers re js), qr_activity = coalesce_array (daily_activity re now js)\<rparr>)"

definition list_queues_rows :: "rendering \<Rightarrow> queue_info_row list sql" where
  "list_queues_rows re = with_conn (stmt ''listing queues'' (\<lambda>g.
     (Inr (map (queue_info_row_for re (pg_now g) (pg_db g)) (all_job_types re (pg_db g))), pg_db g)))"

definition list_queues :: "rendering \<Rightarrow> 'k queue_json \<Rightarrow> 'k queue_info list sql" where
  "list_queues re qj = sbind (list_queues_rows re) (\<lambda>rows. sreturn (map (queue_info_of qj) rows))"

section \<open>The metrics\<close>

definition peak_hour :: "rendering \<Rightarrow> timestamp \<Rightarrow> job_row list \<Rightarrow> string option" where
  "peak_hour re now js =
     (let recent = filter (\<lambda>j. re_day_ago re now \<le> j_run_at j) js;
          counts = map (\<lambda>h. count_where (\<lambda>j. re_hour re (j_run_at j) = h) recent)
            (remdups (map (\<lambda>j. re_hour re (j_run_at j)) recent))
      in Some (re_count re (if counts = [] then 0 else Max (set counts))))"

text \<open>The rows of \<^verbatim>\<open>build_metrics_sql\<close> over the tasks in scope.\<close>

definition metric_lines :: "rendering \<Rightarrow> timestamp \<Rightarrow> job_row list \<Rightarrow> stat_line list" where
  "metric_lines re now js =
    [(1, ''Number'', ''RUNNING_JOBS'', counted_text re (\<lambda>j. j_status j = Running) js),
     (1, ''Number'', ''PENDING_JOBS'', counted_text re (\<lambda>j. j_status j = Pending) js),
     (2, ''Number'', ''FAILED_JOBS'', counted_text re (\<lambda>j. j_status j = Failed) js),
     (2, ''Number'', ''ACTIVE_JOBS'', counted_text re (\<lambda>j. j_status j \<in> {Pending, Running, Queued}) js),
     (2, ''Number'', ''STALE_RUNNING_JOBS'',
        counted_text re (\<lambda>j. j_status j \<in> {Queued, Running} \<and> j_run_at j < hour_ago now) js),
     (2, ''Percentage'', ''KILL_RATE'', percent_text re (\<lambda>j. j_status j = Killed) (\<lambda>j. True) js),
     (3, ''Number'', ''JOBS_PAST_HOUR'', counted_text re (\<lambda>j. hour_ago now \<le> j_run_at j) js),
     (3, ''Number'', ''JOBS_TODAY'', counted_text re (today re now) js),
     (3, ''Number'', ''KILLED_JOBS_TODAY'', counted_text re (\<lambda>j. j_status j = Killed \<and> today re now j) js),
     (3, ''Decimal'', ''AVG_JOBS_PER_MINUTE_PAST_HOUR'',
        Some (re_per re (count_where (\<lambda>j. hour_ago now \<le> j_run_at j) js) 60)),
     (4, ''Number'', ''TOTAL_JOBS'', counted_text re (\<lambda>j. True) js),
     (4, ''Number'', ''DONE_JOBS'', counted_text re (\<lambda>j. j_status j = Done) js),
     (4, ''Number'', ''COMPLETED_JOBS'', counted_text re (\<lambda>j. j_status j \<in> {Done, Failed, Killed}) js),
     (4, ''Number'', ''KILLED_JOBS'', counted_text re (\<lambda>j. j_status j = Killed) js),
     (4, ''Percentage'', ''SUCCESS_RATE'', percent_text re (\<lambda>j. j_status j = Done) (\<lambda>j. True) js),
     (5, ''Decimal'', ''AVG_JOB_DURATION_MINS'', avg_duration re js),
     (5, ''Decimal'', ''LONGEST_RUNNING_JOB_MINS'', longest_running re now js),
     (5, ''Number'', ''QUEUE_BACKLOG'', counted_text re (\<lambda>j. j_status j = Pending \<and> j_run_at j \<le> now) js),
     (6, ''Number'', ''JOBS_PAST_24_HOURS'', counted_text re (\<lambda>j. re_day_ago re now \<le> j_run_at j) js),
     (6, ''Number'', ''JOBS_PAST_7_DAYS'', counted_text re (\<lambda>j. re_week_ago re now \<le> j_run_at j) js),
     (6, ''Number'', ''KILLED_JOBS_PAST_7_DAYS'',
        counted_text re (\<lambda>j. j_status j = Killed \<and> re_week_ago re now \<le> j_run_at j) js),
     (6, ''Percentage'', ''SUCCESS_RATE_PAST_24H'',
        percent_text re (\<lambda>j. j_status j = Done) (\<lambda>j. re_day_ago re now \<le> j_run_at j) js),
     (7, ''Decimal'', ''AVG_JOBS_PER_HOUR_PAST_24H'',
        Some (re_per re (count_where (\<lambda>j. re_day_ago re now \<le> j_run_at j) js) 24)),
     (7, ''Decimal'', ''AVG_JOBS_PER_DAY_PAST_7D'',
        Some (re_per re (count_where (\<lambda>j. re_week_ago re now \<le> j_run_at j) js) 7)),
     (8, ''Timestamp'', ''MOST_RECENT_JOB'', map_option (re_epoch re) (newest js)),
     (8, ''Timestamp'', ''OLDEST_PENDING_JOB'', map_option (re_epoch re) (oldest_due now js)),
     (8, ''Number'', ''PEAK_HOUR_JOBS'', peak_hour re now js),
     (9, ''Number'', ''DB_PAGE_SIZE'', Some (re_page_size re)),
     (9, ''Number'', ''DB_PAGE_COUNT'', Some (re_page_count re)),
     (9, ''Number'', ''DB_SIZE'', Some (re_db_size re))]"

definition row_of_line :: "stat_line \<Rightarrow> statistic_row" where
  "row_of_line line = (case line of (p, ty, s, v) \<Rightarrow>
     \<lparr>sr_priority = Some p, sr_type = Some ty, sr_statistic = Some s, sr_value = v\<rparr>)"

definition metrics_rows :: "rendering \<Rightarrow> string option \<Rightarrow> statistic_row list sql" where
  "metrics_rows re queue = with_conn (stmt
     (case queue of Some _ \<Rightarrow> ''fetching queue metrics'' | None \<Rightarrow> ''fetching global metrics'')
     (\<lambda>g. let js = filter (\<lambda>j. case queue of Some q \<Rightarrow> j_job_type j = q | None \<Rightarrow> True) (jobs (pg_db g)) in
        (Inr (map row_of_line (sort_key (stat_order re) (metric_lines re (pg_now g) js))), pg_db g)))"

definition metrics_global :: "rendering \<Rightarrow> (string \<Rightarrow> 'k) \<Rightarrow> 'k statistic list sql" where
  "metrics_global re kind = sbind (metrics_rows re None) (\<lambda>rows. sreturn (map (statistic_of kind) rows))"

definition metrics_for_queue :: "rendering \<Rightarrow> (string \<Rightarrow> 'k) \<Rightarrow> string \<Rightarrow> 'k statistic list sql" where
  "metrics_for_queue re kind queue =
     sbind (metrics_rows re (Some queue)) (\<lambda>rows. sreturn (map (statistic_of kind) rows))"

section \<open>Both views count the same\<close>

text \<open>
  What \<^verbatim>\<open>serde\<close> documents of the columns the query builds: an array of statistics, of names
  and of numbers decodes to the list of its elements.
\<close>

definition decodes :: "(string \<Rightarrow> 'k) \<Rightarrow> 'k queue_json \<Rightarrow> bool" where
  "decodes kind qj \<longleftrightarrow>
     (\<forall>lines. list_all (\<lambda>(p, ty, s, v). 0 \<le> p) lines \<longrightarrow>
        qj_stats qj (JArray (map stat_json lines)) = Some (map (\<lambda>(p, ty, s, v). \<lparr>sc_title = s, sc_stat_type = kind ty,
          sc_value = (case v of Some x \<Rightarrow> x | None \<Rightarrow> ''0''), sc_priority = Some (nat p)\<rparr>) lines)) \<and>
     (\<forall>ws. qj_workers qj (JArray (map JString ws)) = Some ws) \<and>
     (\<forall>ns. qj_activity qj (JArray (map JNumber ns)) = Some ns)"

lemma statistic_of_line:
  assumes "0 \<le> p"
  shows "statistic_of kind (row_of_line (p, ty, s, v)) = \<lparr>sc_title = s, sc_stat_type = kind ty,
    sc_value = (case v of Some x \<Rightarrow> x | None \<Rightarrow> ''0''), sc_priority = Some (nat p)\<rparr>"
  using assms by (simp add: statistic_of_def row_of_line_def unwrap_text_def)

lemma decodes_lines:
  assumes "decodes kind qj" and "list_all (\<lambda>(p, ty, s, v). 0 \<le> p) lines"
  shows "qj_stats qj (JArray (map stat_json lines)) = Some (map (statistic_of kind \<circ> row_of_line) lines)"
proof -
  have "map (statistic_of kind \<circ> row_of_line) lines = map (\<lambda>(p, ty, s, v). \<lparr>sc_title = s, sc_stat_type = kind ty,
      sc_value = (case v of Some x \<Rightarrow> x | None \<Rightarrow> ''0''), sc_priority = Some (nat p)\<rparr>) lines"
    using assms(2) by (auto simp: list_all_iff statistic_of_line)
  then show ?thesis using assms by (simp add: decodes_def)
qed

lemma queue_lines_nonneg: "list_all (\<lambda>(p, ty, s, v). 0 \<le> p) (sort_key k (queue_lines re now js))"
proof -
  have "list_all (\<lambda>(p, ty, s, v). 0 \<le> p) (queue_lines re now js)" unfolding queue_lines_def by simp
  then show ?thesis by (simp add: list_all_iff)
qed

text \<open>Every line of the overview is a line of the metrics, up to its priority and the newest instant.\<close>

lemma active_statuses: "{Pending, Running, Queued} = {Pending, Queued, Running}"
  by (rule insert_commute [THEN arg_cong])

lemma queue_lines_subset:
  "set (map snd (queue_lines re now js)) \<subseteq>
     insert (''Timestamp'', ''MOST_RECENT_JOB'', map_option (re_stamp re) (newest js)) (set (map snd (metric_lines re now js)))"
  unfolding queue_lines_def metric_lines_def active_statuses list.map snd_conv list.set
  by (intro insert_subsetI empty_subsetI) (rule insertI1 | rule insertI2)+

lemma queue_lines_metric:
  assumes "(p, ty, s, v) \<in> set (queue_lines re now js)" and "s \<noteq> ''MOST_RECENT_JOB''"
  shows "\<exists>p'. (p', ty, s, v) \<in> set (metric_lines re now js)"
proof -
  have "(ty, s, v) \<in> set (map snd (queue_lines re now js))" using assms(1) by force
  with queue_lines_subset [of re now js] assms(2) have "(ty, s, v) \<in> set (map snd (metric_lines re now js))" by blast
  then show ?thesis by force
qed

lemma sum_counts:
  assumes "distinct ds" and "\<forall>x \<in> set xs. f x \<in> set ds"
  shows "sum_list (map (\<lambda>d. int (count_where (\<lambda>x. f x = d) xs)) ds) = int (length xs)"
  using assms(2)
proof (induction xs)
  case Nil
  then show ?case by (simp add: count_where_def)
next
  case (Cons x xs)
  have one: "sum_list (map (\<lambda>d. if f x = d then 1 else 0 :: int) ds) = 1"
    using assms(1) Cons.prems by (simp add: sum_list_distinct_conv_sum_set)
  have "int (count_where (\<lambda>y. f y = d) (x # xs)) = (if f x = d then 1 else 0) + int (count_where (\<lambda>y. f y = d) xs)" for d
    by (simp add: count_where_def)
  then have "sum_list (map (\<lambda>d. int (count_where (\<lambda>y. f y = d) (x # xs))) ds) =
      sum_list (map (\<lambda>d. if f x = d then 1 else 0) ds) + sum_list (map (\<lambda>d. int (count_where (\<lambda>y. f y = d) xs)) ds)"
    by (simp add: sum_list_addf)
  with one Cons show ?case by simp
qed

lemma stmt_read_quiet:
  assumes "quiet g" and "with_conn (stmt op (\<lambda>g. (Inr (f g), pg_db g))) g = (r, g')"
  shows "r = Inr (f g) \<and> g' = g"
  using assms by (auto simp: quiet_def with_conn_def stmt_def next_step_def)

lemma list_queues_quiet:
  assumes "quiet g" and "list_queues re qj g = (Inr infos, g')"
  shows "infos = map (queue_info_of qj \<circ> queue_info_row_for re (pg_now g) (pg_db g)) (all_job_types re (pg_db g))"
proof -
  obtain r g1 where rows: "list_queues_rows re g = (r, g1)" by fastforce
  note read = stmt_read_quiet [OF assms(1) rows [unfolded list_queues_rows_def]]
  with assms(2) rows show ?thesis by (auto simp: list_queues_def sbind_def sreturn_def)
qed

lemma metrics_for_queue_quiet:
  assumes "quiet g" and "metrics_for_queue re kind q g = (Inr stats, g')"
  shows "stats = map (statistic_of kind \<circ> row_of_line)
    (sort_key (stat_order re) (metric_lines re (pg_now g) (filter (\<lambda>j. j_job_type j = q) (jobs (pg_db g)))))"
proof -
  obtain r g1 where rows: "metrics_rows re (Some q) g = (r, g1)" by fastforce
  note read = stmt_read_quiet [OF assms(1) rows [unfolded metrics_rows_def Let_def]]
  with assms(2) rows show ?thesis by (auto simp: metrics_for_queue_def sbind_def sreturn_def)
qed

lemma queue_info_stats:
  assumes "decodes kind qj"
  shows "qi_stats (queue_info_of qj (queue_info_row_for re now d q)) =
    (let js = filter (\<lambda>j. j_job_type j = q) (jobs d) in if js = [] then []
     else map (statistic_of kind \<circ> row_of_line) (sort_key (stat_order re) (queue_lines re now js)))"
proof (cases "filter (\<lambda>j. j_job_type j = q) (jobs d) = []")
  case True
  then show ?thesis using decodes_lines [OF assms, of "[]"]
    by (simp add: queue_info_of_def queue_info_row_for_def queue_stats_def coalesce_array_def parsed_or_default_def)
next
  case False
  note lines = decodes_lines [OF assms queue_lines_nonneg, of "stat_order re" re now "filter (\<lambda>j. j_job_type j = q) (jobs d)"]
  show ?thesis
    unfolding queue_info_of_def queue_info_row_for_def Let_def queue_stats_def coalesce_array_def parsed_or_default_def if_not_P [OF False]
      queue_info.simps queue_info_row.simps option.simps bind.simps lines ..
qed

lemma queue_info_workers:
  assumes "decodes kind qj"
  shows "set (qi_workers (queue_info_of qj (queue_info_row_for re now d q))) =
    {w. \<exists>j \<in> set (jobs d). j_job_type j = q \<and> j_lock_by j = Some w \<and> j_status j \<in> {Pending, Queued, Running}}"
proof -
  have "qj_workers qj (JArray (map JString ws)) = Some ws" for ws using assms by (simp add: decodes_def)
  from this [of "[]"] this show ?thesis
    by (auto simp: queue_info_of_def queue_info_row_for_def locked_workers_def coalesce_array_def parsed_or_default_def Let_def
        split: option.splits if_splits)
qed

lemma queue_info_activity:
  assumes "decodes kind qj"
  shows "sum_list (qi_activity (queue_info_of qj (queue_info_row_for re now d q))) =
    int (count_where (\<lambda>j. j_job_type j = q \<and> re_week_ago re now \<le> j_run_at j) (jobs d))"
proof -
  let ?js = "filter (\<lambda>j. re_week_ago re now \<le> j_run_at j) (filter (\<lambda>j. j_job_type j = q) (jobs d))"
  let ?f = "\<lambda>j. re_date re (j_run_at j)" let ?ds = "sort (remdups (map ?f ?js))"
  let ?ns = "map (\<lambda>d. int (count_where (\<lambda>j. ?f j = d) ?js)) ?ds"
  have parse: "qj_activity qj (JArray (map JNumber ns)) = Some ns" for ns using assms by (simp add: decodes_def)
  have len: "length ?js = count_where (\<lambda>j. j_job_type j = q \<and> re_week_ago re now \<le> j_run_at j) (jobs d)"
    by (simp add: count_where_def conj_commute)
  have "sum_list ?ns = int (length ?js)" by (rule sum_counts) auto
  moreover have "qi_activity (queue_info_of qj (queue_info_row_for re now d q)) = (if ?js = [] then [] else ?ns)"
    using parse [of "[]"] parse [of ?ns]
    by (simp add: queue_info_of_def queue_info_row_for_def daily_activity_def coalesce_array_def parsed_or_default_def Let_def comp_def)
  ultimately show ?thesis using len by (cases "?js = []") simp_all
qed

text \<open>
  C38. The two views of a queue agree. On a connection where nothing fails, the overview lists every
  queue that has a registration or a task once, with the owners of its unfinished tasks and an activity
  that adds up to the tasks of the last seven days; and every statistic it shows of a queue has the
  value and the kind the queue's metrics give it, an undefined one being shown as zero in both. Only the
  instant of the most recent task is written differently.
\<close>

theorem queue_overview_agrees:
  assumes "quiet g" and "decodes kind qj"
    and "list_queues re qj g = (Inr infos, g1)" and "metrics_for_queue re kind q g = (Inr stats, g2)"
  shows "distinct (map qi_name infos) \<and>
    set (map qi_name infos) = w_worker_type ` set (workers (pg_db g)) \<union> j_job_type ` set (jobs (pg_db g)) \<and>
    (\<forall>info \<in> set infos. qi_name info = q \<longrightarrow>
       set (qi_workers info) = {w. \<exists>j \<in> set (jobs (pg_db g)). j_job_type j = q \<and> j_lock_by j = Some w \<and>
         j_status j \<in> {Pending, Queued, Running}} \<and>
       sum_list (qi_activity info) =
         int (count_where (\<lambda>j. j_job_type j = q \<and> re_week_ago re (pg_now g) \<le> j_run_at j) (jobs (pg_db g))) \<and>
       (\<forall>x \<in> set (qi_stats info). sc_title x \<noteq> ''MOST_RECENT_JOB'' \<longrightarrow>
          (\<exists>y \<in> set stats. sc_title y = sc_title x \<and> sc_stat_type y = sc_stat_type x \<and> sc_value y = sc_value x)))"
proof -
  let ?row = "queue_info_row_for re (pg_now g) (pg_db g)" let ?js = "filter (\<lambda>j. j_job_type j = q) (jobs (pg_db g))"
  note infos = list_queues_quiet [OF assms(1,3)] and stats = metrics_for_queue_quiet [OF assms(1,4)]
  have name: "qi_name (queue_info_of qj (?row p)) = p" for p
    by (simp add: queue_info_of_def queue_info_row_for_def unwrap_text_def Let_def)
  then have names: "map qi_name infos = all_job_types re (pg_db g)" by (simp add: infos comp_def)
  have agree: "\<exists>y \<in> set stats. sc_title y = sc_title x \<and> sc_stat_type y = sc_stat_type x \<and> sc_value y = sc_value x"
    if x: "x \<in> set (qi_stats (queue_info_of qj (?row q)))" "sc_title x \<noteq> ''MOST_RECENT_JOB''" for x
  proof -
    obtain p ty s v where line: "(p, ty, s, v) \<in> set (queue_lines re (pg_now g) ?js)"
      "x = statistic_of kind (row_of_line (p, ty, s, v))"
      using x(1) by (auto simp: queue_info_stats [OF assms(2)] Let_def split: if_splits)
    have "s \<noteq> ''MOST_RECENT_JOB''" using x(2) line(2) by (simp add: statistic_of_def row_of_line_def unwrap_text_def)
    from queue_lines_metric [OF line(1) this] obtain p' where "(p', ty, s, v) \<in> set (metric_lines re (pg_now g) ?js)" ..
    then have "(statistic_of kind \<circ> row_of_line) (p', ty, s, v) \<in> set stats"
      unfolding stats set_map set_sort by (rule imageI)
    then show ?thesis by (rule rev_bexI) (simp add: line(2) statistic_of_def row_of_line_def comp_def)
  qed
  have "distinct (map qi_name infos)" "set (map qi_name infos) = w_worker_type ` set (workers (pg_db g)) \<union> j_job_type ` set (jobs (pg_db g))"
    unfolding names by (auto simp: all_job_types_def)
  moreover have "set (qi_workers info) = {w. \<exists>j \<in> set (jobs (pg_db g)). j_job_type j = q \<and> j_lock_by j = Some w \<and>
         j_status j \<in> {Pending, Queued, Running}} \<and>
       sum_list (qi_activity info) =
         int (count_where (\<lambda>j. j_job_type j = q \<and> re_week_ago re (pg_now g) \<le> j_run_at j) (jobs (pg_db g))) \<and>
       (\<forall>x \<in> set (qi_stats info). sc_title x \<noteq> ''MOST_RECENT_JOB'' \<longrightarrow>
          (\<exists>y \<in> set stats. sc_title y = sc_title x \<and> sc_stat_type y = sc_stat_type x \<and> sc_value y = sc_value x))"
    if info: "info \<in> set infos" "qi_name info = q" for info
  proof -
    have "info = queue_info_of qj (?row q)" using info name by (auto simp: infos)
    then show ?thesis
      using agree queue_info_workers [OF assms(2), of re "pg_now g" "pg_db g" q]
        queue_info_activity [OF assms(2), of re "pg_now g" "pg_db g" q] by simp
  qed
  ultimately show ?thesis by simp
qed

section \<open>The metrics account for every task\<close>

lemma status_partition:
  "count_where (\<lambda>j. j_status j \<in> {Pending, Running, Queued}) js + count_where (\<lambda>j. j_status j \<in> {Done, Failed, Killed}) js =
     count_where (\<lambda>j. True) js"
proof (induction js)
  case (Cons j js)
  then show ?case by (cases "j_status j") (simp_all add: count_where_def)
qed (simp add: count_where_def)

lemma metrics_account:
  "\<exists>active completed. {(''Number'', ''ACTIVE_JOBS'', Some (re_count re active)),
      (''Number'', ''COMPLETED_JOBS'', Some (re_count re completed)),
      (''Number'', ''TOTAL_JOBS'', Some (re_count re (active + completed)))} \<subseteq> set (map snd (metric_lines re now js))"
  unfolding metric_lines_def counted_text_def list.map snd_conv list.set
  by (intro exI [of _ "count_where (\<lambda>j. j_status j \<in> {Pending, Running, Queued}) js"]
      exI [of _ "count_where (\<lambda>j. j_status j \<in> {Done, Failed, Killed}) js"], unfold status_partition,
      intro insert_subsetI empty_subsetI) (rule insertI1 | rule insertI2)+

end
