(* ===== verification/Facade.thy ===== *)
theory Facade
  imports Storage Statistics
begin

text \<open>
  The dashboard traits of a storage (\<^verbatim>\<open>src/admin.rs\<close>) and the construction of its pool: each trait forwards to a query with the queue of
  the storage's configuration. A lookup, a listing and a statistic change nothing, whatever fails on the
  way.
\<close>

section \<open>The traits\<close>

definition get_queue :: "('f, 'p) postgres_storage \<Rightarrow> string" where
  "get_queue s = c_queue (sg_config s)"

definition storage_fetch_by_id ::
    "conversion \<Rightarrow> (compact \<Rightarrow> (string, 'a) result) \<Rightarrow> ('f, 'p) postgres_storage \<Rightarrow> string \<Rightarrow> 'a task option sql" where
  "storage_fetch_by_id conv decode s task_id = fetch_by_id conv decode task_id (get_queue s)"

definition storage_list_tasks ::
    "conversion \<Rightarrow> (compact \<Rightarrow> (string, 'a) result) \<Rightarrow> ('f, 'p) postgres_storage \<Rightarrow> page_filter \<Rightarrow> 'a task list sql" where
  "storage_list_tasks conv decode s f = list_tasks conv decode (get_queue s) f"

definition storage_list_all_tasks :: "conversion \<Rightarrow> ('f, 'p) postgres_storage \<Rightarrow> page_filter \<Rightarrow> compact task list sql" where
  "storage_list_all_tasks conv s f = list_all_tasks conv f"

definition storage_list_workers :: "('f, 'p) postgres_storage \<Rightarrow> running_worker list sql" where
  "storage_list_workers s = list_workers (Some (get_queue s))"

definition storage_list_all_workers :: "('f, 'p) postgres_storage \<Rightarrow> running_worker list sql" where
  "storage_list_all_workers s = list_workers None"

definition storage_list_queues :: "rendering \<Rightarrow> 'k queue_json \<Rightarrow> ('f, 'p) postgres_storage \<Rightarrow> 'k queue_info list sql" where
  "storage_list_queues re qj s = list_queues re qj"

definition storage_metrics_global :: "rendering \<Rightarrow> (string \<Rightarrow> 'k) \<Rightarrow> ('f, 'p) postgres_storage \<Rightarrow> 'k statistic list sql" where
  "storage_metrics_global re kind s = metrics_global re kind"

definition storage_metrics_by_queue :: "rendering \<Rightarrow> (string \<Rightarrow> 'k) \<Rightarrow> ('f, 'p) postgres_storage \<Rightarrow> 'k statistic list sql" where
  "storage_metrics_by_queue re kind s = metrics_for_queue re kind (get_queue s)"

definition storage_register_worker :: "('f, 'p) postgres_storage \<Rightarrow> string \<Rightarrow> unit sql" where
  "storage_register_worker s worker_id = register_worker worker_id (get_queue s)"

definition storage_vacuum :: "('f, 'p) postgres_storage \<Rightarrow> nat sql" where
  "storage_vacuum s = vacuum (sg_config s)"

definition storage_wait_for ::
    "('i, 'o) reader \<Rightarrow> ('f, 'p) postgres_storage \<Rightarrow> string list \<Rightarrow> (nat \<times> pg) list \<Rightarrow>
     (error, ('i, 'o) task_result) result list \<times> wait" where
  "storage_wait_for rd s task_ids polls = wait_for_completion rd task_ids polls"

definition storage_check_status ::
    "('i, 'o) reader \<Rightarrow> ('f, 'p) postgres_storage \<Rightarrow> string list \<Rightarrow> ('i, 'o) task_result list sql" where
  "storage_check_status rd s task_ids = check_status rd task_ids"

definition storage_run_released ::
    "('f, 'p) postgres_storage \<Rightarrow> string \<Rightarrow> (proc \<Rightarrow> 'a unwound \<times> proc) \<Rightarrow> proc \<Rightarrow> 'a released_run unwound \<times> proc" where
  "storage_run_released s worker_id run st = run_released (releaser s) worker_id run st"

section \<open>The notify-driven modes\<close>

text \<open>
  \<^verbatim>\<open>build_poller\<close>: a factory of the storage goes before the strategy of the configuration; both
  give the permits of a polling fetcher from a context of \<^verbatim>\<open>apalis-core\<close>.
\<close>

definition build_poller :: "('x \<Rightarrow> tick list) \<Rightarrow> ('x \<Rightarrow> tick list) option \<Rightarrow> 'x \<Rightarrow> tick list" where
  "build_poller strategy factory context = (case factory of
     Some f \<Rightarrow> f context
   | None \<Rightarrow> strategy context)"

text \<open>
  \<^verbatim>\<open>PgNotify::into_compact_stream\<close> starts a listener of its own for the ids;
  \<^verbatim>\<open>SharedFetcher::into_compact_stream\<close> takes them from the registry of the shared listener.
\<close>

definition notify_ids :: "'c mpsc \<Rightarrow> config \<Rightarrow> string option \<Rightarrow> 'c notify_world" where
  "notify_ids ch cfg spawn_error = notify_task_ids ch (max (c_buffer_size cfg) 1) spawn_error"

definition notify_into_compact_stream ::
    "(('l, proc, item) stream \<Rightarrow> (poll_fetcher, proc, item) stream \<Rightarrow> ('l \<times> poll_fetcher, proc, item) stream) \<Rightarrow>
     ('l, proc, item) stream \<Rightarrow> foreign \<Rightarrow> string \<Rightarrow> (gate \<times> 'l \<times> poll_fetcher, proc, item) stream" where
  "notify_into_compact_stream select ids fx token =
     notify_backed_compact_stream select ids fx ''PostgresStorageWithNotify'' token"

definition shared_into_compact_stream ::
    "(('l, proc, item) stream \<Rightarrow> (poll_fetcher, proc, item) stream \<Rightarrow> ('l \<times> poll_fetcher, proc, item) stream) \<Rightarrow>
     ('l, proc, item) stream \<Rightarrow> foreign \<Rightarrow> string \<Rightarrow> (gate \<times> 'l \<times> poll_fetcher, proc, item) stream" where
  "shared_into_compact_stream select ids fx token =
     notify_backed_compact_stream select ids fx ''SharedPostgresStorage'' token"

text \<open>\<^verbatim>\<open>make_shared\<close> with the configuration \<^verbatim>\<open>Config::new\<close> gives for the argument type.\<close>

definition make_shared ::
    "'c mpsc \<Rightarrow> config \<Rightarrow> string \<Rightarrow> 'c shared_state \<Rightarrow> (shared_postgres_error, bool) result \<times> 'c shared_state" where
  "make_shared ch type_config r s = make_shared_with_config ch type_config r s"

section \<open>The pool\<close>

text \<open>
  \<^verbatim>\<open>build_pool_with\<close> and \<^verbatim>\<open>build_pool\<close> (\<^verbatim>\<open>src/pool.rs\<close>): the connection manager and
  the builder are code of \<^verbatim>\<open>diesel\<close> and \<^verbatim>\<open>r2d2\<close>.
\<close>

definition build_pool_with ::
    "(string \<Rightarrow> 'm) \<Rightarrow> 'b \<Rightarrow> ('b \<Rightarrow> 'm \<Rightarrow> (string, 'pool) result) \<Rightarrow> string \<Rightarrow> ('b \<Rightarrow> 'b) \<Rightarrow> (error, 'pool) result" where
  "build_pool_with manager builder build database_url configure =
     map_sum Pool id (build (configure builder) (manager database_url))"

definition build_pool ::
    "(string \<Rightarrow> 'm) \<Rightarrow> 'b \<Rightarrow> ('b \<Rightarrow> 'm \<Rightarrow> (string, 'pool) result) \<Rightarrow> string \<Rightarrow> (error, 'pool) result" where
  "build_pool manager builder build database_url = build_pool_with manager builder build database_url (\<lambda>b. b)"

section \<open>Reads change nothing\<close>

lemma select_conn_same: "ensures (=) (with_conn (stmt op (\<lambda>g. (Inr (f g), pg_db g))))"
  by (intro same.ensures_with_conn select_same)

lemma pure_same: "ensures (=) (\<lambda>g. (f g, g))"
  by (simp add: ensures_def)

lemma listing_same:
  "ensures (=) (sbind (list_tasks_rows queue s l n) (\<lambda>rows g. (h rows, g)))"
  "ensures (=) (sbind (list_all_tasks_rows s l n) (\<lambda>rows g. (h rows, g)))"
  unfolding list_tasks_rows_def list_all_tasks_rows_def by (intro same.ensures_sbind select_conn_same pure_same)+

lemma reads_same:
  "ensures (=) (fetch_by_id conv decode task_id queue)" "ensures (=) (list_tasks conv decode queue f)"
  "ensures (=) (list_all_tasks conv f)" "ensures (=) (list_workers q)" "ensures (=) (list_queues re qj)"
  "ensures (=) (metrics_global re kind)" "ensures (=) (metrics_for_queue re kind queue)" "ensures (=) (check_status rd ids)"
proof -
  note rows = fetch_by_id_row_def list_workers_rows_def list_all_workers_rows_def list_queues_rows_def metrics_rows_def completed_task_rows_def
  show "ensures (=) (fetch_by_id conv decode task_id queue)"
    unfolding fetch_by_id_def rows by (intro same.ensures_sbind select_conn_same pure_same)
  show "ensures (=) (list_workers q)"
    unfolding list_workers_def rows by (cases q) (auto intro!: same.ensures_sbind select_conn_same same.ensures_sreturn)
  show "ensures (=) (list_queues re qj)"
    unfolding list_queues_def rows by (intro same.ensures_sbind select_conn_same same.ensures_sreturn)
  show "ensures (=) (metrics_global re kind)" "ensures (=) (metrics_for_queue re kind queue)"
    unfolding metrics_global_def metrics_for_queue_def rows Let_def
    by (intro same.ensures_sbind select_conn_same same.ensures_sreturn)+
  show "ensures (=) (check_status rd ids)"
    unfolding check_status_def rows by (intro same.ensures_sbind select_conn_same pure_same)
  show "ensures (=) (list_tasks conv decode queue f)" "ensures (=) (list_all_tasks conv f)"
    by (auto simp: ensures_def list_tasks_def list_all_tasks_def listing_same [THEN ensuresD, symmetric] split: sum.splits)
qed

lemma storage_reads_change_nothing:
  "pg_db (snd (storage_fetch_by_id conv decode s i g)) = pg_db g"
  "pg_db (snd (storage_list_tasks conv decode s f g)) = pg_db g"
  "pg_db (snd (storage_list_all_tasks conv s f g)) = pg_db g"
  "pg_db (snd (storage_list_workers s g)) = pg_db g" "pg_db (snd (storage_list_all_workers s g)) = pg_db g"
  "pg_db (snd (storage_list_queues re qj s g)) = pg_db g" "pg_db (snd (storage_metrics_global re kind s g)) = pg_db g"
  "pg_db (snd (storage_metrics_by_queue re kind s g)) = pg_db g" "pg_db (snd (storage_check_status rd s ids g)) = pg_db g"
  by (simp_all add: reads_same [THEN ensuresD, symmetric] storage_fetch_by_id_def storage_list_tasks_def storage_list_all_tasks_def storage_list_workers_def
      storage_list_all_workers_def storage_list_queues_def storage_metrics_global_def storage_metrics_by_queue_def
      storage_check_status_def)

end
