(* ===== verification/Migrations.thy ===== *)
theory Migrations
  imports Database
begin

text \<open>
  Schema setup and verification (\<^verbatim>\<open>src/queries/migrations.rs\<close>), the refresh of the
  statistics snapshot (\<^verbatim>\<open>src/queries/metrics.rs\<close>) and their public wrappers
  (\<^verbatim>\<open>src/lifecycle.rs\<close>). The catalog of the \<^verbatim>\<open>apalis\<close> schema is opaque: what the
  contract query finds in it and the legacy check are parameters, and so is the migration harness of
  \<^verbatim>\<open>diesel_migrations\<close>, whose documented behaviour is the hypothesis \<open>harness_ok\<close>.
\<close>

section \<open>The server\<close>

text \<open>
  The owned schema, the journal table in it, the objects of the \<^verbatim>\<open>apalis\<close> schema, and the
  statistics view: absent, or whether it is populated.
\<close>

record 'c server =
  sv_schema :: bool
  sv_journal :: "string list option"
  sv_catalog :: 'c
  sv_snapshot :: "bool option"

text \<open>A session: the server and the decisions of the environment for its next statements and checkouts.\<close>

record 'c session =
  se_server :: "'c server"
  se_faults :: "(diesel_error \<times> bool) option list"
  se_pool :: "pool_step list"

type_synonym ('c, 'a) run = "'c session \<Rightarrow> (error, 'a) result \<times> 'c session"

text \<open>The catalog queries, the embedded migrations and the harness; and the text of an error.\<close>

record 'c migrator =
  mi_present :: "'c \<Rightarrow> bool"
  mi_contract :: "bool \<Rightarrow> int \<Rightarrow> 'c \<Rightarrow> string list"
  mi_legacy :: "'c \<Rightarrow> bool"
  mi_source :: "(string, (string \<times> bool) list) result"
  mi_applied :: "'c server \<Rightarrow> (string, string list) result \<times> 'c server"
  mi_run_pending :: "'c server \<Rightarrow> (string, unit) result \<times> 'c server"
  mi_text :: "diesel_error \<Rightarrow> string"

definition next_fault :: "'c session \<Rightarrow> (diesel_error \<times> bool) option \<times> 'c session" where
  "next_fault se = (case se_faults se of [] \<Rightarrow> (None, se) | f # fs \<Rightarrow> (f, se\<lparr>se_faults := fs\<rparr>))"

definition mbind :: "('c, 'a) run \<Rightarrow> ('a \<Rightarrow> ('c, 'b) run) \<Rightarrow> ('c, 'b) run" where
  "mbind m f se = (case m se of (Inl e, se1) \<Rightarrow> (Inl e, se1) | (Inr x, se1) \<Rightarrow> f x se1)"

definition mreturn :: "'a \<Rightarrow> ('c, 'a) run" where
  "mreturn x se = (Inr x, se)"

definition mthrow :: "error \<Rightarrow> ('c, 'a) run" where
  "mthrow e se = (Inl e, se)"

text \<open>One statement, with the conversion of its error.\<close>

definition mstmt ::
    "(diesel_error \<Rightarrow> error) \<Rightarrow> ('c server \<Rightarrow> (diesel_error, 'a) result \<times> 'c server) \<Rightarrow> ('c, 'a) run" where
  "mstmt conv body se = (case next_fault se of
     (None, se1) \<Rightarrow> (case body (se_server se1) of
        (Inl e, _) \<Rightarrow> (Inl (conv e), se1)
      | (Inr x, s) \<Rightarrow> (Inr x, se1\<lparr>se_server := s\<rparr>))
   | (Some (e, applied), se1) \<Rightarrow>
       (Inl (conv e), case body (se_server se1) of
          (Inr _, s) \<Rightarrow> if applied then se1\<lparr>se_server := s\<rparr> else se1
        | _ \<Rightarrow> se1))"

text \<open>A call of the migration harness, which reports a boxed error.\<close>

definition harness :: "'c migrator \<Rightarrow> ('c server \<Rightarrow> (string, 'a) result \<times> 'c server) \<Rightarrow> ('c, 'a) run" where
  "harness mi f se = (case next_fault se of
     (None, se1) \<Rightarrow> (case f (se_server se1) of
        (Inl m, s) \<Rightarrow> (Inl (Migration m), se1\<lparr>se_server := s\<rparr>)
      | (Inr x, s) \<Rightarrow> (Inr x, se1\<lparr>se_server := s\<rparr>))
   | (Some (e, _), se1) \<Rightarrow> (Inl (Migration (mi_text mi e)), se1))"

text \<open>\<^verbatim>\<open>conn.transaction\<close>: an error of the closure, and a refused commit, roll everything back.\<close>

definition mtransaction :: "('c, 'a) run \<Rightarrow> ('c, 'a) run" where
  "mtransaction f se = (case next_fault se of
     (Some (e, _), se1) \<Rightarrow> (Inl (error_from_diesel e), se1)
   | (None, se1) \<Rightarrow> (case f se1 of
       (Inl e, se2) \<Rightarrow> (Inl e, se2\<lparr>se_server := se_server se1\<rparr>)
     | (Inr x, se2) \<Rightarrow> (case next_fault se2 of
         (None, se3) \<Rightarrow> (Inr x, se3)
       | (Some (e, applied), se3) \<Rightarrow>
           (Inl (error_from_diesel e), if applied then se3 else se3\<lparr>se_server := se_server se1\<rparr>))))"

definition mwith_conn :: "('c, 'a) run \<Rightarrow> ('c, 'a) run" where
  "mwith_conn work se = (case se_pool se of
     [] \<Rightarrow> work se
   | Checkout # rest \<Rightarrow> work (se\<lparr>se_pool := rest\<rparr>)
   | NoConnection m # rest \<Rightarrow> (Inl (Pool m), se\<lparr>se_pool := rest\<rparr>)
   | ExecutorLost m finished # rest \<Rightarrow>
       (Inl (Blocking m),
        if finished then snd (work (se\<lparr>se_pool := rest\<rparr>)) else se\<lparr>se_pool := rest\<rparr>))"

section \<open>Versions and generations\<close>

text \<open>The directories of \<^verbatim>\<open>migrations/\<close>; none of them opts out of its transaction.\<close>

definition MIGRATIONS :: "(string \<times> bool) list" where
  "MIGRATIONS = map (\<lambda>v. (v, True))
     [''00000000000000'', ''20260520000000'', ''20260521000000'', ''20260521000001'', ''20260521000002'',
      ''20260521000003'', ''20260521000004'', ''20260521000005'', ''20260521000006'', ''20260910000000'',
      ''20260910000001'', ''20260912000000'', ''20260912000001'', ''20260914000000'']"

definition BASELINE_VERSIONS :: "string list" where
  "BASELINE_VERSIONS = [''00000000000000'', ''20260521000000'', ''20260521000001'', ''20260521000002'',
     ''20260521000003'', ''20260521000004'', ''20260521000005'', ''20260521000006'']"

definition CURRENT_FINAL_ADOPT_VERSIONS :: "string list" where
  "CURRENT_FINAL_ADOPT_VERSIONS = [''00000000000000'', ''20260520000000'', ''20260521000000'', ''20260521000001'',
     ''20260521000002'', ''20260521000003'', ''20260521000004'', ''20260521000005'', ''20260521000006'',
     ''20260910000000'', ''20260910000001'']"

datatype schema_generation = Legacy | ReleasedBaseline | Adoptable | Current

definition required_constraints :: "schema_generation \<Rightarrow> int" where
  "required_constraints gen = (case gen of Legacy \<Rightarrow> 0 | ReleasedBaseline \<Rightarrow> 0 | Adoptable \<Rightarrow> 11 | Current \<Rightarrow> 14)"

section \<open>Operations\<close>

definition migration_error :: "'c migrator \<Rightarrow> diesel_error \<Rightarrow> error" where
  "migration_error mi e = Migration (mi_text mi e)"

definition flag :: "'c migrator \<Rightarrow> ('c server \<Rightarrow> bool) \<Rightarrow> ('c, bool) run" where
  "flag mi query = mstmt (migration_error mi) (\<lambda>s. (Inr (query s), s))"

definition batch_execute :: "'c migrator \<Rightarrow> ('c server \<Rightarrow> 'c server) \<Rightarrow> ('c, unit) run" where
  "batch_execute mi f = mstmt (migration_error mi) (\<lambda>s. (Inr (), f s))"

definition schema_problems :: "'c migrator \<Rightarrow> schema_generation \<Rightarrow> ('c, string list) run" where
  "schema_problems mi gen =
     mstmt (migration_error mi) (\<lambda>s. (Inr (mi_contract mi (gen = Legacy) (required_constraints gen) (sv_catalog s)), s))"

fun join_texts :: "string list \<Rightarrow> string" where
  "join_texts [] = ''''"
| "join_texts [m] = m"
| "join_texts (m # ms) = m @ '', '' @ join_texts ms"

definition verify_structure :: "'c migrator \<Rightarrow> ('c, unit) run" where
  "verify_structure mi = mbind (schema_problems mi Current) (\<lambda>problems.
     if problems = [] then mreturn ()
     else mthrow (Migration (''schema does not satisfy the runtime contract: '' @ join_texts problems)))"

definition recognized_legacy :: "'c migrator \<Rightarrow> ('c, bool) run" where
  "recognized_legacy mi = mbind (schema_problems mi Legacy) (\<lambda>problems.
     if problems \<noteq> [] then mreturn False else flag mi (\<lambda>s. mi_legacy mi (sv_catalog s)))"

definition undefined_table :: diesel_error where
  "undefined_table = OtherDiesel ''relation does not exist''"

definition insert_version :: "string \<Rightarrow> 'c server \<Rightarrow> (diesel_error, unit) result \<times> 'c server" where
  "insert_version v s = (case sv_journal s of
     None \<Rightarrow> (Inl undefined_table, s)
   | Some vs \<Rightarrow> if v \<in> set vs then (Inl unique_violation, s) else (Inr (), s\<lparr>sv_journal := Some (vs @ [v])\<rparr>))"

fun adopt_versions :: "'c migrator \<Rightarrow> string list \<Rightarrow> ('c, unit) run" where
  "adopt_versions mi [] = mreturn ()"
| "adopt_versions mi (v # vs) = mbind (mstmt (migration_error mi) (insert_version v)) (\<lambda>_. adopt_versions mi vs)"

definition msg_unsupported :: "string list \<Rightarrow> string" where
  "msg_unsupported problems = ''unsupported existing apalis schema; no migration history was adopted: '' @
     join_texts problems @ ''; restore a supported baseline or migrate explicitly (docs/upgrading.md)''"

definition adopt_or_check_existing :: "'c migrator \<Rightarrow> ('c, unit) run" where
  "adopt_or_check_existing mi =
     mbind (harness mi (mi_applied mi)) (\<lambda>applied.
     if applied \<noteq> [] then mreturn ()
     else mbind (flag mi (\<lambda>s. mi_present mi (sv_catalog s))) (\<lambda>present.
     if \<not> present then mreturn ()
     else mbind (schema_problems mi Adoptable) (\<lambda>final_problems.
     let final_matches = (final_problems = []) in
     mbind (if final_matches then mreturn [] else schema_problems mi ReleasedBaseline) (\<lambda>baseline_problems.
     if final_matches \<or> baseline_problems = []
     then adopt_versions mi (if final_matches then CURRENT_FINAL_ADOPT_VERSIONS else BASELINE_VERSIONS)
     else mbind (recognized_legacy mi) (\<lambda>legacy.
       if legacy then mreturn () else mthrow (Migration (msg_unsupported baseline_problems)))))))"

text \<open>The closure of \<^verbatim>\<open>setup\<close>'s transaction.\<close>

definition setup_steps :: "'c migrator \<Rightarrow> ('c, unit) run" where
  "setup_steps mi =
     mbind (mstmt (error_database ''acquiring the migration advisory lock'') (\<lambda>s. (Inr (), s))) (\<lambda>_.
     mbind (flag mi sv_schema) (\<lambda>owned.
     mbind (if owned then mreturn () else batch_execute mi (\<lambda>s. s\<lparr>sv_schema := True\<rparr>)) (\<lambda>_.
     mbind (batch_execute mi id) (\<lambda>_.
     mbind (adopt_or_check_existing mi) (\<lambda>_.
     mbind (harness mi (mi_run_pending mi)) (\<lambda>_.
     verify_structure mi))))))"

definition schema_setup :: "'c migrator \<Rightarrow> ('c, unit) run" where
  "schema_setup mi = mwith_conn (\<lambda>se. case mi_source mi of
     Inl m \<Rightarrow> (Inl (Migration m), se)
   | Inr migrations \<Rightarrow>
       if \<exists>(v, transactional) \<in> set migrations. \<not> transactional
       then (Inl (Migration ''setup requires transactional migrations''), se)
       else mtransaction (setup_steps mi) se)"

definition verify_schema :: "'c migrator \<Rightarrow> ('c, unit) run" where
  "verify_schema mi = mwith_conn (mtransaction (
     mbind (batch_execute mi id) (\<lambda>_.
     mbind (flag mi (\<lambda>s. sv_journal s \<noteq> None)) (\<lambda>journal.
     if \<not> journal
     then mthrow (Migration ''owned migration journal is missing; call setup to migrate or adopt the schema'')
     else mbind (mstmt (migration_error mi)
         (\<lambda>s. (case sv_journal s of Some vs \<Rightarrow> Inr vs | None \<Rightarrow> Inl undefined_table, s))) (\<lambda>applied.
       case mi_source mi of
         Inl m \<Rightarrow> mthrow (Migration m)
       | Inr migrations \<Rightarrow>
           if \<exists>(v, _) \<in> set migrations. v \<notin> set applied
           then mthrow (Migration ''embedded migrations have not been applied; call setup first'')
           else verify_structure mi)))))"

section \<open>The statistics snapshot\<close>

definition not_populated :: diesel_error where
  "not_populated = OtherDiesel ''CONCURRENTLY cannot be used when the materialized view is not populated''"

text \<open>PostgreSQL refuses a concurrent refresh of a view that was never populated.\<close>

definition refresh_view :: "bool \<Rightarrow> 'c server \<Rightarrow> (diesel_error, unit) result \<times> 'c server" where
  "refresh_view concurrently s = (case sv_snapshot s of
     None \<Rightarrow> (Inl undefined_table, s)
   | Some populated \<Rightarrow>
       if concurrently \<and> \<not> populated then (Inl not_populated, s) else (Inr (), s\<lparr>sv_snapshot := Some True\<rparr>))"

definition refresh_queue_stats_snapshot :: "('c, unit) run" where
  "refresh_queue_stats_snapshot = mwith_conn (
     mbind (mstmt (error_database ''checking queue stats snapshot population'')
       (\<lambda>s. (Inr (case sv_snapshot s of Some p \<Rightarrow> [p] | None \<Rightarrow> []), s))) (\<lambda>rows.
     let populated = (case rows of p # _ \<Rightarrow> p | [] \<Rightarrow> False) in
     mstmt (error_database ''refreshing queue stats snapshot'') (refresh_view populated)))"

section \<open>Running the steps\<close>

lemma mbind_Inr [simp]:
  "mbind m f se = (Inr y, se') \<longleftrightarrow> (\<exists>x se1. m se = (Inr x, se1) \<and> f x se1 = (Inr y, se'))"
  by (auto simp: mbind_def split: sum.splits prod.splits)

lemma mreturn_Inr [simp]: "mreturn x se = (Inr y, se') \<longleftrightarrow> y = x \<and> se' = se"
  by (auto simp: mreturn_def)

lemma mthrow_Inr [simp]: "mthrow e se \<noteq> (Inr y, se')"
  by (simp add: mthrow_def)

lemma next_fault_server: "next_fault se = (f, se1) \<Longrightarrow> se_server se1 = se_server se"
  by (auto simp: next_fault_def split: list.splits)

lemma mstmt_Inr: "mstmt conv body se = (Inr x, se') \<Longrightarrow> body (se_server se) = (Inr x, se_server se')"
  by (auto simp: mstmt_def next_fault_server split: prod.splits option.splits sum.splits)

lemma harness_Inr: "harness mi f se = (Inr x, se') \<Longrightarrow> f (se_server se) = (Inr x, se_server se')"
  by (auto simp: harness_def next_fault_server split: prod.splits option.splits sum.splits)

lemma flag_Inr: "flag mi query se = (Inr b, se') \<Longrightarrow> b = query (se_server se) \<and> se_server se' = se_server se"
  unfolding flag_def by (drule mstmt_Inr) auto

lemma batch_execute_Inr: "batch_execute mi f se = (Inr u, se') \<Longrightarrow> se_server se' = f (se_server se)"
  unfolding batch_execute_def by (drule mstmt_Inr) auto

lemma schema_problems_Inr:
  "schema_problems mi gen se = (Inr ps, se') \<Longrightarrow>
   ps = mi_contract mi (gen = Legacy) (required_constraints gen) (sv_catalog (se_server se)) \<and> se_server se' = se_server se"
  unfolding schema_problems_def by (drule mstmt_Inr) auto

lemma verify_structure_Inr:
  "verify_structure mi se = (Inr u, se') \<Longrightarrow>
   mi_contract mi False 14 (sv_catalog (se_server se)) = [] \<and> se_server se' = se_server se"
  by (auto simp: verify_structure_def required_constraints_def dest: schema_problems_Inr split: if_splits)

text \<open>What a successful run keeps of the server.\<close>

definition mkeeps :: "('c server \<Rightarrow> bool) \<Rightarrow> ('c, 'a) run \<Rightarrow> bool" where
  "mkeeps P m \<longleftrightarrow> (\<forall>se x se'. m se = (Inr x, se') \<longrightarrow> P (se_server se) \<longrightarrow> P (se_server se'))"

lemma mkeepsD: "mkeeps P m \<Longrightarrow> m se = (Inr x, se') \<Longrightarrow> P (se_server se) \<Longrightarrow> P (se_server se')"
  unfolding mkeeps_def by blast

lemma mkeeps_mbind: "mkeeps P m \<Longrightarrow> (\<And>x. mkeeps P (f x)) \<Longrightarrow> mkeeps P (mbind m f)"
  unfolding mkeeps_def mbind_Inr by blast

lemma mkeeps_body:
  assumes "\<And>s x s'. body s = (Inr x, s') \<Longrightarrow> P s \<Longrightarrow> P s'"
  shows "mkeeps P (mstmt conv body)"
  unfolding mkeeps_def using assms by (auto dest: mstmt_Inr)

lemma mkeeps_harness:
  assumes "\<And>s x s'. f s = (Inr x, s') \<Longrightarrow> P s \<Longrightarrow> P s'"
  shows "mkeeps P (harness mi f)"
  unfolding mkeeps_def using assms by (auto dest: harness_Inr)

lemma mkeeps_plain [simp]: "mkeeps P (mreturn x)" "mkeeps P (mthrow e)"
  by (auto simp: mkeeps_def)

lemma mkeeps_queries [simp]: "mkeeps P (flag mi query)" "mkeeps P (schema_problems mi gen)"
  by (auto simp: mkeeps_def dest: flag_Inr schema_problems_Inr)

lemma mkeeps_recognized_legacy [simp]: "mkeeps P (recognized_legacy mi)"
  unfolding recognized_legacy_def by (intro mkeeps_mbind) auto

lemma mkeeps_adopt_versions: "mkeeps sv_schema (adopt_versions mi vs)"
proof (induction vs)
  case (Cons v vs)
  have one: "mkeeps sv_schema (mstmt (migration_error mi) (insert_version v))"
    by (rule mkeeps_body) (auto simp: insert_version_def split: option.splits if_splits)
  show ?case unfolding adopt_versions.simps by (intro mkeeps_mbind one Cons.IH)
qed simp

text \<open>A session on which nothing fails runs every statement.\<close>

definition calm :: "'c session \<Rightarrow> bool" where
  "calm se \<longleftrightarrow> se_faults se = [] \<and> se_pool se = []"

lemma next_fault_calm: "se_faults se = [] \<Longrightarrow> next_fault se = (None, se)"
  by (simp add: next_fault_def)

lemma calm_update: "calm se \<Longrightarrow> calm (se\<lparr>se_server := s\<rparr>)"
  by (simp add: calm_def)

lemma mstmt_calm:
  "calm se \<Longrightarrow> mstmt conv body se = (case body (se_server se) of
     (Inl e, _) \<Rightarrow> (Inl (conv e), se) | (Inr x, s) \<Rightarrow> (Inr x, se\<lparr>se_server := s\<rparr>))"
  by (simp add: mstmt_def calm_def next_fault_calm)

lemma session_same [simp]: "se\<lparr>se_server := se_server se\<rparr> = se"
  by simp

lemma calm_steps:
  assumes "calm se"
  shows "flag mi query se = (Inr (query (se_server se)), se)"
    and "batch_execute mi f se = (Inr (), se\<lparr>se_server := f (se_server se)\<rparr>)"
    and "schema_problems mi gen se =
      (Inr (mi_contract mi (gen = Legacy) (required_constraints gen) (sv_catalog (se_server se))), se)"
    and "harness mi h se = (case h (se_server se) of
      (Inl m, s) \<Rightarrow> (Inl (Migration m), se\<lparr>se_server := s\<rparr>) | (Inr x, s) \<Rightarrow> (Inr x, se\<lparr>se_server := s\<rparr>))"
    and "next_fault se = (None, se)" and "mwith_conn work se = work se"
    using assms
  by (simp_all add: flag_def batch_execute_def schema_problems_def mstmt_calm harness_def mwith_conn_def
      next_fault_calm calm_def split: sum.splits prod.splits)

section \<open>Setup is all or nothing\<close>

text \<open>
  What the documentation says of the migration harness: it keeps its journal in the owned schema,
  creates it when it is missing and reports its versions; a successful run has applied every embedded
  migration and records it; and a run with nothing pending changes nothing.
\<close>

definition versions :: "string list" where
  "versions = map fst MIGRATIONS"

definition harness_ok :: "'c migrator \<Rightarrow> bool" where
  "harness_ok mi \<longleftrightarrow> mi_source mi = Inr MIGRATIONS \<and>
     (\<forall>s. sv_schema s \<longrightarrow> (let vs = (case sv_journal s of Some us \<Rightarrow> us | None \<Rightarrow> []) in
        mi_applied mi s = (Inr vs, s\<lparr>sv_journal := Some vs\<rparr>))) \<and>
     (\<forall>s s'. sv_schema s \<and> mi_run_pending mi s = (Inr (), s') \<longrightarrow> sv_schema s' \<and>
        (\<exists>us. sv_journal s' = Some us \<and> set versions \<subseteq> set us)) \<and>
     (\<forall>s us. sv_journal s = Some us \<and> set versions \<subseteq> set us \<longrightarrow> mi_run_pending mi s = (Inr (), s))"

lemma harness_okD:
  assumes "harness_ok mi"
  shows "mi_source mi = Inr MIGRATIONS"
    and "sv_schema s \<Longrightarrow> mi_applied mi s = (Inr (case sv_journal s of Some us \<Rightarrow> us | None \<Rightarrow> []),
           s\<lparr>sv_journal := Some (case sv_journal s of Some us \<Rightarrow> us | None \<Rightarrow> [])\<rparr>)"
    and "sv_schema s \<Longrightarrow> mi_run_pending mi s = (Inr (), s') \<Longrightarrow>
           sv_schema s' \<and> (\<exists>us. sv_journal s' = Some us \<and> set versions \<subseteq> set us)"
    and "sv_journal s = Some us \<Longrightarrow> set versions \<subseteq> set us \<Longrightarrow> mi_run_pending mi s = (Inr (), s)"
  using assms unfolding harness_ok_def Let_def by blast+

definition installed :: "'c migrator \<Rightarrow> 'c server \<Rightarrow> bool" where
  "installed mi s \<longleftrightarrow> sv_schema s \<and> (\<exists>vs. sv_journal s = Some vs \<and> set versions \<subseteq> set vs) \<and>
     mi_contract mi False 14 (sv_catalog s) = []"

lemma mkeeps_applied: "harness_ok mi \<Longrightarrow> mkeeps sv_schema (harness mi (mi_applied mi))"
  by (rule mkeeps_harness) (auto simp: harness_okD(2))

lemma mkeeps_adopt: "harness_ok mi \<Longrightarrow> mkeeps sv_schema (adopt_or_check_existing mi)"
  unfolding adopt_or_check_existing_def Let_def
  by (auto intro!: mkeeps_mbind mkeeps_applied mkeeps_adopt_versions)

lemma setup_stepsE:
  assumes "setup_steps mi se = (Inr u, se')"
  obtains se1 se2 se3 where "se_server se1 = se_server se\<lparr>sv_schema := True\<rparr>"
    "adopt_or_check_existing mi se1 = (Inr (), se2)" "harness mi (mi_run_pending mi) se2 = (Inr (), se3)"
    "verify_structure mi se3 = (Inr u, se')"
proof -
  from assms obtain a b c d owned where "se_server a = se_server se" and steps: "flag mi sv_schema a = (Inr owned, b)"
    "(if owned then mreturn () else batch_execute mi (\<lambda>s. s\<lparr>sv_schema := True\<rparr>)) b = (Inr (), c)"
    "batch_execute mi id c = (Inr (), d)" and rest: "\<exists>se2 se3. adopt_or_check_existing mi d = (Inr (), se2) \<and>
      harness mi (mi_run_pending mi) se2 = (Inr (), se3) \<and> verify_structure mi se3 = (Inr u, se')"
    unfolding setup_steps_def mbind_Inr by (force dest: mstmt_Inr)
  then have "se_server c = se_server se\<lparr>sv_schema := True\<rparr>"
    by (cases owned) (auto dest!: flag_Inr batch_execute_Inr)
  then have "se_server d = se_server se\<lparr>sv_schema := True\<rparr>" using batch_execute_Inr [OF steps(3)] by simp
  with rest that show thesis by blast
qed

lemma setup_steps_installed:
  assumes "setup_steps mi se = (Inr u, se')" and "harness_ok mi"
  shows "installed mi (se_server se')"
proof -
  from assms(1) obtain se1 se2 se3 where one: "se_server se1 = se_server se\<lparr>sv_schema := True\<rparr>"
    "adopt_or_check_existing mi se1 = (Inr (), se2)" "harness mi (mi_run_pending mi) se2 = (Inr (), se3)"
    "verify_structure mi se3 = (Inr u, se')"
    by (rule setup_stepsE)
  from mkeepsD [OF mkeeps_adopt [OF assms(2)] one(2)] one(1) have "sv_schema (se_server se2)" by simp
  from harness_okD(3) [OF assms(2) this harness_Inr [OF one(3)]] verify_structure_Inr [OF one(4)]
  show ?thesis by (auto simp: installed_def)
qed

lemma mtransaction_cases:
  assumes "mtransaction f se = (r, se')"
  obtains "se_server se' = se_server se" "\<not> (\<exists>x. r = Inr x)"
  | se1 x se2 where "se_server se1 = se_server se" "f se1 = (Inr x, se2)" "se_server se' = se_server se2"
      "r = Inr x \<or> (\<exists>e. r = Inl e)"
  using assms
  by (auto simp: mtransaction_def dest: next_fault_server split: prod.splits option.splits sum.splits if_splits)

lemma mwith_conn_cases:
  assumes "mwith_conn work se = (r, se')"
  obtains "se_server se' = se_server se" "\<exists>e. r = Inl e"
  | se1 r1 where "se_server se1 = se_server se" "work se1 = (r1, se')" "r = r1 \<or> (\<exists>e. r = Inl e)"
proof (cases "se_pool se")
  case Nil
  with assms that(2) show thesis by (auto simp: mwith_conn_def)
next
  case (Cons p rest)
  let ?se = "se\<lparr>se_pool := rest\<rparr>"
  obtain r1 se1 where work: "work ?se = (r1, se1)" by fastforce
  show thesis
  proof (cases p)
    case Checkout
    with assms Cons work that(2) [of ?se r1] show thesis by (simp add: mwith_conn_def)
  next
    case (NoConnection m)
    with assms Cons that(1) show thesis by (auto simp: mwith_conn_def)
  next
    case (ExecutorLost m finished)
    with assms Cons work that(1) that(2) [of ?se r1] show thesis by (cases finished) (auto simp: mwith_conn_def)
  qed
qed

lemma migrations_transactional: "\<not> (\<exists>(v, transactional) \<in> set MIGRATIONS. \<not> transactional)"
  by (simp add: MIGRATIONS_def)

lemma setup_cases:
  assumes "schema_setup mi se = (r, se')" and ok: "harness_ok mi"
  obtains "se_server se' = se_server se" "\<exists>e. r = Inl e"
  | se1 se2 where "se_server se1 = se_server se" "setup_steps mi se1 = (Inr (), se2)" "se_server se' = se_server se2"
proof (rule mwith_conn_cases [OF assms(1) [unfolded schema_setup_def]])
  fix se1 r1
  assume se1: "se_server se1 = se_server se" and r: "r = r1 \<or> (\<exists>e. r = Inl e)"
    and "(case mi_source mi of Inl m \<Rightarrow> (Inl (Migration m), se1) | Inr migrations \<Rightarrow>
       if \<exists>(v, transactional) \<in> set migrations. \<not> transactional
       then (Inl (Migration ''setup requires transactional migrations''), se1)
       else mtransaction (setup_steps mi) se1) = (r1, se')"
  then have "mtransaction (setup_steps mi) se1 = (r1, se')"
    using harness_okD(1) [OF ok] migrations_transactional by auto
  then show thesis
  proof (rule mtransaction_cases)
    assume "se_server se' = se_server se1" "\<not> (\<exists>x. r1 = Inr x)"
    then show thesis using se1 r that(1) by (cases r1) auto
  next
    fix s x s2 assume "se_server s = se_server se1" "setup_steps mi s = (Inr x, s2)" "se_server se' = se_server s2"
    then show thesis using se1 that(2) by simp
  qed
qed (use that(1) in blast)

lemma versions_iff: "set versions \<subseteq> set vs \<longleftrightarrow> (\<forall>(v, t) \<in> set MIGRATIONS. v \<in> set vs)"
  by (auto simp: versions_def)

lemma verify_structure_calm:
  "calm se \<Longrightarrow> mi_contract mi False 14 (sv_catalog (se_server se)) = [] \<Longrightarrow> verify_structure mi se = (Inr (), se)"
  by (simp add: verify_structure_def mbind_def calm_steps required_constraints_def mreturn_def)

lemma mtransaction_calm:
  assumes "calm se" and "f se = (Inr x, se1)" and "calm se1"
  shows "mtransaction f se = (Inr x, se1)"
  using assms by (simp add: mtransaction_def calm_steps)

lemma verify_installed:
  assumes ok: "harness_ok mi" and inst: "installed mi (se_server now)" and calm: "calm now"
  shows "verify_schema mi now = (Inr (), now)"
proof -
  obtain vs where vs: "sv_journal (se_server now) = Some vs" "set versions \<subseteq> set vs" using inst by (auto simp: installed_def)
  have "\<not> (\<exists>(v, t) \<in> set MIGRATIONS. v \<notin> set vs)" using vs(2) by (auto simp: versions_iff)
  moreover have "verify_structure mi now = (Inr (), now)" using inst calm by (simp add: installed_def verify_structure_calm)
  ultimately show ?thesis
    unfolding verify_schema_def calm_steps(6) [OF calm]
    by (intro mtransaction_calm calm) (simp add: mbind_def calm_steps mstmt_calm calm vs(1) harness_okD(1) [OF ok])
qed

lemma setup_installed:
  assumes ok: "harness_ok mi" and inst: "installed mi (se_server now)" and calm: "calm now"
  shows "schema_setup mi now = (Inr (), now)"
proof -
  obtain vs where vs: "sv_journal (se_server now) = Some vs" "set versions \<subseteq> set vs" using inst by (auto simp: installed_def)
  have schema: "sv_schema (se_server now)" using inst by (simp add: installed_def)
  have "vs \<noteq> []" using vs(2) by (auto simp: versions_def MIGRATIONS_def)
  moreover have "se_server now\<lparr>sv_journal := Some vs\<rparr> = se_server now" using vs(1) by simp
  ultimately have adopt: "adopt_or_check_existing mi now = (Inr (), now)"
    by (simp add: adopt_or_check_existing_def mbind_def calm_steps calm harness_okD(2) [OF ok schema] vs(1) mreturn_def)
  have "verify_structure mi now = (Inr (), now)" using inst calm by (simp add: installed_def verify_structure_calm)
  with adopt have "setup_steps mi now = (Inr (), now)"
    by (simp add: setup_steps_def mbind_def calm_steps mstmt_calm calm schema mreturn_def harness_okD(4) [OF ok vs])
  then show ?thesis
    unfolding schema_setup_def calm_steps(6) [OF calm]
    using harness_okD(1) [OF ok] migrations_transactional mtransaction_calm [OF calm _ calm] by auto
qed

text \<open>
  C17. Schema setup is all or nothing, and a success is complete. However its statements, its commit or
  the executor fail, the server is exactly as before, or the owned schema exists, every embedded
  migration is recorded in its journal and the catalog satisfies the runtime contract; a success is
  always the latter. Verification then accepts the server, and a further setup leaves it as it is.
\<close>

theorem setup_all_or_nothing:
  assumes "harness_ok mi" and "schema_setup mi se = (r, se')"
  shows "(se_server se' = se_server se \<and> r \<noteq> Inr () \<or>
      sv_schema (se_server se') \<and> mi_contract mi False 14 (sv_catalog (se_server se')) = [] \<and>
      (\<exists>vs. sv_journal (se_server se') = Some vs \<and> (\<forall>(v, t) \<in> set MIGRATIONS. v \<in> set vs))) \<and>
    (r = Inr () \<longrightarrow> (\<forall>now. se_server now = se_server se' \<and> se_faults now = [] \<and> se_pool now = [] \<longrightarrow>
      verify_schema mi now = (Inr (), now) \<and> schema_setup mi now = (Inr (), now)))"
proof -
  have again: "verify_schema mi now = (Inr (), now) \<and> schema_setup mi now = (Inr (), now)"
    if "installed mi (se_server se')" "se_server now = se_server se' \<and> se_faults now = [] \<and> se_pool now = []" for now
    using verify_installed [OF assms(1), of now] setup_installed [OF assms(1), of now] that by (simp add: calm_def)
  show ?thesis
  proof (rule setup_cases [OF assms(2,1)])
    assume "se_server se' = se_server se" "\<exists>e. r = Inl e"
    then show ?thesis by auto
  next
    fix se1 se2 assume "setup_steps mi se1 = (Inr (), se2)" "se_server se' = se_server se2"
    then have inst: "installed mi (se_server se')" using setup_steps_installed assms(1) by simp
    then have "sv_schema (se_server se') \<and> mi_contract mi False 14 (sv_catalog (se_server se')) = [] \<and>
      (\<exists>vs. sv_journal (se_server se') = Some vs \<and> (\<forall>(v, t) \<in> set MIGRATIONS. v \<in> set vs))"
      unfolding installed_def versions_iff by blast
    with again [OF inst] show ?thesis by blast
  qed
qed

section \<open>A schema of somebody else is left alone\<close>

lemma adopt_refuses:
  assumes ok: "harness_ok mi" and schema: "sv_schema (se_server se)"
    and empty: "sv_journal (se_server se) = None \<or> sv_journal (se_server se) = Some []"
    and cat: "sv_catalog (se_server se) = c" and present: "mi_present mi c"
    and problems: "mi_contract mi False 11 c \<noteq> []" "mi_contract mi False 0 c \<noteq> []"
      "mi_contract mi True 0 c \<noteq> [] \<or> \<not> mi_legacy mi c"
  shows "adopt_or_check_existing mi se \<noteq> (Inr u, se')"
proof
  assume run: "adopt_or_check_existing mi se = (Inr u, se')"
  obtain applied a where one: "harness mi (mi_applied mi) se = (Inr applied, a)" 
    using run by (auto simp: adopt_or_check_existing_def)
  have a: "applied = []" "se_server a = se_server se\<lparr>sv_journal := Some []\<rparr>"
    using harness_Inr [OF one] harness_okD(2) [OF ok schema] empty by auto
  then have "sv_catalog (se_server a) = c" using cat by simp
  with run one a(1) present problems show False
    by (auto simp: adopt_or_check_existing_def Let_def recognized_legacy_def required_constraints_def
        dest!: flag_Inr schema_problems_Inr split: if_splits)
qed

lemma adopt_refuses_calm:
  assumes ok: "harness_ok mi" and schema: "sv_schema (se_server se)" and calm: "calm se"
    and empty: "sv_journal (se_server se) = None \<or> sv_journal (se_server se) = Some []"
    and cat: "sv_catalog (se_server se) = c" and present: "mi_present mi c"
    and problems: "mi_contract mi False 11 c \<noteq> []" "mi_contract mi False 0 c \<noteq> []"
      "mi_contract mi True 0 c \<noteq> [] \<or> \<not> mi_legacy mi c"
  shows "fst (adopt_or_check_existing mi se) = Inl (Migration (msg_unsupported (mi_contract mi False 0 c)))"
proof -
  let ?se = "se\<lparr>se_server := se_server se\<lparr>sv_journal := Some []\<rparr>\<rparr>"
  have "mi_applied mi (se_server se) = (Inr [], se_server se\<lparr>sv_journal := Some []\<rparr>)"
    using harness_okD(2) [OF ok schema] empty by auto
  then have one: "harness mi (mi_applied mi) se = (Inr [], ?se)" by (simp add: calm_steps calm)
  have calm': "calm ?se" using calm by (rule calm_update)
  have legacy: "recognized_legacy mi ?se = (Inr False, ?se)"
    using problems(3) cat
    by (auto simp: recognized_legacy_def mbind_def calm_steps [OF calm'] required_constraints_def mreturn_def)
  have cat': "sv_catalog (se_server ?se) = c" using cat by simp
  note steps = calm_steps(1,3) [OF calm', unfolded cat']
  have probs: "schema_problems mi Adoptable ?se = (Inr (mi_contract mi False 11 c), ?se)"
    "schema_problems mi ReleasedBaseline ?se = (Inr (mi_contract mi False 0 c), ?se)"
    using steps(2) [of mi Adoptable] steps(2) [of mi ReleasedBaseline] by (simp_all add: required_constraints_def)
  have pres: "flag mi (\<lambda>s. mi_present mi (sv_catalog s)) ?se = (Inr True, ?se)" using steps(1) cat' present by simp
  show ?thesis
    unfolding adopt_or_check_existing_def Let_def
    using problems(1,2) by (simp add: mbind_def one pres probs legacy mthrow_def)
qed

text \<open>
  C37. A schema of somebody else is left alone. When an \<^verbatim>\<open>apalis\<close> schema exists without a
  migration history and satisfies neither the adoptable nor the released contract and is no recognized
  legacy schema, setup never succeeds and changes nothing, whatever fails on the way; where nothing else
  fails it names the violations of the released contract.
\<close>

theorem unsupported_schema_is_refused:
  assumes "harness_ok mi" and "schema_setup mi se = (r, se')"
    and "sv_journal (se_server se) = None \<or> sv_journal (se_server se) = Some []"
    and "mi_present mi (sv_catalog (se_server se))"
    and "mi_contract mi False 11 (sv_catalog (se_server se)) \<noteq> []" and "mi_contract mi False 0 (sv_catalog (se_server se)) \<noteq> []"
    and "mi_contract mi True 0 (sv_catalog (se_server se)) \<noteq> [] \<or> \<not> mi_legacy mi (sv_catalog (se_server se))"
  shows "se_server se' = se_server se \<and> (\<exists>e. r = Inl e) \<and>
    (se_faults se = [] \<and> se_pool se = [] \<longrightarrow>
       r = Inl (Migration (msg_unsupported (mi_contract mi False 0 (sv_catalog (se_server se))))))"
proof -
  let ?c = "sv_catalog (se_server se)"
  have "se_server se' = se_server se \<and> (\<exists>e. r = Inl e)"
  proof (rule setup_cases [OF assms(2,1)])
    fix se1 se2 assume se1: "se_server se1 = se_server se" and "setup_steps mi se1 = (Inr (), se2)"
    then obtain a b where a: "se_server a = se_server se\<lparr>sv_schema := True\<rparr>" "adopt_or_check_existing mi a = (Inr (), b)"
      by (auto elim: setup_stepsE)
    from adopt_refuses [OF assms(1), of a ?c "()" b] a assms(3-) show ?thesis by simp
  qed simp
  moreover have "r = Inl (Migration (msg_unsupported (mi_contract mi False 0 ?c)))" if "calm se"
  proof -
    let ?se = "se\<lparr>se_server := se_server se\<lparr>sv_schema := True\<rparr>\<rparr>"
    have calm: "calm ?se" using that by (rule calm_update)
    obtain x a where ad: "adopt_or_check_existing mi ?se = (x, a)" by fastforce
    have x: "x = Inl (Migration (msg_unsupported (mi_contract mi False 0 ?c)))"
      using adopt_refuses_calm [OF assms(1) _ calm, of ?c] assms(3-) ad by simp
    have "se_server se\<lparr>sv_schema := True\<rparr> = se_server se" if "sv_schema (se_server se)"
      using that by (intro server.equality) simp_all
    with ad have "sv_schema (se_server se) \<Longrightarrow> adopt_or_check_existing mi se = (x, a)" by simp
    then have "setup_steps mi se = (x, a)"
      using ad x by (cases "sv_schema (se_server se)")
        (simp_all add: setup_steps_def mbind_def calm_steps mstmt_calm that calm mreturn_def)
    then have "fst (schema_setup mi se) = x"
      using x harness_okD(1) [OF assms(1)] migrations_transactional
      by (auto simp: schema_setup_def calm_steps that mtransaction_def)
    with assms(2) x show ?thesis by simp
  qed
  ultimately show ?thesis by (simp add: calm_def)
qed

section \<open>The snapshot is refreshed whether or not it was populated\<close>

text \<open>
  The concurrent form is chosen only for a populated view, so a refresh of an existing view succeeds and
  leaves it populated, the first time as well; without the view it fails and changes nothing.
\<close>

lemma refresh_populates:
  assumes "calm se"
  shows "refresh_queue_stats_snapshot se = (case sv_snapshot (se_server se) of
     Some _ \<Rightarrow> (Inr (), se\<lparr>se_server := (se_server se)\<lparr>sv_snapshot := Some True\<rparr>\<rparr>)
   | None \<Rightarrow> (Inl (error_database ''refreshing queue stats snapshot'' undefined_table), se))"
  using assms
  by (auto simp: refresh_queue_stats_snapshot_def calm_steps(6) mbind_def mstmt_calm refresh_view_def split: option.splits)

end
