(* ===== verification/Runtime.thy ===== *)
theory Runtime
  imports Errors
begin

text \<open>
  The blocking pool behind every query (\<^verbatim>\<open>src/runtime.rs\<close>): which runtime hosts a closure, and
  how a closure, the task that forwards its result and the caller that awaits it interleave when the
  caller may be dropped at any await and the runtime may shut down at any time. The pools belong to the
  runtimes' crates: what a pool does with a queued closure is a parameter, and what the crate relies on is
  the named hypothesis \<open>pool_documented\<close>.
\<close>

section \<open>One call\<close>

datatype host = TokioPool | NtexDetached | NtexInline

text \<open>
  \<^verbatim>\<open>run_blocking\<close> and \<^verbatim>\<open>run_blocking_ntex\<close> by the enabled features, an entered tokio
  runtime and a running ntex system.
\<close>

definition pick_host :: "bool \<Rightarrow> bool \<Rightarrow> bool \<Rightarrow> bool \<Rightarrow> host" where
  "pick_host tokio ntex tokio_entered ntex_system =
     (if tokio \<and> \<not> (ntex \<and> \<not> tokio_entered) then TokioPool
      else if \<not> ntex_system then NtexInline else NtexDetached)"

text \<open>
  What a join reports: the closure's own result, or a join error (the closure panicked, or the pool
  discarded it).
\<close>

datatype 'r ending = Value "(error, 'r) result" | JoinError string

datatype 'r closure = InQueue | Executing | Ended "'r ending" | Discarded

datatype 'r caller = Awaiting | Answered "(error, 'r) result" | Abandoned

datatype forwarder = NoForwarder | Alive | Sent | TornDown

record 'r blocking_call =
  bc_host :: host
  bc_closure :: "'r closure"
  bc_caller :: "'r caller"
  bc_forwarder :: forwarder
  bc_channel :: "'r ending option"
  bc_runs :: nat
  bc_down :: bool

text \<open>\<^verbatim>\<open>map_err(|error| Error::Blocking(Box::new(error)))?\<close> on the join, and its ntex counterparts.\<close>

definition resolve_join :: "'r ending \<Rightarrow> (error, 'r) result" where
  "resolve_join e = (case e of Value r \<Rightarrow> r | JoinError m \<Rightarrow> Inl (Blocking m))"

definition resolve_forwarded_result :: "(string, 'r ending) result \<Rightarrow> (error, 'r) result" where
  "resolve_forwarded_result received = (case received of
     Inr e \<Rightarrow> resolve_join e
   | Inl canceled \<Rightarrow> Inl (Blocking canceled))"

text \<open>The first poll: the closure is handed to the pool, or without an ntex system it runs in place.\<close>

definition run_blocking :: "host \<Rightarrow> 'r ending \<Rightarrow> 'r blocking_call" where
  "run_blocking host work =
     \<lparr>bc_host = host, bc_closure = (if host = NtexInline then Ended work else InQueue), bc_caller = Awaiting,
      bc_forwarder = (if host = NtexDetached then Alive else NoForwarder), bc_channel = None,
      bc_runs = (if host = NtexInline then 1 else 0), bc_down = False\<rparr>"

text \<open>
  Whether somebody holds the receiver of the closure's result: the detached task on ntex, otherwise the
  caller itself.
\<close>

definition receiver_open :: "'r blocking_call \<Rightarrow> bool" where
  "receiver_open c \<longleftrightarrow>
     (if bc_host c = NtexDetached then bc_forwarder c = Alive else bc_caller c = Awaiting)"

section \<open>The foreign pools\<close>

datatype verdict = Run | Discard

text \<open>
  A pool by the verdicts it may give on a queued closure, from its runtime, whether the receiver of the
  result is open and whether the runtime is shutting down. The documentation: while the runtime is up,
  tokio runs a spawned closure whatever becomes of its handle, and ntex discards one only when the
  receiver of its result is closed; nothing is said of a runtime that shuts down.
\<close>

type_synonym pool = "host \<Rightarrow> bool \<Rightarrow> bool \<Rightarrow> verdict \<Rightarrow> bool"

definition pool_documented :: "pool \<Rightarrow> bool" where
  "pool_documented pool \<longleftrightarrow>
     (\<forall>h opn. pool h opn False Discard \<longrightarrow> h = NtexDetached \<and> \<not> opn) \<and>
     (\<forall>h opn. opn \<or> h = TokioPool \<longrightarrow> pool h opn False Run)"

text \<open>
  Everything that may happen to a call: the pool gives its verdict, the closure ends, the join of a closure
  that ended or was discarded reaches whoever awaits it, the caller is dropped, the runtime shuts down and
  tears the forwarding task down.
\<close>

inductive blocking_step :: "pool \<Rightarrow> 'r ending \<Rightarrow> 'r blocking_call \<Rightarrow> 'r blocking_call \<Rightarrow> bool" for pool work where
  pick_up: "bc_closure c = InQueue \<Longrightarrow> pool (bc_host c) (receiver_open c) (bc_down c) Run \<Longrightarrow>
     blocking_step pool work c (c\<lparr>bc_closure := Executing, bc_runs := Suc (bc_runs c)\<rparr>)"
| discard: "bc_closure c = InQueue \<Longrightarrow> pool (bc_host c) (receiver_open c) (bc_down c) Discard \<Longrightarrow>
     blocking_step pool work c (c\<lparr>bc_closure := Discarded\<rparr>)"
| finish: "bc_closure c = Executing \<Longrightarrow> blocking_step pool work c (c\<lparr>bc_closure := Ended work\<rparr>)"
| forward: "bc_forwarder c = Alive \<Longrightarrow> bc_closure c = Ended e \<Longrightarrow>
     blocking_step pool work c (c\<lparr>bc_forwarder := Sent, bc_channel := Some e\<rparr>)"
| forward_discarded: "bc_forwarder c = Alive \<Longrightarrow> bc_closure c = Discarded \<Longrightarrow>
     blocking_step pool work c (c\<lparr>bc_forwarder := Sent, bc_channel := Some (JoinError m)\<rparr>)"
| joined: "bc_host c \<noteq> NtexDetached \<Longrightarrow> bc_caller c = Awaiting \<Longrightarrow> bc_closure c = Ended e \<Longrightarrow>
     blocking_step pool work c (c\<lparr>bc_caller := Answered (resolve_join e)\<rparr>)"
| joined_discarded: "bc_host c \<noteq> NtexDetached \<Longrightarrow> bc_caller c = Awaiting \<Longrightarrow> bc_closure c = Discarded \<Longrightarrow>
     blocking_step pool work c (c\<lparr>bc_caller := Answered (resolve_join (JoinError m))\<rparr>)"
| received: "bc_caller c = Awaiting \<Longrightarrow> bc_channel c = Some e \<Longrightarrow>
     blocking_step pool work c (c\<lparr>bc_caller := Answered (resolve_forwarded_result (Inr e))\<rparr>)"
| canceled: "bc_caller c = Awaiting \<Longrightarrow> bc_forwarder c = TornDown \<Longrightarrow>
     blocking_step pool work c (c\<lparr>bc_caller := Answered (resolve_forwarded_result (Inl ''oneshot canceled''))\<rparr>)"
| abandon: "bc_caller c = Awaiting \<Longrightarrow> blocking_step pool work c (c\<lparr>bc_caller := Abandoned\<rparr>)"
| shut_down: "blocking_step pool work c (c\<lparr>bc_down := True\<rparr>)"
| tear_down: "bc_down c \<Longrightarrow> bc_forwarder c = Alive \<Longrightarrow> blocking_step pool work c (c\<lparr>bc_forwarder := TornDown\<rparr>)"

section \<open>A dropped caller does not cancel its work\<close>

definition call_inv :: "'r ending \<Rightarrow> 'r blocking_call \<Rightarrow> bool" where
  "call_inv work c \<longleftrightarrow>
     (bc_host c \<noteq> NtexDetached \<longleftrightarrow> bc_forwarder c = NoForwarder) \<and>
     (bc_host c = NtexInline \<longrightarrow> bc_closure c = Ended work) \<and>
     (bc_closure c = Discarded \<longrightarrow> bc_down c) \<and> (bc_forwarder c = TornDown \<longrightarrow> bc_down c) \<and>
     (bc_runs c = (if bc_closure c = InQueue \<or> bc_closure c = Discarded then 0 else 1)) \<and>
     bc_closure c \<in> {InQueue, Executing, Discarded, Ended work} \<and>
     (bc_forwarder c = Sent \<longrightarrow> bc_closure c = Ended work \<or> bc_closure c = Discarded) \<and>
     (\<forall>e. bc_channel c = Some e \<longrightarrow> bc_closure c = Ended work \<and> e = work \<or> bc_closure c = Discarded \<and> (\<exists>m. e = JoinError m)) \<and>
     (\<forall>r. bc_caller c = Answered r \<longrightarrow> r = resolve_join work \<and> bc_closure c = Ended work \<or>
        bc_down c \<and> (\<exists>m. r = Inl (Blocking m)))"

lemma call_inv_start: "call_inv work (run_blocking host work)"
  by (cases host) (auto simp: call_inv_def run_blocking_def)

text \<open>Without a shutdown the pool finds the receiver of a queued closure open, or does not ask for it.\<close>

lemma queued_receiver:
  "call_inv work c \<Longrightarrow> bc_closure c = InQueue \<Longrightarrow> \<not> bc_down c \<Longrightarrow> bc_host c = TokioPool \<or> bc_host c = NtexDetached \<and> receiver_open c"
  by (cases "bc_host c"; cases "bc_forwarder c") (auto simp: call_inv_def receiver_open_def)

lemma call_inv_step:
  assumes "blocking_step pool work c c'" and pool: "pool_documented pool" and inv: "call_inv work c"
  shows "call_inv work c'"
  using assms(1)
proof cases
  case discard
  have "bc_down c"
  proof (rule ccontr)
    assume "\<not> bc_down c"
    with discard(3) pool have "bc_host c = NtexDetached \<and> \<not> receiver_open c" by (auto simp: pool_documented_def)
    with queued_receiver [OF inv discard(2) \<open>\<not> bc_down c\<close>] show False by simp
  qed
  moreover have "bc_host c \<noteq> NtexInline" using inv discard(2) by (auto simp: call_inv_def)
  ultimately show ?thesis using inv discard by (auto simp: call_inv_def)
qed (use inv in \<open>auto simp: call_inv_def resolve_forwarded_result_def resolve_join_def\<close>)

lemma call_inv_reachable:
  "(blocking_step pool work)\<^sup>*\<^sup>* (run_blocking host work) c \<Longrightarrow> pool_documented pool \<Longrightarrow> call_inv work c"
  by (induction rule: rtranclp_induct) (auto intro: call_inv_start call_inv_step)

text \<open>As long as the runtime is up, the closure can run to its end without the caller.\<close>

lemma work_completes:
  assumes pool: "pool_documented pool" and inv: "call_inv work c" and up: "\<not> bc_down c"
  shows "\<exists>c'. (blocking_step pool work)\<^sup>*\<^sup>* c c' \<and> bc_closure c' = Ended work \<and> bc_caller c' = bc_caller c"
proof -
  have run: "\<exists>c'. (blocking_step pool work)\<^sup>*\<^sup>* d c' \<and> bc_closure c' = Ended work \<and> bc_caller c' = bc_caller d"
    if "bc_closure d = Executing" for d
    using blocking_step.finish [OF that, of pool work] by (intro exI [of _ "d\<lparr>bc_closure := Ended work\<rparr>"]) simp
  from inv up consider "bc_closure c = InQueue" | "bc_closure c = Executing" | "bc_closure c = Ended work"
    by (auto simp: call_inv_def)
  then show ?thesis
  proof cases
    case 1
    with queued_receiver [OF inv 1 up] pool up have "pool (bc_host c) (receiver_open c) (bc_down c) Run"
      by (auto simp: pool_documented_def)
    note step = blocking_step.pick_up [of c pool work, OF 1 this]
    from run [of "c\<lparr>bc_closure := Executing, bc_runs := Suc (bc_runs c)\<rparr>"] show ?thesis
      using converse_rtranclp_into_rtranclp [where r = "blocking_step pool work", OF step] by auto
  qed (auto intro: run)
qed

text \<open>
  C32. Blocking work survives its caller. Over pools that behave as documented, whichever runtime hosts it and
  however the caller, the forwarding task and the pool interleave, a closure runs at most once and is
  discarded only when the runtime shuts down: as long as the runtime is up the closure can still run to its
  end, also after the caller was dropped and without the caller's help. A caller that gets an answer gets the closure's own result,
  after it ran, or, when the runtime shut down, the loss of the work reported as a blocking error.
\<close>

theorem blocking_work_survives_its_caller:
  assumes "pool_documented pool" and "(blocking_step pool work)\<^sup>*\<^sup>* (run_blocking host work) c"
  shows "bc_runs c \<le> 1 \<and> (bc_closure c = Discarded \<longrightarrow> bc_down c) \<and>
    (\<not> bc_down c \<longrightarrow>
       (\<exists>c'. (blocking_step pool work)\<^sup>*\<^sup>* c c' \<and> bc_closure c' = Ended work \<and> bc_caller c' = bc_caller c)) \<and>
    (\<forall>r. bc_caller c = Answered r \<longrightarrow>
       bc_runs c = 1 \<and> r = (case work of Value v \<Rightarrow> v | JoinError m \<Rightarrow> Inl (Blocking m)) \<or>
       bc_down c \<and> (\<exists>m. r = Inl (Blocking m)))"
proof -
  have inv: "call_inv work c" by (rule call_inv_reachable [OF assms(2,1)])
  note facts = inv [unfolded call_inv_def]
  have "bc_runs c = 1 \<and> r = (case work of Value v \<Rightarrow> v | JoinError m \<Rightarrow> Inl (Blocking m)) \<or>
      bc_down c \<and> (\<exists>m. r = Inl (Blocking m))" if "bc_caller c = Answered r" for r
  proof -
    have "r = resolve_join work \<and> bc_closure c = Ended work \<or> bc_down c \<and> (\<exists>m. r = Inl (Blocking m))"
      using facts that by blast
    then show ?thesis using facts by (auto simp: resolve_join_def)
  qed
  moreover have "bc_runs c \<le> 1" using facts by simp
  ultimately show ?thesis using facts work_completes [OF assms(1) inv] by blast
qed

end
