(* ===== verification/System.thy ===== *)
theory System
  imports Admin Sink Ack
begin

text \<open>
  The whole system as a step relation on the tables: any number of workers, producers, dashboards
  and maintenance jobs, each running the operations of the crate on connections of its own, with any
  clock, any foreign locks and any failures. One step is one operation.
\<close>

section \<open>Steps\<close>

text \<open>The tables an operation leaves behind, run on a connection that sees \<open>d\<close>.\<close>

definition leads :: "'a sql \<Rightarrow> db \<Rightarrow> db \<Rightarrow> bool" where
  "leads f d d' \<longleftrightarrow> (\<exists>g. pg_db g = d \<and> pg_db (snd (f g)) = d')"

inductive system_step :: "foreign \<Rightarrow> push_deps \<Rightarrow> db \<Rightarrow> db \<Rightarrow> bool"
  for fx :: foreign and px :: push_deps where
  register: "leads (initial_heartbeat cfg worker storage token) d d' \<Longrightarrow> system_step fx px d d'"
| beat: "leads (with_conn (keep_alive_blocking cfg worker token)) d d' \<Longrightarrow> system_step fx px d d'"
| sweep: "leads (with_conn (reenqueue_orphaned_blocking cfg)) d d' \<Longrightarrow> system_step fx px d d'"
| release: "leads (with_conn (release_worker_blocking queue name token)) d d' \<Longrightarrow> system_step fx px d d'"
| poll: "leads (fetch_next fx cfg worker tok) d d' \<Longrightarrow> system_step fx px d d'"
| notified: "leads (queue_by_id fx queue ids name tok) d d' \<Longrightarrow> system_step fx px d d'"
| undecodable: "leads (fail_undecodable_task i name l a msg tok) d d' \<Longrightarrow> system_step fx px d d'"
| start: "leads (start_task claim) d d' \<Longrightarrow> system_step fx px d d'"
| lock: "leads (lock_task_with_token fx i name q tok) d d' \<Longrightarrow> system_step fx px d d'"
| acknowledge: "ack_valid u \<Longrightarrow> leads (ack_task u) d d' \<Longrightarrow> system_step fx px d d'"
| enqueue: "leads (push_tasks_on_conn px cfg tasks) d d' \<Longrightarrow> system_step fx px d d'"
| flush: "pg_db g = d \<Longrightarrow> pg_db (snd (flush_tasks px cfg tasks g)) = d' \<Longrightarrow> system_step fx px d d'"
| admin_register: "leads (register_worker name queue) d d' \<Longrightarrow> system_step fx px d d'"
| purge: "leads (purge_terminal_tasks queue window) d d' \<Longrightarrow> system_step fx px d d'"
| prune: "leads (prune_workers cfg stale_for) d d' \<Longrightarrow> system_step fx px d d'"

section \<open>The contract of every step\<close>

text \<open>
  The invariant is kept, and every task evolves; one that is gone was terminal when it was last
  seen.
\<close>

definition history :: "db \<Rightarrow> db \<Rightarrow> bool" where
  "history d d' \<longleftrightarrow> (db_inv d \<longrightarrow> db_inv d' \<and> (\<forall>j \<in> set (jobs d). \<exists>j'. job_evolves j j' \<and> job_checks j' \<and>
     (j' \<in> set (jobs d') \<or> terminal_row j')) \<and> follows d d')"

lemma history_refl: "history d d"
  by (auto simp: history_def intro!: exI dest: db_inv_job)

lemma history_trans:
  assumes "history a b" and "history b c"
  shows "history a c"
  unfolding history_def
proof (intro impI conjI ballI)
  assume a: "db_inv a"
  then have b: "db_inv b" using assms(1) by (simp add: history_def)
  then show "db_inv c" using assms(2) by (simp add: history_def)
  show "follows a c" using a b assms by (auto simp: history_def intro: follows_trans)
  fix j assume "j \<in> set (jobs a)"
  then obtain j1 where j1: "job_evolves j j1" "job_checks j1" "j1 \<in> set (jobs b) \<or> terminal_row j1"
    using a assms(1) by (auto simp: history_def)
  show "\<exists>j'. job_evolves j j' \<and> job_checks j' \<and> (j' \<in> set (jobs c) \<or> terminal_row j')"
  proof (cases "j1 \<in> set (jobs b)")
    case True
    then obtain j2 where "job_evolves j1 j2" "job_checks j2" "j2 \<in> set (jobs c) \<or> terminal_row j2"
      using b assms(2) by (auto simp: history_def)
    with j1(1) show ?thesis by (blast intro: job_evolves_trans)
  qed (use j1 in blast)
qed

interpretation past: db_relation history
  by unfold_locales (auto intro: history_refl history_trans)

lemma lifecycle_history: "lifecycle d d' \<Longrightarrow> history d d'"
  unfolding lifecycle_def history_def evolves_def by (metis db_inv_job)

text \<open>Deleting terminal rows takes their cards off the board.\<close>

lemma delete_follows:
  assumes "distinct (map j_id (jobs d))" and d': "jobs d' = delete_where P (jobs d)"
    and "\<And>j. j \<in> set (jobs d) \<Longrightarrow> P j \<Longrightarrow> terminal_row j"
  shows "follows d d'"
  unfolding follows_def
proof
  fix i
  have dist: "distinct (map j_id (jobs d'))"
    using assms(1) by (simp add: d' delete_where_def distinct_map_filter)
  show "task_step\<^sup>*\<^sup>* (board d i) (board d' i)"
  proof (cases "find (\<lambda>j. j_id j = i) (jobs d)")
    case None
    then have "find (\<lambda>j. j_id j = i) (jobs d') = None" by (auto simp: find_None_iff d' delete_where_def)
    with None show ?thesis by (simp add: board_def)
  next
    case (Some j)
    with assms(1) have j: "j \<in> set (jobs d)" "j_id j = i" by (simp_all add: find_id_Some)
    show ?thesis
    proof (cases "P j")
      case False
      with j dist have "find (\<lambda>j. j_id j = i) (jobs d') = Some j" by (simp add: find_id_Some d' delete_where_def)
      with Some show ?thesis by (simp add: board_def)
    next
      case True
      have "k = j" if "k \<in> set (jobs d)" "j_id k = i" for k
        using that j assms(1) by (metis distinct_key_unique)
      with True have "find (\<lambda>j. j_id j = i) (jobs d') = None"
        by (auto simp: find_None_iff d' delete_where_def)
      with Some assms(3) [OF j(1) True] show ?thesis
        by (auto simp: board_def phase_over intro: task_step.forget)
    qed
  qed
qed

lemma leads_lifecycle: "ensures lifecycle f \<Longrightarrow> leads f d d' \<Longrightarrow> history d d'"
  unfolding leads_def using ensuresD lifecycle_history by blast

lemma purged_history: "purged q c d d' \<Longrightarrow> history d d'"
  unfolding history_def
proof (intro impI)
  assume p: "purged q c d d'" and inv: "db_inv d"
  then obtain P where P: "db_ok d'" "jobs d' = delete_where P (jobs d)" "\<forall>j \<in> set (jobs d). P j \<longrightarrow> purgeable q c j"
    by (auto simp: purged_def)
  then have "db_inv d'" using inv by (auto simp: db_inv_def)
  moreover have "\<exists>j'. job_evolves j j' \<and> job_checks j' \<and> (j' \<in> set (jobs d') \<or> terminal_row j')" if "j \<in> set (jobs d)" for j
    using that P inv by (intro exI [of _ j]) (auto simp: purgeable_def dest: db_inv_job)
  moreover have "follows d d'"
    by (rule delete_follows [OF _ P(2)])
       (use inv P(3) in \<open>auto simp: db_inv_def db_ok_def purgeable_def\<close>)
  ultimately show "db_inv d' \<and> (\<forall>j \<in> set (jobs d). \<exists>j'. job_evolves j j' \<and> job_checks j' \<and> (j' \<in> set (jobs d') \<or> terminal_row j')) \<and>
      follows d d'"
    by blast
qed

lemma purge_history: "history (pg_db g) (pg_db (snd (purge_terminal_tasks q w g)))"
proof -
  obtain rc g1 where cut: "with_conn (server_cutoff w) g = (rc, g1)" by fastforce
  have same: "pg_db g1 = pg_db g" using ensuresD_run [OF server_cutoff_keeps cut] by simp
  show ?thesis
  proof (cases rc)
    case (Inl e)
    with cut same show ?thesis
      by (simp add: purge_terminal_tasks_def purge_terminal_tasks_batched_def history_refl)
  next
    case (Inr c)
    with cut same purged_history [OF purge_loop_purges [of q c g1 PURGE_BATCH_LIMIT 0]] show ?thesis
      by (simp add: purge_terminal_tasks_def purge_terminal_tasks_batched_def)
  qed
qed

lemma prune_history: "history (pg_db g) (pg_db (snd (prune_workers cfg t g)))"
proof (cases "t < c_reenqueue_orphaned_after cfg")
  case True
  then show ?thesis by (simp add: prune_workers_def validate_prune_window_def history_refl)
next
  case False
  obtain r g' where loop: "prune_loop (c_queue cfg) t 0 g = (r, g')" by fastforce
  with False have run: "snd (prune_workers cfg t g) = g'" by (simp add: prune_workers_def validate_prune_window_def)
  from prune_loop_prunes [OF loop order_refl]
  have "lifecycle (pg_db g) (pg_db g')"
    by (intro lifecycle_same_jobs_inv) (auto simp: pruned_def)
  with run show ?thesis by (simp add: lifecycle_history)
qed

lemmas step_lifecycles =
  initial_heartbeat_lifecycle life.ensures_with_conn [OF keep_alive_blocking_lifecycle]
  life.ensures_with_conn [OF reenqueue_orphaned_lifecycle] life.ensures_with_conn [OF release_worker_blocking_lifecycle]
  fetch_next_lifecycle queue_by_id_lifecycle fail_undecodable_task_lifecycle start_task_lifecycle
  lock_task_with_token_lifecycle push_tasks_on_conn_lifecycle

lemma step_history: "system_step fx px d d' \<Longrightarrow> history d d'"
proof (induction rule: system_step.induct)
  case (acknowledge u d d')
  then show ?case using leads_lifecycle [OF ack_task_lifecycle] by blast
next
  case (flush g d cfg tasks d')
  then show ?case using lifecycle_history [OF flush_tasks_lifecycle [of g px cfg tasks]] by simp
next
  case (admin_register name queue d d')
  then show ?case using leads_lifecycle [OF register_worker_admin_lifecycle] by (simp add: register_worker_def)
next
  case (purge queue window d d')
  then show ?case using purge_history by (auto simp: leads_def)
next
  case (prune cfg stale_for d d')
  then show ?case using prune_history by (auto simp: leads_def)
qed (auto dest: step_lifecycles [THEN leads_lifecycle])

lemma steps_history: "(system_step fx px)\<^sup>*\<^sup>* d d' \<Longrightarrow> history d d'"
  by (induction rule: rtranclp_induct) (auto intro: history_refl history_trans dest: step_history)

section \<open>Properties of the whole system\<close>

definition empty_db :: db where
  "empty_db = \<lparr>jobs = [], workers = []\<rparr>"


text \<open>
  C2. Every reachable state of the tables is consistent: from empty tables, through any sequence of
  operations of any number of workers, producers, dashboards and maintenance jobs, with any failures
  on the way, the constraints of the schema hold, an active task has an owner that is registered for
  its queue and a pending one has none, no task has used more attempts than its budget, ids and
  idempotency keys are unique, and a task has a completion time when it is done or killed and none
  while it is pending or active.
\<close>

theorem reachable_tables_are_consistent:
  assumes "(system_step fx px)\<^sup>*\<^sup>* empty_db d"
  shows "db_inv d"
proof -
  have "db_inv empty_db" by (simp add: empty_db_def db_inv_def db_ok_def idem_keys_def)
  with steps_history [OF assms] show ?thesis by (simp add: history_def)
qed


end
