(* ===== verification/Fixtures.thy ===== *)
theory Fixtures
  imports Drain Facade Migrations Runtime System
begin

text \<open>
  Small concrete tables and connections on which the witnesses of the properties evaluate the
  operations: one queue, one registered worker and one task, with simple instances of the code of
  other crates.
\<close>

definition sample_job :: job_row where
  "sample_job = \<lparr>j_job = [1, 2], j_id = ''J1'', j_job_type = ''q'', j_status = Pending,
     j_attempts = 0, j_max_attempts = 3, j_run_at = 0, j_last_result = None, j_lock_at = None,
     j_lock_by = None, j_done_at = None, j_priority = 0, j_metadata = None,
     j_idempotency_key = None\<rparr>"

definition sample_queued :: job_row where
  "sample_queued = sample_job\<lparr>j_status := Queued, j_lock_by := Some ''w'', j_lock_at := Some 0\<rparr>"

definition sample_worker :: worker_row where
  "sample_worker = \<lparr>w_id = ''w'', w_worker_type = ''q'', w_storage_name = ''s'', w_layers = '''',
     w_last_seen = 0, w_started_at = Some 0, w_lease_token = Some ''t''\<rparr>"

definition sample_pg :: "job_row list \<Rightarrow> timestamp \<Rightarrow> pg" where
  "sample_pg js now = \<lparr>pg_db = \<lparr>jobs = js, workers = [sample_worker]\<rparr>, pg_now = now,
     pg_script = [], pg_pool = [], pg_locked_jobs = [], pg_locked_workers = [],
     pg_advisory_busy = [], pg_claimed = False, pg_next_claim = 0\<rparr>"

definition sample_cfg :: config where
  "sample_cfg = \<lparr>c_queue = ''q'', c_buffer_size = 2, c_keep_alive = 1000, c_reenqueue_orphaned_after = 5000,
     c_ack = True\<rparr>"

definition sample_ctx :: worker_ctx where
  "sample_ctx = \<lparr>wc_name = ''w'', wc_service = ''svc''\<rparr>"

definition sample_task :: "compact task" where
  "sample_task = \<lparr>t_args = [1, 2], t_task_id = Some ''J1'', t_queue = Some ''q'', t_lock_by = None, t_lock_at = None,
     t_max_attempts = 3, t_priority = 0, t_meta = JObject [], t_attempt = 0, t_status = Pending, t_run_at = 0,
     t_idempotency_key = None, t_worker = Some ''w'', t_claim = None\<rparr>"

text \<open>A conversion that copies the columns, and refuses a row without a retry budget.\<close>

definition sample_conv :: conversion where
  "sample_conv row = (case r_max_attempts row of
     None \<Rightarrow> Inl ''no budget''
   | Some m \<Rightarrow> Inr (sample_task\<lparr>t_args := r_job row, t_task_id := Some (r_id row), t_queue := Some (r_job_type row),
       t_lock_by := r_lock_by row, t_lock_at := map_option (\<lambda>t. t div 1000000) (r_lock_at row),
       t_max_attempts := int m, t_attempt := r_attempts row, t_status := r_status row\<rparr>))"

definition sample_fx :: foreign where
  "sample_fx = \<lparr>fx_conv = sample_conv, fx_dbg = concat, fx_dec = (\<lambda>_. []), fx_src = (\<lambda>_. [])\<rparr>"

lemma sample_conv_faithful: "conv_faithful (fx_conv sample_fx)"
  by (auto simp: conv_faithful_def sample_fx_def sample_conv_def split: option.splits)

definition sample_px :: push_deps where
  "sample_px = \<lparr>px_meta = (\<lambda>_. Inr ''{}''), px_jsonb = (\<lambda>_. Inr (JObject [])),
     px_datetime = (\<lambda>s. Some (s * 1000000)), px_ulid = (\<lambda>_. ''U'')\<rparr>"

text \<open>A claim of the sample task, and the process that holds it.\<close>

definition sample_claim :: claim where
  "sample_claim = \<lparr>cl_task_id = Some ''J1'', cl_lock_at = Some 0, cl_completed = 0, cl_cells = 7\<rparr>"

definition sample_claimed :: "compact task" where
  "sample_claimed = sample_task\<lparr>t_lock_by := Some ''w'', t_lock_at := Some 0, t_status := Queued, t_claim := Some sample_claim\<rparr>"

definition sample_proc :: "job_row list \<Rightarrow> timestamp \<Rightarrow> proc" where
  "sample_proc js now = \<lparr>p_pg = sample_pg js now, p_leases = Map.empty, p_cells = (\<lambda>_. fresh_cells)\<rparr>"

definition sample_ser :: "(string, unit) result \<Rightarrow> (string, json) result" where
  "sample_ser r = Inr (case r of Inl m \<Rightarrow> json_err m | Inr _ \<Rightarrow> JObject [(''Ok'', JNull)])"

definition sample_update :: ack_update where
  "sample_update = \<lparr>au_task_id = ''J1'', au_attempts = 1, au_started_attempts = 0, au_result = Some JNull, au_status = Done,
     au_worker_id = ''w'', au_queue = ''q'', au_lock_at = 0, au_lease_token = Some ''t''\<rparr>"

definition sample_sink :: sink where
  "sample_sink = (sink_new sample_cfg)\<lparr>s_buffer := [sample_task]\<rparr>"

definition sample_done :: job_row where
  "sample_done = sample_job\<lparr>j_status := Done, j_done_at := Some 1, j_attempts := 1, j_last_result := Some JNull\<rparr>"

definition sample_reader :: "(string, unit) reader" where
  "sample_reader = task_result_from_row Inr (\<lambda>_. Inr (Inr ()))"

definition sample_filter :: page_filter where
  "sample_filter = \<lparr>pf_status = Some Done, pf_page = 1, pf_limit = 10\<rparr>"

definition sample_fetcher :: poll_fetcher where
  "sample_fetcher = with_factory sample_cfg sample_ctx [Tick, NotYet, Tick] [1] (Some ''t'')"

text \<open>The process at rest around a release: the clock stands still and nobody else acts.\<close>

definition sample_surroundings :: surroundings where
  "sample_surroundings = \<lparr>su_clock = (\<lambda>_. (0, 0)), su_during = (\<lambda>_ st. st)\<rparr>"

section \<open>A channel and runs of the listeners\<close>

text \<open>A bounded channel: beside its two ends, a sender has one slot more than the capacity.\<close>

definition sample_try_send :: "chan_view \<times> nat \<Rightarrow> string \<Rightarrow> send_outcome \<times> chan_view \<times> nat" where
  "sample_try_send c i = (case c of (v, n) \<Rightarrow>
     if \<not> cv_receiver v then (SendDisconnected, c)
     else if n < length (cv_items v) then (SendFull, c)
     else (SendOk, v\<lparr>cv_items := cv_items v @ [i]\<rparr>, n))"

definition sample_poll :: "chan_view \<times> nat \<Rightarrow> string option poll \<times> chan_view \<times> nat" where
  "sample_poll c = (case c of (v, n) \<Rightarrow> (case cv_items v of
     i # is \<Rightarrow> (PollReady (Some i), v\<lparr>cv_items := is\<rparr>, n)
   | [] \<Rightarrow> (if cv_sender v then PollPending else PollReady None, v, n)))"

definition sample_mpsc :: "(chan_view \<times> nat) mpsc" where
  "sample_mpsc = \<lparr>mp_channel = (\<lambda>n. (\<lparr>cv_items = [], cv_sender = True, cv_receiver = True\<rparr>, n)),
     mp_try_send = sample_try_send, mp_poll = sample_poll,
     mp_is_closed = (\<lambda>(v, n). \<not> cv_receiver v),
     mp_drop_sender = (\<lambda>(v, n). (v\<lparr>cv_sender := False\<rparr>, n)),
     mp_drop_receiver = (\<lambda>(v, n). (v\<lparr>cv_items := [], cv_receiver := False\<rparr>, n))\<rparr>"

lemma sample_mpsc_fifo: "fifo sample_mpsc fst"
  by (auto simp: fifo_def sample_mpsc_def sample_try_send_def sample_poll_def split: list.splits)

text \<open>A parser that reads every payload but the empty one as the announcement of two tasks of one queue.\<close>

definition sample_parse :: "string \<Rightarrow> insert_event option" where
  "sample_parse p = (if p = '''' then None else Some \<lparr>ie_job_type = ''q'', ie_id = None, ie_ids = [''J1'', ''J2'']\<rparr>)"

text \<open>Runs given by the moves that make them.\<close>

datatype notify_move = Listen wire | Read | Drop

definition notify_play :: "notify_move \<Rightarrow> (chan_view \<times> nat) notify_run \<Rightarrow> (chan_view \<times> nat) notify_run" where
  "notify_play m s = (case m of
     Listen x \<Rightarrow> listened sample_mpsc sample_parse ''q'' x s
   | Read \<Rightarrow> (case reader_step sample_mpsc (nr_reader s) (nr_world s) of (r, pc, w) \<Rightarrow>
       s\<lparr>nr_world := w, nr_reader := pc, nr_out := nr_out s @ (case r of Some p \<Rightarrow> [p] | None \<Rightarrow> [])\<rparr>)
   | Drop \<Rightarrow> if nr_reader s = Idle then (case drop_reader (nr_world s) of (pc, w) \<Rightarrow> s\<lparr>nr_world := w, nr_reader := pc\<rparr>)
       else s)"

definition notify_sample :: "nat \<Rightarrow> notify_move list \<Rightarrow> (chan_view \<times> nat) notify_run" where
  "notify_sample n moves = fold notify_play moves (notify_start sample_mpsc n None)"

definition sample_moves :: "notify_move list" where
  "sample_moves = [Listen Listening, Listen Drained, Listen (Arrived ''p''), Listen Drained, Listen Drained, Listen Drained]"

definition broken_moves :: "notify_move list" where
  "broken_moves = sample_moves @ [Listen (Broken (OtherDiesel ''gone''))]"

lemma notify_play_step: "(notify_step sample_mpsc sample_parse ''q'')\<^sup>*\<^sup>* s (notify_play m s)"
proof (cases m)
  case (Listen x)
  then show ?thesis by (auto simp: notify_play_def intro: notify_step.listen)
next
  case Read
  then show ?thesis by (auto simp: notify_play_def split: prod.split intro!: r_into_rtranclp notify_step.read)
next
  case Drop
  then show ?thesis
    by (auto simp: notify_play_def split: prod.split intro!: r_into_rtranclp notify_step.drop)
qed

lemma notify_sample_reached:
  "(notify_step sample_mpsc sample_parse ''q'')\<^sup>*\<^sup>* (notify_start sample_mpsc n None) (notify_sample n moves)"
proof -
  have "(notify_step sample_mpsc sample_parse ''q'')\<^sup>*\<^sup>* s (fold notify_play moves s)" for s
    by (induction moves arbitrary: s) (auto intro: rtranclp_trans notify_play_step)
  then show ?thesis by (simp add: notify_sample_def)
qed

lemmas notify_sample_simps = notify_sample_def notify_play_def notify_start_def notify_task_ids_def
  listener_defs unlisten_failure_def reader_step_def drop_reader_def take_error_def publish_def error_database_def sample_mpsc_def
  sample_try_send_def sample_poll_def sample_parse_def into_ids_def INSERT_EVENT_IDS_CAP_def
  clamp_notify_capacity_def NOTIFY_CHANNEL_CAPACITY_MAX_def

datatype shared_move = Make config string | Spawn "string option" | Thread nat wire | Poll string

definition shared_play :: "shared_move \<Rightarrow> (chan_view \<times> nat) shared_state \<Rightarrow> (chan_view \<times> nat) shared_state" where
  "shared_play m s = (case m of
     Make cfg r \<Rightarrow> if r \<in> set (ss_used s) then s else snd (make_shared_with_config sample_mpsc cfg r s)
   | Spawn e \<Rightarrow> if 0 < ss_spawning s then stopped s (spawn_registry_listener sample_mpsc e s) else s
   | Thread n x \<Rightarrow> if n < length (ss_threads s) then stopped s (shared_thread_step sample_mpsc (\<lambda>_. ''io'') sample_parse n x s) else s
   | Poll r \<Rightarrow> if ss_consumers s r = None then s else (case shared_poll sample_mpsc r s of (res, s') \<Rightarrow> hear r res s'))"

definition shared_sample :: "shared_move list \<Rightarrow> (chan_view \<times> nat) shared_state" where
  "shared_sample moves = fold shared_play moves (shared_new sample_mpsc)"

definition serving_moves :: "shared_move list" where
  "serving_moves = [Make sample_cfg ''r1'', Make sample_cfg ''r2'', Spawn None, Thread 0 Listening]"

lemma shared_play_step: "(shared_step sample_mpsc (\<lambda>_. ''io'') sample_parse)\<^sup>*\<^sup>* s (shared_play m s)"
proof (cases m)
  case (Make cfg r)
  then show ?thesis by (auto simp: shared_play_def intro!: r_into_rtranclp shared_step.make surjective_pairing)
next
  case (Spawn e)
  then show ?thesis by (auto simp: shared_play_def intro!: r_into_rtranclp shared_step.spawn)
next
  case (Thread n x)
  then show ?thesis by (auto simp: shared_play_def intro!: r_into_rtranclp shared_step.thread)
next
  case (Poll r)
  then show ?thesis by (auto simp: shared_play_def split: prod.split intro!: r_into_rtranclp intro: shared_step.poll)
qed

lemma shared_sample_reached:
  "(shared_step sample_mpsc (\<lambda>_. ''io'') sample_parse)\<^sup>*\<^sup>* (shared_new sample_mpsc) (shared_sample moves)"
proof -
  have "(shared_step sample_mpsc (\<lambda>_. ''io'') sample_parse)\<^sup>*\<^sup>* s (fold shared_play moves s)" for s
    by (induction moves arbitrary: s) (auto intro: rtranclp_trans shared_play_step)
  then show ?thesis by (simp add: shared_sample_def)
qed

lemmas shared_sample_simps = shared_sample_def shared_play_def shared_new_def make_shared_with_config_def
  claim_listener_spawn_def put_senders_def queue_senders_def spawn_registry_listener_def shared_thread_step_def
  shared_connect_def shared_receive_def shared_check_def set_thread_def deliver_to_queue_def shared_poll_def
  hear_def stopped_def exit_listener_def broadcast_notify_error_locked_def open_senders_def sample_mpsc_def sample_try_send_def
  sample_poll_def sample_parse_def into_ids_def INSERT_EVENT_IDS_CAP_def clamp_notify_capacity_def
  NOTIFY_CHANNEL_CAPACITY_MAX_def take_error_def publish_def sample_cfg_def

section \<open>A schema and a dashboard\<close>

text \<open>A catalog is the number of the migration it satisfies; nothing is installed at zero.\<close>

definition sample_migrator :: "nat migrator" where
  "sample_migrator = \<lparr>mi_present = (\<lambda>c. 0 < c),
     mi_contract = (\<lambda>legacy n c. if int c < n \<or> legacy \<or> c < 8 then [''jobs''] else []), mi_legacy = (\<lambda>c. False),
     mi_source = Inr MIGRATIONS,
     mi_applied = (\<lambda>s. let vs = (case sv_journal s of Some us \<Rightarrow> us | None \<Rightarrow> []) in (Inr vs, s\<lparr>sv_journal := Some vs\<rparr>)),
     mi_run_pending = (\<lambda>s. case sv_journal s of
        Some us \<Rightarrow> if set versions \<subseteq> set us then (Inr (), s)
          else (Inr (), s\<lparr>sv_journal := Some versions, sv_catalog := 14\<rparr>)
      | None \<Rightarrow> (Inr (), s\<lparr>sv_journal := Some versions, sv_catalog := 14\<rparr>)),
     mi_text = (\<lambda>_. ''server error'')\<rparr>"

lemma sample_harness_ok: "harness_ok sample_migrator"
  by (auto simp: harness_ok_def sample_migrator_def Let_def split: option.splits if_splits)

definition sample_session :: "nat \<Rightarrow> nat session" where
  "sample_session c = \<lparr>se_server = \<lparr>sv_schema = False, sv_journal = None, sv_catalog = c, sv_snapshot = None\<rparr>,
     se_faults = [], se_pool = []\<rparr>"

definition sample_rendering :: rendering where
  "sample_rendering = \<lparr>re_count = (\<lambda>n. replicate n CHR ''i''), re_percent = (\<lambda>a b. ''''), re_per = (\<lambda>a b. ''''),
     re_avg_mins = (\<lambda>_. ''''), re_mins = (\<lambda>_. ''''), re_stamp = (\<lambda>_. ''''), re_epoch = (\<lambda>_. ''''), re_date = (\<lambda>t. t div 86400000000),
     re_hour = (\<lambda>t. t div 3600000000), re_day_ago = (\<lambda>t. t - 86400000000), re_week_ago = (\<lambda>t. t - 604800000000),
     re_collate = (\<lambda>s. s), re_page_size = '''', re_page_count = '''', re_db_size = ''''\<rparr>"

text \<open>Decoders that read the arrays the overview builds.\<close>

definition json_text :: "json \<Rightarrow> string" where
  "json_text j = (case j of JString s \<Rightarrow> s | _ \<Rightarrow> '''')"

definition json_int :: "json \<Rightarrow> int" where
  "json_int j = (case j of JNumber n \<Rightarrow> n | _ \<Rightarrow> 0)"

definition json_field :: "string \<Rightarrow> json \<Rightarrow> json" where
  "json_field k j = (case j of JObject fs \<Rightarrow> (case map_of fs k of Some v \<Rightarrow> v | None \<Rightarrow> JNull) | _ \<Rightarrow> JNull)"

definition json_list :: "(json \<Rightarrow> 'a) \<Rightarrow> json \<Rightarrow> 'a list option" where
  "json_list f j = (case j of JArray xs \<Rightarrow> Some (map f xs) | _ \<Rightarrow> None)"

definition sample_queue_json :: "string queue_json" where
  "sample_queue_json = \<lparr>qj_stats = json_list (\<lambda>j. \<lparr>sc_title = json_text (json_field ''title'' j),
       sc_stat_type = json_text (json_field ''stat_type'' j), sc_value = json_text (json_field ''value'' j),
       sc_priority = Some (nat (json_int (json_field ''priority'' j)))\<rparr>),
     qj_workers = json_list json_text, qj_activity = json_list json_int\<rparr>"

lemma sample_decodes: "decodes id sample_queue_json"
  by (auto simp: decodes_def sample_queue_json_def json_list_def stat_json_def json_field_def json_text_def json_int_def comp_def)

section \<open>The acknowledging layer\<close>

definition sample_acknowledge :: "pg_acknowledger \<Rightarrow> (compact, string, unit) service \<Rightarrow> (compact, string, unit) service" where
  "sample_acknowledge ak inner req st = (case inner req st of (r, st1) \<Rightarrow> (case ack sample_ser ak (map_sum id id r) req st1 of
      (Inl e, st2) \<Rightarrow> (Inl ''acknowledgement failed'', st2)
    | (Inr _, st2) \<Rightarrow> (r, st2)))"

lemma sample_acknowledges: "acknowledges sample_ser id (\<lambda>_. ''acknowledgement failed'') sample_acknowledge"
  by (simp add: acknowledges_def sample_acknowledge_def)

lemma sample_serialises: "\<exists>v. build_ack_response sample_ser r = Inr v"
  by (simp add: build_ack_response_def sample_ser_def)

text \<open>A codec that reads every payload but the empty one.\<close>

definition sample_decode :: "compact \<Rightarrow> compact decoding" where
  "sample_decode bytes = (if bytes = [] then Undecodable ''empty'' else Decoded bytes)"

text \<open>
  Pools: while the runtime is up, tokio runs every closure, and ntex exactly those somebody still waits for;
  a runtime that shuts down does either.
\<close>

definition sample_pool :: pool where
  "sample_pool h opn down v \<longleftrightarrow> down \<or> (v = Run \<longleftrightarrow> h = TokioPool \<or> opn) \<and> (v = Discard \<longrightarrow> h = NtexDetached)"

lemma sample_pool_documented: "pool_documented sample_pool"
  by (auto simp: pool_documented_def sample_pool_def)

lemmas sample_defs = sample_job_def sample_queued_def sample_worker_def sample_pg_def

end
