(* ===== verification/Witnesses.thy ===== *)
theory Witnesses
  imports Fixtures "HOL-Library.Code_Target_Nat"
begin

text \<open>
  Concrete runs at which the hypotheses of the properties hold: each theorem applies the property
  it is named after to the sample tables, connections and tasks, with the operations evaluated by
  rewriting.
\<close>

theorem release_hands_back_witness:
  "\<exists>g'. release_worker_blocking ''q'' ''w'' ''t'' (sample_pg [sample_queued] 5) = (Inr 1, g') \<and>
     sample_job \<in> set (jobs (pg_db g')) \<and>
     (\<exists>r. find_worker ''w'' ''q'' (pg_db g') = Some r \<and> w_lease_token r = None)"
proof -
  let ?g = "sample_pg [sample_queued] 5"
  have ok: "db_ok (pg_db ?g)" by code_simp
  have "fst (release_worker_blocking ''q'' ''w'' ''t'' ?g) = Inr 1" by code_simp
  note run = run_fst [OF this]
  have mem: "sample_queued \<in> set (jobs (pg_db ?g))" by code_simp
  have held: "active_claim ''q'' ''w'' sample_queued \<and> j_status sample_queued = Queued \<and>
      j_attempts sample_queued < j_max_attempts sample_queued" by code_simp
  note res = release_hands_back [OF ok run, THEN conjunct2, THEN conjunct2, THEN conjunct2, THEN conjunct2]
  have "sample_queued\<lparr>j_status := Pending, j_done_at := None, j_lock_by := None, j_lock_at := None\<rparr> = sample_job"
    by (simp add: sample_queued_def sample_job_def)
  with res [THEN conjunct1, THEN bspec, OF mem, THEN mp, OF held] res [THEN conjunct2] run
  show ?thesis by auto
qed

theorem registration_takes_over_witness:
  "\<exists>g'. register_worker_blocking ''q'' sample_ctx ''s'' ''t2'' 5000 (sample_pg [sample_queued] 5) = (Inr (), g') \<and>
     (\<exists>r. find_worker ''w'' ''q'' (pg_db g') = Some r \<and> w_lease_token r = Some ''t2'')"
proof -
  let ?g = "sample_pg [sample_queued] 5"
  have ok: "db_ok (pg_db ?g)" by code_simp
  have "fst (register_worker_blocking ''q'' sample_ctx ''s'' ''t2'' 5000 ?g) = Inr ()" by code_simp
  note run = run_fst [OF this]
  have "wc_name sample_ctx = ''w''" by code_simp
  with registration_takes_over [OF ok run] run show ?thesis by metis
qed

theorem sweep_spares_fresh_workers_witness:
  "\<exists>g'. reenqueue_orphaned_blocking sample_cfg (sample_pg [sample_queued] 5) = (Inr 1, g') \<and>
     workers (pg_db g') = [sample_worker] \<and>
     (\<forall>j \<in> set (jobs (pg_db g')). active_claim ''q'' ''w'' j \<longrightarrow> j_id j \<in> set [])"
proof -
  let ?g = "sample_pg [sample_queued] 5"
  have ok: "db_ok (pg_db ?g)" by code_simp
  have "fst (reenqueue_orphaned_blocking sample_cfg ?g) = Inr 1" by code_simp
  note run = run_fst [OF this]
  note swept = sweep_spares_fresh_workers [OF ok run]
  have workers: "workers (pg_db ?g) = [sample_worker]" by code_simp
  have few: "(1::nat) < REENQUEUE_ORPHANED_BATCH_LIMIT \<and> length (workers (pg_db ?g)) \<le> REENQUEUE_ORPHANED_BATCH_LIMIT" by code_simp
  have w: "sample_worker \<in> set (workers (pg_db ?g))" by code_simp
  have stale: "w_worker_type sample_worker = c_queue sample_cfg \<and> worker_key sample_worker \<notin> set (pg_locked_workers ?g) \<and>
      int (c_reenqueue_orphaned_after sample_cfg) \<le> (pg_now ?g - w_last_seen sample_worker) * 1000" by code_simp
  have names: "c_queue sample_cfg = ''q''" "w_id sample_worker = ''w''" "pg_locked_jobs ?g = []" by code_simp+
  from swept [THEN conjunct2, THEN conjunct2, THEN spec, THEN mp, OF refl, THEN conjunct2, THEN mp, OF few, THEN bspec, OF w, THEN mp, OF stale]
  have "\<forall>j \<in> set (jobs (pg_db (snd (reenqueue_orphaned_blocking sample_cfg ?g)))). active_claim ''q'' ''w'' j \<longrightarrow> j_id j \<in> set []"
    unfolding names .
  with swept [THEN conjunct1, unfolded workers] run show ?thesis by blast
qed

theorem truncate_error_payload_spec_witness:
  "truncate_error_payload ''boom'' = ''boom'' \<and>
   (\<exists>k \<le> MAX_ERROR_PAYLOAD_LEN. truncate_error_payload (replicate 9000 CHR ''x'') =
      take k (replicate 9000 CHR ''x'') @ TRUNCATION_MARKER)"
  using truncate_error_payload_spec [of "''boom''"] truncate_error_payload_spec [of "replicate 9000 CHR ''x''"]
  by (auto simp: MAX_ERROR_PAYLOAD_LEN_def)

theorem fetch_next_claims_witness:
  "\<exists>tasks g'. fetch_next sample_fx sample_cfg sample_ctx (Some ''t'') (sample_pg [sample_job] 5) = (Inr tasks, g') \<and>
     length tasks = 1 \<and> workers (pg_db g') = [sample_worker]"
proof -
  let ?g = "sample_pg [sample_job] 5"
  have ok: "db_ok (pg_db ?g)" by code_simp
  have "case fst (fetch_next sample_fx sample_cfg sample_ctx (Some ''t'') ?g) of Inl _ \<Rightarrow> False | Inr ts \<Rightarrow> length ts = 1"
    by code_simp
  from run_case [OF this] obtain tasks where run:
    "fetch_next sample_fx sample_cfg sample_ctx (Some ''t'') ?g = (Inr tasks, snd (fetch_next sample_fx sample_cfg sample_ctx (Some ''t'') ?g))"
    "length tasks = 1" by blast
  have "workers (pg_db ?g) = [sample_worker]" by code_simp
  with fetch_next_claims [OF ok run(1)] run show ?thesis by metis
qed

theorem fetch_claims_are_exclusive_witness:
  "\<exists>tasks g' tasks2 h'.
     fetch_next sample_fx sample_cfg sample_ctx (Some ''t'') (sample_pg [sample_job] 5) = (Inr tasks, g') \<and>
     length tasks = 1 \<and> fetch_next sample_fx sample_cfg sample_ctx (Some ''t'') g' = (Inr tasks2, h') \<and>
     set (map t_task_id tasks) \<inter> set (map t_task_id tasks2) = {}"
proof -
  let ?f = "fetch_next sample_fx sample_cfg sample_ctx (Some ''t'')" and ?g = "sample_pg [sample_job] 5"
  have inv: "db_inv (pg_db ?g)" by code_simp
  have "case fst (?f ?g) of Inl _ \<Rightarrow> False | Inr ts \<Rightarrow> length ts = 1" by code_simp
  from run_case [OF this] obtain tasks where one: "?f ?g = (Inr tasks, snd (?f ?g))" "length tasks = 1" by blast
  have "case fst (?f (snd (?f ?g))) of Inl _ \<Rightarrow> False | Inr ts \<Rightarrow> True" by code_simp
  from run_case [OF this] obtain tasks2 where two: "?f (snd (?f ?g)) = (Inr tasks2, snd (?f (snd (?f ?g))))" by blast
  from fetch_claims_are_exclusive [OF inv sample_conv_faithful disjI1 [OF one(1)] refl disjI1 [OF two]] one two show ?thesis by blast
qed

theorem claim_error_leaves_no_claim_witness:
  "\<exists>e g'. fetch_next sample_fx sample_cfg sample_ctx (Some ''other'') (sample_pg [sample_queued] 5) = (Inl e, g') \<and>
     sample_queued \<in> set (jobs (pg_db g')) \<and> sample_queued \<in> set (jobs (pg_db (sample_pg [sample_queued] 5)))"
proof -
  let ?f = "fetch_next sample_fx sample_cfg sample_ctx (Some ''other'')" and ?g = "sample_pg [sample_queued] 5"
  have ok: "db_ok (pg_db ?g)" and sc: "script_ok ?g" by code_simp+
  have "fst (?f ?g) = Inl (worker_not_registered ''claiming task'' ''w'' ''q'' hint_replaced)" by code_simp
  note run = run_fst [OF this]
  have known: "\<forall>op src. worker_not_registered ''claiming task'' ''w'' ''q'' hint_replaced \<noteq> ClaimOutcomeUnknown op src"
    by (simp add: worker_not_registered_def)
  have j: "sample_queued \<in> set (jobs (pg_db (snd (?f ?g))))" "is_active (j_status sample_queued)" by code_simp+
  from claim_error_leaves_no_claim [OF ok sc known disjI1 [OF run] j] run j show ?thesis by blast
qed

theorem no_lost_wakeup_witness:
  "\<exists>s. (race_step (registration (fresh_lease ''w'')) 3)\<^sup>*\<^sup>* (race_start (fresh_lease ''w'')) s \<and>
     ra_pc s = ReturnedPending \<and> 3 \<in> set (ra_woken s)"
proof -
  let ?r = "registration (fresh_lease ''w'')" and ?l = "fresh_lease ''w''"
  let ?s = "\<lambda>pc l th wk. \<lparr>ra_lease = l, ra_pc = pc, ra_threads = th, ra_woken = wk\<rparr>"
  let ?w = "add_waiter 3 ?l"
  let ?e = "fst (retire ?w)"
  note lds = after_check_def after_recheck_def registration_def fresh_lease_def add_waiter_def
  have c: "race_step ?r 3 (?s (Check k) ?l [] []) (?s (after_check (run_load ?r k ?l)) ?l [] [])" for k
    using race_step.check [of "?s (Check k) ?l [] []" k ?r 3] by simp
  have c1: "race_step ?r 3 (race_start ?l) (?s (Check LoadRetired) ?l [] [])"
    and c2: "race_step ?r 3 (?s (Check LoadRetired) ?l [] []) (?s (Check LoadSettled) ?l [] [])"
    and c3: "race_step ?r 3 (?s (Check LoadSettled) ?l [] []) (?s Register ?l [] [])"
    using c [of LoadRegistered] c [of LoadRetired] c [of LoadSettled] by (simp_all add: lds race_start_def)
  have g: "race_step ?r 3 (?s Register ?l [] []) (?s (Recheck LoadRegistered) ?w [] [])"
    using race_step.register [of "?s Register ?l [] []" ?r 3] by simp
  have d: "race_step ?r 3 (?s (Recheck k) ?w [] []) (?s (after_recheck (run_load ?r k ?w)) ?w [] [])" for k
    using race_step.recheck [of "?s (Recheck k) ?w [] []" k ?r 3] by simp
  have d1: "race_step ?r 3 (?s (Recheck LoadRegistered) ?w [] []) (?s (Recheck LoadRetired) ?w [] [])"
    and d2: "race_step ?r 3 (?s (Recheck LoadRetired) ?w [] []) (?s (Recheck LoadSettled) ?w [] [])"
    and d3: "race_step ?r 3 (?s (Recheck LoadSettled) ?w [] []) (?s ReturnedPending ?w [] [])"
    using d [of LoadRegistered] d [of LoadRetired] d [of LoadSettled] by (simp_all add: lds)
  have e1: "race_step ?r 3 (?s ReturnedPending ?w [] []) (?s ReturnedPending ?w [[SetRetired, WakeAll]] [])"
    using race_step.spawn_retire [of ?r 3 "?s ReturnedPending ?w [] []"] by (simp add: retire_accesses_def)
  have e2: "race_step ?r 3 (?s ReturnedPending ?w [[SetRetired, WakeAll]] [])
      (?s ReturnedPending (?w\<lparr>l_retired := True\<rparr>) [[WakeAll]] [])"
    using race_step.thread [of "?s ReturnedPending ?w [[SetRetired, WakeAll]] []" "[]" SetRetired "[WakeAll]" "[]"] by simp
  have e3: "race_step ?r 3 (?s ReturnedPending (?w\<lparr>l_retired := True\<rparr>) [[WakeAll]] []) (?s ReturnedPending ?e [[]] [3])"
    using race_step.thread [of "?s ReturnedPending (?w\<lparr>l_retired := True\<rparr>) [[WakeAll]] []" "[]" WakeAll "[]" "[]"]
    by (simp add: retire_def wake_waiters_def add_waiter_def fresh_lease_def)
  have reach: "(race_step ?r 3)\<^sup>*\<^sup>* (race_start ?l) (?s ReturnedPending ?e [[]] [3])"
    using c1 c2 c3 g d1 d2 d3 e1 e2 e3 by (meson converse_rtranclp_into_rtranclp rtranclp.rtrancl_refl)
  have "3 \<in> set (ra_woken (?s ReturnedPending ?e [[]] [3]))"
    by (rule no_lost_wakeup [OF reach]) (simp_all add: is_settled_def retire_def wake_waiters_def)
  with reach show ?thesis by fastforce
qed

theorem ack_task_fenced_witness:
  "\<exists>g' now j. ack_task sample_update (sample_pg [sample_queued] 5) = (Inr (), g') \<and>
     j \<in> set (jobs (pg_db (sample_pg [sample_queued] 5))) \<and> still_claimed sample_update j \<and>
     pg_db g' = (pg_db (sample_pg [sample_queued] 5))\<lparr>jobs := update_where (\<lambda>k. k = j) (settled_as sample_update now)
       (jobs (pg_db (sample_pg [sample_queued] 5)))\<rparr>"
proof -
  let ?g = "sample_pg [sample_queued] 5"
  have ok: "db_ok (pg_db ?g)" by code_simp
  have "fst (ack_task sample_update ?g) = Inr ()" by code_simp
  note run = run_fst [OF this]
  from conjunct1 [OF ack_task_fenced [OF ok run]] run show ?thesis by blast
qed

lemma sample_ack_runs:
  "ack sample_ser (pg_ack_with_lease_registry ''t'') (Inr ()) sample_claimed (sample_proc [sample_queued] 5) =
     (Inr (), snd (ack sample_ser (pg_ack_with_lease_registry ''t'') (Inr ()) sample_claimed (sample_proc [sample_queued] 5)))"
proof -
  have "fst (ack sample_ser (pg_ack_with_lease_registry ''t'') (Inr ()) sample_claimed (sample_proc [sample_queued] 5)) = Inr ()"
    by code_simp
  then show ?thesis by (rule run_fst)
qed

theorem acknowledged_once_witness:
  "\<exists>st' e. ack sample_ser (pg_ack_with_lease_registry ''t'') (Inr ()) sample_claimed (sample_proc [sample_queued] 5) = (Inr (), st') \<and>
     fst (ack sample_ser (pg_ack_with_lease_registry ''t'') (Inl ''late'') sample_claimed st') = Inl e"
proof -
  have c: "t_claim sample_claimed = Some sample_claim" "\<not> start_refused sample_claim (sample_proc [sample_queued] 5)"
    by (simp_all add: sample_claimed_def start_refused_def sample_proc_def fresh_cells_def has_started_def)
  from acknowledged_once [OF sample_ack_runs c c(1) refl] sample_ack_runs show ?thesis by blast
qed

theorem ack_charges_one_attempt_witness:
  "\<exists>st' now result. ack sample_ser (pg_ack_with_lease_registry ''t'') (Inr ()) sample_claimed (sample_proc [sample_queued] 5) = (Inr (), st') \<and>
     sample_queued\<lparr>j_status := Done, j_attempts := 1, j_last_result := result, j_done_at := Some now\<rparr> \<in> set (jobs (pg_db (p_pg st')))"
proof -
  let ?st = "sample_proc [sample_queued] 5"
  have ok: "db_ok (pg_db (p_pg ?st))" and j: "sample_queued \<in> set (jobs (pg_db (p_pg ?st)))" by code_simp+
  have "task_row (fx_conv sample_fx) sample_queued = Inr (sample_claimed\<lparr>t_claim := None\<rparr>)" by code_simp
  moreover have "sample_claimed = record_claim 7 (sample_claimed\<lparr>t_claim := None\<rparr>)"
    by (simp add: sample_claimed_def record_claim_def sample_claim_def sample_task_def)
  ultimately have task: "task_of sample_fx sample_queued sample_claimed" by (auto simp: task_of_def)
  have fresh: "\<not> some_claim start_refused (t_claim sample_claimed) ?st"
    by (simp add: sample_claimed_def some_claim_def start_refused_def sample_proc_def fresh_cells_def has_started_def)
  have "jobs (pg_db (p_pg ?st)) = [sample_queued]" "j_attempts sample_queued = 0"
    by (simp_all add: sample_proc_def sample_pg_def sample_queued_def sample_job_def)
  with ack_charges_one_attempt [OF ok sample_conv_faithful j task refl refl refl sample_ack_runs fresh] sample_ack_runs
  show ?thesis by fastforce
qed

theorem lost_acknowledgement_retires_witness:
  "\<exists>e st'. ack sample_ser (pg_ack_with_lease_registry ''old'') (Inr ()) sample_claimed (sample_proc [sample_queued] 5) = (Inl e, st') \<and>
     name_retired (p_leases st') ''w''"
proof -
  let ?st = "sample_proc [sample_queued] 5" and ?ak = "pg_ack_with_lease_registry ''old''"
  have "fst (ack sample_ser ?ak (Inr ()) sample_claimed ?st) = Inl (stale_acknowledgement ''J1'' ''q'' ''w'')" by code_simp
  note run = run_fst [OF this]
  have "pa_leases ?ak \<and> t_lock_by sample_claimed = Some ''w'' \<and> \<not> some_claim start_refused (t_claim sample_claimed) ?st \<and>
      \<not> some_claim is_acknowledged (t_claim sample_claimed) ?st"
    by (simp add: pg_ack_with_lease_registry_def sample_claimed_def some_claim_def start_refused_def is_acknowledged_def
        sample_proc_def fresh_cells_def has_started_def)
  with lost_acknowledgement_retires [OF run, of "''w''"] run show ?thesis by blast
qed

theorem lost_claim_never_runs_witness:
  "\<exists>e n st'. call sample_fx \<lparr>ls_leases = True, ls_lease_token = Some ''t''\<rparr> (\<lambda>t st. (Inr () :: (unit, unit) result, st))
      sample_claimed (sample_proc [sample_job] 5) = (Inl (Abort e), n, st') \<and>
    pg_db (p_pg st') = pg_db (p_pg (sample_proc [sample_job] 5))"
proof -
  let ?st = "sample_proc [sample_job] 5"
  have ok: "db_ok (pg_db (p_pg ?st))" by code_simp
  have pre: "preclaimed sample_claimed" by code_simp
  have c: "t_claim sample_claimed = Some sample_claim" "\<not> is_acknowledged sample_claim ?st"
    and wt: "t_worker sample_claimed = Some ''w''" "t_task_id sample_claimed = Some ''J1''"
    by (simp_all add: sample_claimed_def is_acknowledged_def sample_proc_def fresh_cells_def sample_task_def)
  have lost: "\<forall>j \<in> set (jobs (pg_db (p_pg ?st))). \<not> (j_id j = ''J1'' \<and> j_lock_by j = Some ''w'' \<and>
     j_lock_at j = map_option to_timestamp (cl_lock_at sample_claim) \<and> j_attempts j = int (cl_completed sample_claim) \<and>
     is_active (j_status j))"
    by (simp add: sample_proc_def sample_pg_def sample_job_def)
  from lost_claim_never_runs [OF ok pre c wt lost] show ?thesis by blast
qed

lemma sample_prepared: "\<exists>batch. prepare_batch sample_px sample_cfg [sample_task] = Inr (Some batch)"
proof -
  have "case prepare_batch sample_px sample_cfg [sample_task] of Inr (Some _) \<Rightarrow> True | _ \<Rightarrow> False" by code_simp
  then show ?thesis by (auto split: sum.splits option.splits)
qed

theorem binds_carry_tasks_witness:
  "\<exists>batch. prepare_batch sample_px sample_cfg [sample_task] = Inr (Some batch) \<and>
     unnest_rows sample_px (pb_binds batch) = batch_rows sample_px sample_cfg [sample_task] \<and> pb_task_count batch = 1"
  using sample_prepared binds_carry_tasks by fastforce

theorem push_all_or_nothing_witness:
  "\<exists>g'. push_tasks_on_conn sample_px sample_cfg [sample_task] (sample_pg [] 5) = (Inr (), g') \<and>
     lands sample_px sample_cfg [sample_task] (pg_db (sample_pg [] 5)) (pg_db g')"
proof -
  have "fst (push_tasks_on_conn sample_px sample_cfg [sample_task] (sample_pg [] 5)) = Inr ()" by code_simp
  note run = run_fst [OF this]
  from push_all_or_nothing [OF run] run show ?thesis by blast
qed

theorem flush_phase_is_true_witness:
  "\<exists>g'. flush_tasks sample_px sample_cfg [sample_task] ((sample_pg [] 5)\<lparr>pg_pool := [NoConnection ''down'']\<rparr>) =
      (Inl (FlushNotStarted [sample_task] (Pool ''down'')), g') \<and> pg_db g' = pg_db (sample_pg [] 5)"
proof -
  have "fst (flush_tasks sample_px sample_cfg [sample_task] ((sample_pg [] 5)\<lparr>pg_pool := [NoConnection ''down'']\<rparr>)) =
      Inl (FlushNotStarted [sample_task] (Pool ''down''))" by (simp add: flush_tasks_def)
  note run = run_fst [OF this]
  from flush_phase_is_true [OF run] run show ?thesis by auto
qed

theorem sink_accounts_for_every_task_witness:
  "\<exists>s' g' bs. poll_flush_inner sample_px [] sample_sink (sample_pg [] 5) = (PollReady (Inr ()), s', g') \<and>
     concat bs = [sample_task] \<and> content s' = [] \<and> landed sample_px sample_cfg bs (pg_db (sample_pg [] 5)) (pg_db g')"
proof -
  let ?g = "sample_pg [] 5" let ?run = "poll_flush_inner sample_px [] sample_sink ?g"
  have "fst ?run = PollReady (Inr ())" by code_simp
  then have run: "?run = (PollReady (Inr ()), fst (snd ?run), snd (snd ?run))" by (metis prod.collapse)
  have "validate_task sample_px sample_cfg sample_task = Inr ()" by code_simp
  then have inv: "sink_inv sample_px sample_sink" "\<not> s_failed sample_sink" "s_config sample_sink = sample_cfg"
      "content sample_sink = [sample_task]"
    by (simp_all add: sink_inv_def sink_wf_def content_def sample_sink_def sink_new_def)
  from sink_accounts_for_every_task [OF run inv(1,2)] run inv(3,4) show ?thesis by (metis append.right_neutral)
qed

theorem purge_removes_only_aged_tasks_witness:
  "\<exists>g'. purge_terminal_tasks ''q'' 0 (sample_pg [sample_done, sample_queued\<lparr>j_id := ''J2''\<rparr>] 5) = (Inr 1, g') \<and>
     jobs (pg_db g') = [sample_queued\<lparr>j_id := ''J2''\<rparr>] \<and> workers (pg_db g') = [sample_worker]"
proof -
  let ?g = "sample_pg [sample_done, sample_queued\<lparr>j_id := ''J2''\<rparr>] 5"
  have ok: "db_ok (pg_db ?g)" by code_simp
  have "fst (purge_terminal_tasks ''q'' 0 ?g) = Inr 1" by code_simp
  note run = run_fst [OF this]
  note purged = purge_removes_only_aged_tasks [OF ok run]
  have rows: "jobs (pg_db ?g) = [sample_done, sample_queued\<lparr>j_id := ''J2''\<rparr>]" "workers (pg_db ?g) = [sample_worker]" "pg_locked_jobs ?g = []"
    by code_simp+
  obtain now where now: "jobs (pg_db (snd (purge_terminal_tasks ''q'' 0 ?g))) =
      delete_where (\<lambda>j. ended_by ''q'' (now * 1000 - int 0) j \<and> j_id j \<notin> set (pg_locked_jobs ?g)) (jobs (pg_db ?g))" "5 \<le> now"
    using purged by (auto simp: sample_pg_def)
  then have "jobs (pg_db (snd (purge_terminal_tasks ''q'' 0 ?g))) = [sample_queued\<lparr>j_id := ''J2''\<rparr>]"
    unfolding rows by (simp add: delete_where_def sample_done_def sample_queued_def sample_job_def)
  with run purged [THEN conjunct1, unfolded rows(2)] show ?thesis by (intro exI [of _ "snd (purge_terminal_tasks ''q'' 0 ?g)"] conjI)
qed


theorem fetcher_delivers_each_claim_once_witness:
  "\<exists>items f' g' log. poll_many (poll_next (logged (fetch_of sample_fx sample_fetcher))) (map elsewhere [id, id]) sample_fetcher
       (sample_pg [sample_job] 5, []) = (items, f', (g', log)) \<and>
     concat (map item_tasks items) @ buffered f' = concat (map batch_tasks log) \<and> length log + ticks f' = 2"
proof -
  obtain items f' g' log where run: "poll_many (poll_next (logged (fetch_of sample_fx sample_fetcher))) (map elsewhere [id, id])
      sample_fetcher (sample_pg [sample_job] 5, []) = (items, f', (g', log))" by (metis prod.exhaust)
  have "pf_state sample_fetcher = WaitForPoll" by code_simp
  moreover have "length (filter (\<lambda>t. t = Tick) (pf_poller sample_fetcher)) = 2" by code_simp
  ultimately show ?thesis using fetcher_delivers_each_claim_once [OF run] run by metis
qed

theorem uncertain_claim_stops_worker_witness:
  "\<exists>s1 st1. lease_stream_poll (\<lambda>s st. (PollReady (Some (Inl (ClaimOutcomeUnknown ''op'' SinkFailed))), s, st))
       (lease_stream_new (0::nat) ''w'' True) (sample_proc [] 5) =
       (PollReady (Some (Inl (ClaimOutcomeUnknown ''op'' SinkFailed) :: (error, unit) result)), s1, st1) \<and>
     name_retired (p_leases st1) ''w''"
proof -
  let ?inner = "\<lambda>s st. (PollReady (Some (Inl (ClaimOutcomeUnknown ''op'' SinkFailed) :: (error, unit) result)), s, st)"
  let ?s = "lease_stream_new (0::nat) ''w'' True" let ?st = "sample_proc [] 5"
  have "fst (lease_stream_poll ?inner ?s ?st) = PollReady (Some (Inl (ClaimOutcomeUnknown ''op'' SinkFailed)))" by code_simp
  then obtain s1 st1 where run: "lease_stream_poll ?inner ?s ?st =
      (PollReady (Some (Inl (ClaimOutcomeUnknown ''op'' SinkFailed))), s1, st1)" by (metis prod.collapse)
  have none: "poll_many (lease_stream_poll ?inner) [] s1 st1 = ([], s1, st1)" by simp
  have "ls_name ?s = ''w''" by (simp add: lease_stream_new_def)
  with uncertain_claim_stops_worker [OF run _ none] run show ?thesis by auto
qed

theorem claims_are_covered_witness:
  "name_retired (p_leases (lease_stream_drop (fst (snd (poll_many
     (lease_stream_poll (register_then_stream (Pair (Inr ())) (counted (\<lambda>b st. (PollPending, b, st))))) [id, id]
     (lease_stream_new (Registering 0, (), 0) ''w'' True) (sample_proc [] 5)))) (sample_proc [] 9))) ''w''"
proof -
  let ?run = "poll_many (lease_stream_poll (register_then_stream (Pair (Inr ())) (counted (\<lambda>b st. (PollPending, b, st))))) [id, id]
     (lease_stream_new (Registering 0, (), 0) ''w'' True) (sample_proc [] 5)"
  have run: "?run = (fst ?run, fst (snd ?run), snd (snd ?run))" by simp
  have "0 < snd (snd (ls_inner (fst (snd ?run))))" by code_simp
  with claims_are_covered [OF run] show ?thesis by blast
qed

theorem undecodable_claims_are_settled_witness:
  "\<exists>r slept st'. decode_item sample_fx (\<lambda>_. Undecodable ''bad'' :: unit decoding) sample_surroundings ''w'' (Some ''t'')
       (Inr (Some sample_claimed)) (sample_proc [sample_queued] 5) = (r, slept, st') \<and>
     (\<exists>e. r = Inl e) \<and> length slept \<le> 5"
proof -
  let ?run = "decode_item sample_fx (\<lambda>_. Undecodable ''bad'' :: unit decoding) sample_surroundings ''w'' (Some ''t'')
       (Inr (Some sample_claimed)) (sample_proc [sample_queued] 5)"
  obtain r slept st' where run: "?run = (r, slept, st')" by (metis prod.exhaust)
  have "t_task_id sample_claimed = Some ''J1''" "t_lock_at sample_claimed = Some 0" "int (t_attempt sample_claimed) \<le> i32_max"
    by (simp_all add: sample_claimed_def sample_task_def i32_max_def)
  from undecodable_claims_are_settled [OF run this] run show ?thesis by auto
qed

lemma sample_enqueue:
  "system_step sample_fx sample_px empty_db (pg_db (snd (push_tasks_on_conn sample_px sample_cfg [sample_task] ((sample_pg [] 5)\<lparr>pg_db := empty_db\<rparr>))))"
  by (rule system_step.enqueue [of _ sample_cfg "[sample_task]"])
     (auto simp: leads_def intro!: exI [of _ "(sample_pg [] 5)\<lparr>pg_db := empty_db\<rparr>"])

lemma sample_enqueued:
  "length (jobs (pg_db (snd (push_tasks_on_conn sample_px sample_cfg [sample_task] ((sample_pg [] 5)\<lparr>pg_db := empty_db\<rparr>))))) = 1"
  by code_simp

theorem reachable_tables_are_consistent_witness:
  "\<exists>d. (system_step sample_fx sample_px)\<^sup>*\<^sup>* empty_db d \<and> length (jobs d) = 1 \<and> db_inv d"
proof -
  have "(system_step sample_fx sample_px)\<^sup>*\<^sup>* empty_db
      (pg_db (snd (push_tasks_on_conn sample_px sample_cfg [sample_task] ((sample_pg [] 5)\<lparr>pg_db := empty_db\<rparr>))))"
    using sample_enqueue by (rule r_into_rtranclp)
  with reachable_tables_are_consistent [OF this] sample_enqueued show ?thesis by blast
qed



theorem listener_failure_is_reported_witness:
  "fst (reader_step sample_mpsc Idle (nr_world (notify_sample 1 broken_moves))) =
     Some (PollReady (Some (Inl (Database ''receiving PostgreSQL notification'' (OtherDiesel ''gone'')))))"
proof -
  let ?s = "notify_sample 1 broken_moves"
  have f: "nr_failures ?s = [Database ''receiving PostgreSQL notification'' (OtherDiesel ''gone'')]"
    "nr_reader ?s = Idle" "nr_out ?s = []"
    by (simp_all add: notify_sample_simps broken_moves_def sample_moves_def)
  from listener_failure_is_reported [OF sample_mpsc_fifo notify_sample_reached, of 1 broken_moves]
  show ?thesis unfolding f by simp
qed

theorem notified_ids_are_announced_witness:
  "nr_events (notify_sample 1 (sample_moves @ [Read, Read])) = [[''J1'', ''J2'']] \<and>
   (\<exists>ps. list_all2 prefix ps [[''J1'', ''J2'']] \<and> prefix [''J1''] (concat ps) \<and> concat ps = [''J1'', ''J2''])"
proof -
  let ?s = "notify_sample 1 (sample_moves @ [Read, Read])"
  have f: "nr_events ?s = [[''J1'', ''J2'']]" "ids_of (nr_out ?s) = [''J1'']"
    "cv_items (fst (nw_chan (nr_world ?s))) = [''J2'']" "receiving fst ?s"
    by (simp_all add: notify_sample_simps sample_moves_def)
  from notified_ids_are_announced [OF sample_mpsc_fifo notify_sample_reached, of 1 "sample_moves @ [Read, Read]"]
  show ?thesis unfolding f by auto
qed


theorem announced_tasks_are_claimed_witness:
  "\<exists>outs g'. batch_ids_into_tasks sample_fx ''q'' ''w'' (Some ''t'') [Inr [''J1'']] (sample_pg [sample_job] 5) = (outs, g') \<and>
     answered sample_fx ''w'' sample_job (claimed_items outs) (jobs (pg_db g'))"
proof -
  let ?g = "sample_pg [sample_job] 5" let ?cs = "[Inr [''J1'']] :: chunk list"
  have quiet: "quiet ?g" by code_simp
  have inv: "db_inv (pg_db ?g)" by code_simp
  have reg: "find_worker ''w'' ''q'' (pg_db ?g) = Some sample_worker" by code_simp
  have tok: "Some ''t'' = None \<or> w_lease_token sample_worker = Some ''t''" by (simp add: sample_worker_def)
  have un: "unchunk ?cs = [Inr ''J1'']" by simp
  have mem: "sample_job \<in> set (jobs (pg_db ?g))" by code_simp
  have held: "due ''q'' (pg_now ?g) sample_job \<and> unlocked ?g sample_job" by code_simp
  have id: "j_id sample_job = ''J1''" by (simp add: sample_job_def)
  obtain outs g' where run: "batch_ids_into_tasks sample_fx ''q'' ''w'' (Some ''t'') ?cs ?g = (outs, g')" by fastforce
  from announced_tasks_are_claimed [OF quiet inv reg tok un run, THEN conjunct2, THEN bspec, OF mem] held id run
  show ?thesis by auto
qed

theorem shared_consumers_are_served_witness:
  "let s = shared_sample (serving_moves @ [Thread 0 (Broken (OtherDiesel ''gone''))]) in
   ss_threads s = [Closing] \<and> ss_spawning s = 0 \<and> \<not> ss_poisoned s \<and>
   (\<exists>m. fst (shared_poll sample_mpsc ''r1'' s) = PollReady (Some (Inl (NotifyListener m))))"
proof -
  let ?ms = "serving_moves @ [Thread 0 (Broken (OtherDiesel ''gone''))]" let ?s = "shared_sample ?ms"
  have f: "ss_threads ?s = [Closing]" "ss_spawning ?s = 0" "\<not> ss_poisoned ?s" "ss_consumers ?s ''r1'' = Some ''q''" "ss_heard ?s = []"
    by (simp_all add: shared_sample_simps serving_moves_def Let_def)
  from shared_consumers_are_served [OF sample_mpsc_fifo shared_sample_reached, of ?ms] f
  show ?thesis by (auto simp: Let_def)
qed

theorem push_reports_stored_ids_witness:
  "\<exists>g' rows. push_tasks_with_conn Inr sample_px sample_cfg [sample_task] (sample_pg [] 5) = (Inr [''J1''], g') \<and>
     jobs (pg_db g') = rows \<and> map j_id rows = [''J1''] \<and> stored_as Inr sample_cfg sample_task ''J1'' (rows ! 0)"
proof -
  let ?g = "sample_pg [] 5"
  have "fst (push_tasks_with_conn Inr sample_px sample_cfg [sample_task] ?g) = Inr [''J1'']" by code_simp
  note run = run_fst [OF this]
  have none: "jobs (pg_db ?g) = []" by (simp add: sample_pg_def)
  from push_reports_stored_ids [OF run, THEN conjunct1, THEN spec, THEN mp, OF refl] run none
  show ?thesis by fastforce
qed

theorem run_released_always_releases_witness:
  "\<exists>st'. run_released (releaser (storage_new sample_cfg () ''t'' :: (unit, unit) postgres_storage)) ''w'' (\<lambda>st. (Unwound ''boom'' :: unit unwound, st))
      (sample_proc [sample_queued] 5) = (Unwound ''boom'', st') \<and> name_retired (p_leases st') ''w'' \<and>
     (\<forall>j \<in> set (jobs (pg_db (p_pg st'))). \<not> active_claim ''q'' ''w'' j)"
proof -
  let ?rel = "releaser (storage_new sample_cfg () ''t'' :: (unit, unit) postgres_storage)" let ?run = "\<lambda>st. (Unwound ''boom'' :: unit unwound, st :: proc)"
  let ?st = "sample_proc [sample_queued] 5"
  let ?release = "on_pg (release_worker (pr_config ?rel) ''w'' (pr_lease_token ?rel)) (retire_lease ''w'' ?st)"
  have ok: "db_ok (pg_db (p_pg ?st))" by code_simp
  have q: "c_queue (pr_config ?rel) = ''q''" by code_simp
  have one: "fst ?release = Inr 1" by code_simp
  obtain res st' where run: "run_released ?rel ''w'' ?run ?st = (res, st')" by fastforce
  from run_released_always_releases [OF refl run ok] obtain released where *: "name_retired (p_leases st') ''w''"
    "(released, st') = ?release" "res = Unwound ''boom''"
    "\<forall>n. released = Inr n \<longrightarrow> (\<forall>j \<in> set (jobs (pg_db (p_pg st'))). \<not> active_claim (c_queue (pr_config ?rel)) ''w'' j)" by auto
  have "released = Inr 1" using *(2) one by (metis fst_conv)
  with * run q show ?thesis by auto
qed

theorem heartbeat_waits_for_registration_witness:
  "\<exists>h st0 items h' st'. heartbeat_stream sample_cfg ''w'' ([0] :: nat list, 0 :: nat) (sample_proc [sample_queued] 5) = (h, st0) \<and>
     poll_many (heartbeat_poll 1 ''w'' (counted (map_ok_unit (reenqueue_orphaned_stream sample_cfg)))) [id, id] h st0 = (items, h', st') \<and>
     (\<forall>x \<in> set items. x = PollPending)"
proof -
  let ?st = "sample_proc [sample_queued] 5" let ?body = "map_ok_unit (reenqueue_orphaned_stream sample_cfg)"
  obtain h st0 where new: "heartbeat_stream sample_cfg ''w'' ([0] :: nat list, 0 :: nat) ?st = (h, st0)" by fastforce
  obtain items h' st' where run: "poll_many (heartbeat_poll 1 ''w'' (counted ?body)) [id, id] h st0 = (items, h', st')"
    by (metis prod.exhaust)
  have lv: "validate_liveness sample_cfg = Inr ()" by code_simp
  have idle: "\<not> l_registered (fst (for_worker ''w'' (p_leases ?st)))" "\<not> name_retired (p_leases ?st) ''w''" by code_simp+
  from heartbeat_waits_for_registration [OF new lv idle _ run] new run show ?thesis by auto
qed

theorem blocking_work_survives_its_caller_witness:
  "\<exists>c'. (blocking_step sample_pool (Value (Inr ())))\<^sup>*\<^sup>* ((run_blocking NtexDetached (Value (Inr ())))\<lparr>bc_caller := Abandoned\<rparr>) c' \<and>
     bc_closure c' = Ended (Value (Inr ())) \<and> bc_caller c' = Abandoned"
proof -
  let ?w = "Value (Inr ()) :: unit ending" let ?c = "run_blocking NtexDetached ?w"
  have "blocking_step sample_pool ?w ?c (?c\<lparr>bc_caller := Abandoned\<rparr>)"
    by (rule blocking_step.abandon) (simp add: run_blocking_def)
  then have "(blocking_step sample_pool ?w)\<^sup>*\<^sup>* ?c (?c\<lparr>bc_caller := Abandoned\<rparr>)" by (rule r_into_rtranclp)
  from blocking_work_survives_its_caller [OF sample_pool_documented this] show ?thesis by (simp add: run_blocking_def)
qed

theorem queue_overview_agrees_witness:
  "\<exists>infos g1. list_queues sample_rendering sample_queue_json (sample_pg [sample_queued] 5) = (Inr infos, g1) \<and>
     set (map qi_name infos) = {''q''} \<and> (\<forall>info \<in> set infos. set (qi_workers info) = {''w''} \<and> sum_list (qi_activity info) = 1)"
proof -
  let ?g = "sample_pg [sample_queued] 5"
  have quiet: "quiet ?g" by code_simp
  have "isl (fst (list_queues sample_rendering sample_queue_json ?g)) = False" by code_simp
  then obtain infos g1 where l: "list_queues sample_rendering sample_queue_json ?g = (Inr infos, g1)"
    by (cases "list_queues sample_rendering sample_queue_json ?g", cases "fst (list_queues sample_rendering sample_queue_json ?g)") auto
  have "isl (fst (metrics_for_queue sample_rendering id ''q'' ?g)) = False" by code_simp
  then obtain stats g2 where m: "metrics_for_queue sample_rendering id ''q'' ?g = (Inr stats, g2)"
    by (cases "metrics_for_queue sample_rendering id ''q'' ?g", cases "fst (metrics_for_queue sample_rendering id ''q'' ?g)") auto
  note res = queue_overview_agrees [OF quiet sample_decodes l m]
  note own = res [THEN conjunct2, THEN conjunct2, THEN bspec, THEN mp]
  have tables: "w_worker_type ` set (workers (pg_db ?g)) \<union> j_job_type ` set (jobs (pg_db ?g)) = {''q''}"
    "{w. \<exists>j \<in> set (jobs (pg_db ?g)). j_job_type j = ''q'' \<and> j_lock_by j = Some w \<and> j_status j \<in> {Pending, Queued, Running}} = {''w''}"
    "count_where (\<lambda>j. j_job_type j = ''q'' \<and> re_week_ago sample_rendering (pg_now ?g) \<le> j_run_at j) (jobs (pg_db ?g)) = 1"
    by (simp_all add: sample_defs sample_rendering_def count_where_def)
  have names: "set (map qi_name infos) = {''q''}" using res [THEN conjunct2, THEN conjunct1] unfolding tables(1) .
  have "set (qi_workers info) = {''w''} \<and> sum_list (qi_activity info) = 1" if "info \<in> set infos" for info
  proof -
    have "qi_name info = ''q''" using names that by auto
    from own [OF that this] show ?thesis unfolding tables(2,3) by simp
  qed
  with l names show ?thesis by blast
qed

theorem claimed_task_is_settled_witness:
  "\<exists>st'. middleware_call sample_fx
      (layer sample_acknowledge (pg_middleware_with_lease_registry True ''t'') (\<lambda>_ s. (Inr (), s))) sample_claimed
      (sample_proc [sample_queued] 5) = (Inr (), 0, st') \<and>
    jobs (pg_db (p_pg st')) = [sample_queued\<lparr>j_status := Done, j_attempts := 1,
      j_last_result := Some (JObject [(''Ok'', JNull)]), j_done_at := Some 5\<rparr>]"
proof -
  let ?st = "sample_proc [sample_queued] 5"
  have quiet: "quiet (p_pg ?st)" and inv: "db_inv (pg_db (p_pg ?st))" by code_simp+
  have j: "sample_queued \<in> set (jobs (pg_db (p_pg ?st)))" "j_status sample_queued = Queued" "j_lock_by sample_queued = Some ''w''"
    "j_lock_at sample_queued = Some (0 * 1000000)" "j_attempts sample_queued < j_max_attempts sample_queued" by code_simp+
  have reg: "find_worker ''w'' (j_job_type sample_queued) (pg_db (p_pg ?st)) = Some sample_worker"
    "w_lease_token sample_worker = Some ''t''" by code_simp+
  obtain t where t: "sample_conv (task_row_of sample_queued) = Inr t" "record_claim 7 t = sample_claimed"
    by (simp add: sample_conv_def task_row_of_def sample_defs record_claim_def sample_claimed_def sample_claim_def sample_task_def)
  have held: "held_task sample_fx Inr sample_queued ''w'' sample_claimed"
    unfolding held_task_def
  proof (intro exI conjI)
    show "task_of sample_fx sample_queued sample_claimed"
      unfolding task_of_def using t by (auto simp: sample_fx_def task_row_def intro: sym exI [of _ 7])
    show "try_map Inr sample_claimed = Inr sample_claimed" by (simp add: try_map_def)
    show "sample_claimed = sample_claimed\<lparr>t_worker := Some ''w''\<rparr>" by (simp add: sample_claimed_def sample_task_def)
  qed
  have fresh: "\<forall>c. t_claim sample_claimed = Some c \<longrightarrow> p_cells ?st (cl_cells c) = fresh_cells"
    by (simp add: sample_proc_def)
  have live: "\<not> name_retired (p_leases ?st) ''w''" by code_simp
  have handler: "\<forall>s. (\<lambda>_ s. (Inr (), s)) (sample_claimed\<lparr>t_status := Running\<rparr>) s = (Inr (), s)" by simp
  have ser: "build_ack_response sample_ser (map_sum id id (Inr () :: (string, unit) result)) = Inr (Some (JObject [(''Ok'', JNull)]))"
    by code_simp
  from claimed_task_is_settled [OF quiet inv sample_conv_faithful j reg held fresh live sample_acknowledges handler ser]
  show ?thesis by (auto simp: sample_proc_def sample_pg_def update_where_def sample_claimed_def sample_task_def sample_queued_def sample_job_def)
qed

theorem setup_all_or_nothing_witness:
  "\<exists>se'. schema_setup sample_migrator (sample_session 0) = (Inr (), se') \<and> schema_setup sample_migrator se' = (Inr (), se')"
proof -
  have run: "schema_setup sample_migrator (sample_session 0) = (Inr (), snd (schema_setup sample_migrator (sample_session 0)))"
    by (rule run_fst) code_simp
  have calm: "se_faults (snd (schema_setup sample_migrator (sample_session 0))) = []"
    "se_pool (snd (schema_setup sample_migrator (sample_session 0))) = []" by code_simp+
  from setup_all_or_nothing [OF sample_harness_ok run] calm run show ?thesis by blast
qed

theorem unsupported_schema_is_refused_witness:
  "\<exists>se'. schema_setup sample_migrator (sample_session 3) = (Inl (Migration (msg_unsupported [''jobs''])), se') \<and>
     se_server se' = se_server (sample_session 3)"
proof -
  let ?se = "sample_session 3"
  obtain r se' where run: "schema_setup sample_migrator ?se = (r, se')" by fastforce
  have "sv_journal (se_server ?se) = None \<or> sv_journal (se_server ?se) = Some []"
    "mi_present sample_migrator (sv_catalog (se_server ?se))"
    "mi_contract sample_migrator False 11 (sv_catalog (se_server ?se)) \<noteq> []"
    "mi_contract sample_migrator False 0 (sv_catalog (se_server ?se)) \<noteq> []"
    "mi_contract sample_migrator True 0 (sv_catalog (se_server ?se)) \<noteq> [] \<or> \<not> mi_legacy sample_migrator (sv_catalog (se_server ?se))"
    by (simp_all add: sample_session_def sample_migrator_def)
  from unsupported_schema_is_refused [OF sample_harness_ok run this] run
  show ?thesis by (simp add: sample_session_def sample_migrator_def)
qed


end
