(* ===== verification/Spec2Isabelle.thy ===== *)
theory Spec2Isabelle
  imports Witnesses
begin

text \<open>
  A verification library for \<^verbatim>\<open>apalis-diesel-postgres\<close>, a PostgreSQL backend for the Apalis task
  queue: workers register, poll for due tasks, claim, start and acknowledge them, keep their
  registrations alive with heartbeats, and recover the claims of workers that stopped; producers
  enqueue; listeners pass on what was announced; maintenance jobs purge and prune; dashboards list,
  count and wait; setup installs or adopts the schema.

  \<^bold>\<open>Theories and sources\<close> (file and function names under \<^verbatim>\<open>src/\<close>).

  \<^item> \<^verbatim>\<open>Prelude\<close>: results, collecting them, Rust's integer bounds, table updates as list
    operations, polls. No source of its own.
  \<^item> \<^verbatim>\<open>Errors\<close> (\<^verbatim>\<open>error.rs\<close>): the error type with its rendering, the classification of
    database errors and \<open>claim_outcome\<close>, which decides whether a failed claim may have committed.
  \<^item> \<^verbatim>\<open>Database\<close> (\<^verbatim>\<open>schema.rs\<close>, \<^verbatim>\<open>queries/mod.rs\<close>, \<^verbatim>\<open>runtime.rs\<close>):
    the tables \<open>jobs\<close> and \<open>workers\<close> with the constraints of the final schema (\<open>db_ok\<close>), SQL
    statements, transactions and \<open>with_conn\<close> on a connection \<open>pg\<close>.
  \<^item> \<^verbatim>\<open>Runtime\<close> (\<^verbatim>\<open>runtime.rs\<close>): the blocking pool behind \<open>with_conn\<close>, one call of it as
    a step relation of the closure, the forwarding task and the caller.
  \<^item> \<^verbatim>\<open>Contracts\<close>: the locales \<open>db_relation\<close> (a relation every statement, transaction and pooled
    call inherits) and \<open>pg_relation\<close> (the same for whole connections), with their rules, used for
    every invariant and frame below.
  \<^item> \<^verbatim>\<open>Lifecycle\<close> (\<^verbatim>\<open>docs/lifecycle.md\<close>): the invariant \<open>db_inv\<close>, the evolution of a task
    and the contract \<open>lifecycle\<close>, an interpretation of \<open>db_relation\<close>; the abstract board, on which a
    task id is absent, ready, held or over, and the moves it allows.
  \<^item> \<^verbatim>\<open>Models\<close> (\<^verbatim>\<open>models.rs\<close>, \<^verbatim>\<open>queries/mod.rs\<close>): rows, tasks, results,
    page filters, truncation.
  \<^item> \<^verbatim>\<open>Workers\<close> (\<^verbatim>\<open>queries/worker.rs\<close>): registration and takeover, heartbeat, release,
    the orphan sweep.
  \<^item> \<^verbatim>\<open>Fetch\<close> (\<^verbatim>\<open>queries/fetch.rs\<close>): polling, notified ids, quarantine of malformed rows,
    starting, locking, undecodable tasks; the locale \<open>claim_source\<close>, the contract of the ways
    to claim, interpreted for polls and for notified ids.
  \<^item> \<^verbatim>\<open>Lease\<close> (\<^verbatim>\<open>lease.rs\<close>): local liveness of worker names, one atomic access at a
    time; the locale \<open>liveness\<close>.
  \<^item> \<^verbatim>\<open>Ack\<close> (\<^verbatim>\<open>ack.rs\<close>, \<^verbatim>\<open>queries/ack.rs\<close>): the acknowledgement, the claim
    record and its shared cells, the lock middleware.
  \<^item> \<^verbatim>\<open>Middleware\<close> (\<^verbatim>\<open>PgMiddleware\<close> of \<^verbatim>\<open>ack.rs\<close>): the lock service around the
    acknowledging layer of \<^verbatim>\<open>apalis-core\<close>, and what a dispatch does to a claimed task.
  \<^item> \<^verbatim>\<open>Drain\<close>: rounds of polls and dispatches of one worker, over \<open>Fetch\<close> and \<open>Middleware\<close>.
  \<^item> \<^verbatim>\<open>Push\<close> (\<^verbatim>\<open>queries/push.rs\<close>): validation, binds, the insert with its conflicts,
    the flush and its phases.
  \<^item> \<^verbatim>\<open>Sink\<close> (\<^verbatim>\<open>sink.rs\<close>): the buffered sink, over the locale \<open>batch_writer\<close>.
  \<^item> \<^verbatim>\<open>Fetcher\<close>, \<^verbatim>\<open>Streams\<close> (\<^verbatim>\<open>fetcher.rs\<close>): the polling fetcher, the
    registration gate, the lease check around every poll, the decoding stage.
  \<^item> \<^verbatim>\<open>Notify\<close> (\<^verbatim>\<open>notify_event.rs\<close>, \<^verbatim>\<open>queries/notify.rs\<close>): announcements, the
    listener thread and its consumer as a step relation; the contract \<open>fifo\<close> of the bounded channel.
  \<^item> \<^verbatim>\<open>Batching\<close> (\<^verbatim>\<open>queries/mod.rs\<close>, \<^verbatim>\<open>fetcher.rs\<close>): from notified ids to
    claimed tasks, and the pipeline that merges them with polled ones.
  \<^item> \<^verbatim>\<open>Shared\<close> (\<^verbatim>\<open>shared.rs\<close>): the registry of senders, the shared listener threads and
    the consumers as a step relation, with a mutex that may be poisoned.
  \<^item> \<^verbatim>\<open>Storage\<close> (\<^verbatim>\<open>lib.rs\<close>): the storage and its clones, enqueueing on a caller's
    connection, release around a run, the heartbeat stream, the task streams.
  \<^item> \<^verbatim>\<open>Facade\<close> (\<^verbatim>\<open>admin.rs\<close>, \<^verbatim>\<open>pool.rs\<close>, entry points of \<^verbatim>\<open>fetcher.rs\<close>,
    \<^verbatim>\<open>shared.rs\<close>): the dashboard traits, the notify-driven modes, the pool.
  \<^item> \<^verbatim>\<open>Retention\<close> (\<^verbatim>\<open>queries/retention.rs\<close>): purge and prune.
  \<^item> \<^verbatim>\<open>Admin\<close> (\<^verbatim>\<open>queries/admin.rs\<close>, \<^verbatim>\<open>admin.rs\<close>): listings, registration
    without a token, waiting for completion.
  \<^item> \<^verbatim>\<open>Statistics\<close> (\<^verbatim>\<open>queries/admin.rs\<close>, \<^verbatim>\<open>models.rs\<close>): the overview of the queues
    and the metrics.
  \<^item> \<^verbatim>\<open>Migrations\<close> (\<^verbatim>\<open>queries/migrations.rs\<close>, \<^verbatim>\<open>queries/metrics.rs\<close>,
    \<^verbatim>\<open>lifecycle.rs\<close>): setup and verification of the schema, the refresh of the snapshot.
  \<^item> \<^verbatim>\<open>System\<close>: all operations together, as a step relation on the tables.
  \<^item> \<^verbatim>\<open>Fixtures\<close>, \<^verbatim>\<open>Witnesses\<close>: sample tables and the runs that show that the hypotheses of
    the properties can hold.

  \<^bold>\<open>How the code is modelled.\<close> A connection carries the tables, the server clock, the rows and
  advisory locks other sessions hold, and a script of what the environment does to the next statements:
  how far the clock advances, whether a statement or a commit fails, and whether the server had
  applied it by then; likewise for the pool and the blocking executor. An operation is a function from
  a connection to a result and a connection, with every early return and every error of the source as
  a branch. A transaction is atomic against one version of the tables, which the row locks of its
  statements provide; \<^verbatim>\<open>SKIP LOCKED\<close> skips the rows the connection says are locked. Operations of
  several sessions interleave as sequences of operations (\<open>System\<close>, and the \<open>others\<close> and \<open>polls\<close> of the
  stream properties). Streams are polled functions; the futures inside them are given by how often they
  are pending. Inside \<open>Lease\<close>, \<open>Notify\<close>, \<open>Shared\<close> and \<open>Runtime\<close> the interleaving is finer: one atomic
  access, one channel operation or one critical section per step.

  Code of other crates is a parameter: the conversion of rows to tasks and the renderings of error
  texts (\<open>foreign\<close>), JSON and time conversions and new ids (\<open>push_deps\<close>), codecs, result readers,
  serializers, handlers, poll strategies, channels, the acknowledging layer, the migration harness, and
  PostgreSQL's rendering of numbers and times. What the crate relies on is named in hypotheses:
  \<open>conv_faithful\<close> for a conversion, \<open>script_ok\<close> for the server's commit errors, \<open>fifo\<close> for a channel,
  \<open>acknowledges\<close> for the acknowledging layer, \<open>harness_ok\<close> for the migration harness, \<open>decodes\<close> and
  \<open>sound_codecs\<close> for decoders; \<open>Fixtures\<close> has an instance of each.

  \<^bold>\<open>Choices.\<close> Durations are natural numbers of nanoseconds and timestamps integers of
  microseconds; the window arithmetic the code does in \<^verbatim>\<open>f64\<close> is exact here. Strings are byte strings
  ordered bytewise. A \<^verbatim>\<open>LIMIT\<close> without an order takes rows in table order. Texts of
  \<^verbatim>\<open>InvalidArgument\<close> errors leave out interpolated values. Attempts, limits and offsets keep
  their widths and bounds, the counters of \<open>Lease\<close> wrap at 64 bits; there are fewer than \<open>2 ^ 64\<close>
  pending attempts at a time. Loops that the code bounds are total functions with a measure: batches of
  the retention loops shrink a table, release retries count up to their limit, the poll loop uses up
  answers of its strategy; no fuel is used.

  \<^bold>\<open>What is shown.\<close> For the whole system: every reachable state is consistent, and no task is lost,
  charged beyond its budget or changed after a verdict; the tables implement the abstract board; a
  dispatched claim is run and settled, and a worker left alone drains its queue within the attempts its
  tasks have left. For claims: two polls never return the same
  task, a claim error other than an unknown outcome left no claim, a poll takes the best due tasks, a
  lost claim never runs, an acknowledgement is fenced to its claim and happens at most once. For
  listeners: a failure is reported once and before the end, what is announced is delivered in order and
  claimed, every live consumer of the shared listener is served, a dropped one stops its listener. For
  workers: takeover, release, heartbeat and sweep touch exactly what they should; a waiting heartbeat is
  always woken; a stream's claims are always covered by a guard, an uncertain claim stops its worker, an
  undecodable claim is settled. For producers: a batch is all or nothing, a failed flush tells the
  truth, and the sink loses nothing. For maintenance and dashboards: only aged terminal tasks and unused
  registrations are removed, pages tile a listing, a wait answers once for every task, the overview and
  the metrics agree. For the ground below: blocking work survives its caller, and setup is all or nothing
  and refuses schemas it does not know.

  \<^bold>\<open>Not modelled.\<close> The scripts of the migrations and the catalog queries of
  \<^verbatim>\<open>schema_contract.sql\<close> (SQL text; \<open>migrator\<close> takes what they decide as parameters), the
  internals of the crates named above, the wording of some diagnostics, \<^verbatim>\<open>Debug\<close> implementations,
  accessors, \<^verbatim>\<open>poll_ready\<close> of the services, which forwards to the inner one, and the test code
  (\<^verbatim>\<open>query_specs\<close>, \<^verbatim>\<open>async_specs.rs\<close>, the \<^verbatim>\<open>tests\<close> modules), which is most of
  the lines the map leaves out.
\<close>

end
